(* ===== verification/Octet_Base.thy ===== *)
theory Octet_Base
  imports Main "HOL-Library.Word" "HOL-Library.Finite_Map" "HOL-Library.List_Lexorder"
begin

text \<open>
  The prelude of the development: the types that every component shares, the Go values the
  sources compute with, and the generic lemmas on bytes, words, finite maps and lists.

  \<^item> A Go \<open>string\<close> and a \<open>[]byte\<close> are both \<^emph>\<open>byte lists\<close>: Go strings are byte
    sequences, \<open>len\<close> counts bytes, and \<open>sort.Strings\<close> compares them lexicographically, which is
    the order of \<open>List_Lexorder\<close> on 8-bit words.
  \<^item> A Go map is a finite map \<open>('k, 'v) fmap\<close>; \<open>len(m)\<close> is \<open>fmsize m\<close>.
  \<^item> \<open>uint32\<close> and \<open>uint64\<close> are words; a Go \<open>int\<close> that the code computes with is a 64-bit word
    read by \<open>sint\<close>; configuration bounds, which are only compared, are \<open>int\<close>.
  \<^item> An error is a value of \<open>go_error\<close>; a fallible call returns \<open>go_error + 'a\<close>.
\<close>

section \<open>Named collections\<close>

named_theorems codec_simps \<open>round-trip equations of the byte codecs\<close>
named_theorems fm_simps \<open>lookup, domain and size equations of finite maps\<close>

section \<open>Machine types\<close>

type_synonym byte = "8 word"
type_synonym u32 = "32 word"
type_synonym u64 = "64 word"
type_synonym bytes = "byte list"

text \<open>An ASCII literal of the source as the bytes it denotes.\<close>

definition str :: "string \<Rightarrow> bytes" where
  "str s = map of_char s"

lemma str_simps [simp]:
  "str [] = []"
  "str (c # cs) = of_char c # str cs"
  "str (xs @ ys) = str xs @ str ys"
  by (simp_all add: str_def)

lemma length_str [simp]: "length (str s) = length s"
  by (simp add: str_def)

section \<open>Errors\<close>

text \<open>
  \<open>ErrorKind\<close> and \<open>Error\<close> of \<^verbatim>\<open>errors.go\<close>, \<open>ErrorKind\<close> and \<open>RuntimeError\<close> of
  \<^verbatim>\<open>internal/core/types.go\<close>, the rejection value of \<^verbatim>\<open>keyed.go\<close>, and the errors of the
  standard library the sources pass on. \<open>Wrapped\<close> is an error value that unwraps to another one;
  \<open>Panic\<close> is a run-time panic, which no handler of the sources turns into an error.
\<close>

datatype ErrorKind =
    ErrorInvalidInput
  | ErrorCapacity
  | ErrorStorage
  | ErrorCorruption
  | ErrorIncompatible
  | ErrorClosed
  | ErrorPoisoned

datatype CoreErrorKind =
    CapacityExceeded
  | EngineClosed
  | EnginePoisoned
  | InvalidCommand
  | DurabilityWriteFailed
  | RecoveryCorrupt
  | RecoveryIncompatible

datatype go_error =
    Error ErrorKind string string
  | RuntimeError CoreErrorKind string
  | KeyedRejection bytes bytes
  | PathError string
  | ErrNotExist
  | OtherError string
  | Wrapped string go_error
  | Panic string

type_synonym 'a res = "go_error + 'a"

text \<open>The context argument: nil, already done (with its error), or live.\<close>

datatype ctx = CtxNil | CtxDone go_error | CtxLive

section \<open>Lists\<close>

lemma take_append_exact: "length xs = n \<Longrightarrow> take n (xs @ ys) = xs"
  by simp

lemma drop_append_exact: "length xs = n \<Longrightarrow> drop n (xs @ ys) = ys"
  by simp

text \<open>A sorted duplicate-free list is determined by its elements.\<close>

lemma sorted_distinct_set_eq:
  fixes xs :: "'a::linorder list"
  assumes "sorted xs" "distinct xs" "sorted ys" "distinct ys" "set xs = set ys"
  shows "xs = ys"
  using assms by (rule sorted_distinct_set_unique)

section \<open>Finite maps\<close>

definition fmsize :: "('k, 'v) fmap \<Rightarrow> nat" where
  "fmsize m = fcard (fmdom m)"

lemma fmsize_empty [simp, fm_simps]: "fmsize fmempty = 0"
  by (simp add: fmsize_def)

lemma fmdom_lookup_iff: "k |\<in>| fmdom m \<longleftrightarrow> fmlookup m k \<noteq> None"
  by (simp add: fmlookup_dom_iff)

lemma fmsize_fmupd [fm_simps]:
  "fmsize (fmupd k v m) = (if fmlookup m k = None then Suc (fmsize m) else fmsize m)"
  by (simp add: fmsize_def fcard_finsert_if fmlookup_dom_iff)

lemma fmsize_fmdrop [fm_simps]:
  "fmsize (fmdrop k m) = (if fmlookup m k = None then fmsize m else fmsize m - 1)"
proof (cases "fmlookup m k")
  case None
  then have "k |\<notin>| fmdom m" by (rule fmdom_notI)
  then have "fmdrop k m = m" by (rule fmdrop_idle)
  with None show ?thesis by simp
next
  case (Some v)
  then have "k |\<in>| fmdom m" by (rule fmdomI)
  then show ?thesis using Some
    by (simp add: fmsize_def fcard_fminus_fsingleton)
qed

lemma fmsize_pos: "fmlookup m k = Some v \<Longrightarrow> 0 < fmsize m"
  by (auto simp: fmsize_def card_gt_0_iff fcard.rep_eq dest: fmdomI)

end
