(* ===== verification/Go_Binary.thy ===== *)
theory Go_Binary
  imports Octet_Base
begin

text \<open>
  The parts of Go's standard library that turn numbers and byte strings into bytes:
  \<open>encoding/binary\<close> (fixed-width little and big endian), \<open>hash/crc32\<close> (the IEEE polynomial),
  \<open>crypto/sha256\<close>, \<open>encoding/hex\<close> and the standard alphabet of \<open>encoding/base64\<close>. Everything is
  executable; the lemmas are the lengths and the round trips the storage components rely on.
\<close>

unbundle bit_operations_syntax

section \<open>Fixed-width integers\<close>

lemma unat_byte_less: "unat (b :: byte) < 256"
  using unsigned_less [of b] by simp

primrec le_enc :: "nat \<Rightarrow> 'a::len word \<Rightarrow> bytes" where
  "le_enc 0 w = []"
| "le_enc (Suc k) w = ucast w # le_enc k (drop_bit 8 w)"

primrec le_dec :: "bytes \<Rightarrow> 'a::len word" where
  "le_dec [] = 0"
| "le_dec (b # bs) = ucast b OR push_bit 8 (le_dec bs)"

lemma length_le_enc [simp]: "length (le_enc k w) = k"
  by (induction k arbitrary: w) auto

lemma bit_le_dec:
  "bit (le_dec bs :: 'a::len word) n \<longleftrightarrow>
     n < LENGTH('a) \<and> n < 8 * length bs \<and> bit (bs ! (n div 8)) (n mod 8)"
proof (induction bs arbitrary: n)
  case (Cons b bs)
  show ?case
  proof (cases "n < 8")
    case True
    then show ?thesis by (auto simp: bit_or_iff bit_push_bit_iff bit_ucast_iff)
  next
    case False
    then have "n div 8 = Suc ((n - 8) div 8)" "n mod 8 = (n - 8) mod 8"
      by (simp_all add: le_div_geq le_mod_geq)
    moreover have "\<not> bit b n" using False by (auto dest: bit_imp_le_length)
    ultimately show ?thesis using False
      by (auto simp: bit_or_iff bit_push_bit_iff bit_ucast_iff Cons.IH)
  qed
qed simp

lemma le_enc_nth:
  "i < k \<Longrightarrow> le_enc k w ! i = ucast (drop_bit (8 * i) w)"
proof (induction k arbitrary: i w)
  case (Suc k)
  then show ?case by (cases i) (auto simp: drop_bit_drop_bit add.commute)
qed simp

lemma le_dec_le_enc: "le_dec (le_enc k w) = take_bit (8 * k) (w :: 'a::len word)"
proof (rule bit_word_eqI)
  fix n assume n: "n < LENGTH('a)"
  have "bit (le_enc k w ! (n div 8)) (n mod 8) \<longleftrightarrow> bit w n" if "n < 8 * k"
  proof -
    have "n div 8 < k" using that by (simp add: less_mult_imp_div_less mult.commute)
    then show ?thesis
      by (simp add: le_enc_nth bit_ucast_iff bit_drop_bit_eq)
  qed
  then show "bit (le_dec (le_enc k w) :: 'a word) n \<longleftrightarrow> bit (take_bit (8 * k) w) n"
    using n by (auto simp: bit_le_dec bit_take_bit_iff)
qed

lemma le_enc_le_dec:
  "8 * length bs \<le> LENGTH('a) \<Longrightarrow> le_enc (length bs) (le_dec bs :: 'a::len word) = bs"
proof (rule nth_equalityI)
  fix i assume len: "8 * length bs \<le> LENGTH('a)"
    and "i < length (le_enc (length bs) (le_dec bs :: 'a word))"
  then have i: "i < length bs" by simp
  show "le_enc (length bs) (le_dec bs :: 'a word) ! i = bs ! i"
  proof (rule bit_word_eqI)
    fix n assume "n < LENGTH(8)"
    then have n: "n < 8" by simp
    then have "(8 * i + n) div 8 = i" "(8 * i + n) mod 8 = n" "8 * i + n < 8 * length bs"
      using i by simp_all
    then show "bit (le_enc (length bs) (le_dec bs :: 'a word) ! i) n = bit (bs ! i) n"
      using i n len by (simp add: le_enc_nth bit_ucast_iff bit_drop_bit_eq bit_le_dec)
  qed
qed simp

definition le32 :: "u32 \<Rightarrow> bytes" where
  "le32 w = le_enc 4 w"

definition get32 :: "bytes \<Rightarrow> u32" where
  "get32 bs = le_dec (take 4 bs)"

definition le64 :: "u64 \<Rightarrow> bytes" where
  "le64 w = le_enc 8 w"

definition get64 :: "bytes \<Rightarrow> u64" where
  "get64 bs = le_dec (take 8 bs)"

definition be64 :: "u64 \<Rightarrow> bytes" where
  "be64 w = rev (le_enc 8 w)"

definition getbe64 :: "bytes \<Rightarrow> u64" where
  "getbe64 bs = le_dec (rev (take 8 bs))"

lemma length_le32 [simp]: "length (le32 w) = 4"
  by (simp add: le32_def)

lemma length_le64 [simp]: "length (le64 w) = 8"
  by (simp add: le64_def)

lemma length_be64 [simp]: "length (be64 w) = 8"
  by (simp add: be64_def)

lemma le_dec_le_enc_full [simp]:
  "le_dec (le_enc 4 (w :: u32)) = w" "le_dec (le_enc 8 (v :: u64)) = v"
  by (simp_all add: le_dec_le_enc take_bit_word_eq_self)

lemma get32_le32 [simp, codec_simps]: "get32 (le32 w @ bs) = w"
  by (simp add: get32_def le32_def)

lemma get64_le64 [simp, codec_simps]: "get64 (le64 w @ bs) = w"
  by (simp add: get64_def le64_def)

lemma getbe64_be64 [simp, codec_simps]: "getbe64 (be64 w @ bs) = w"
  by (simp add: getbe64_def be64_def)

lemma get32_le32_nil [simp, codec_simps]: "get32 (le32 w) = w"
  using get32_le32 [of w "[]"] by simp

lemma be64_getbe64: "length bs = 8 \<Longrightarrow> be64 (getbe64 bs) = bs"
  using le_enc_le_dec [of "rev bs", where 'a = 64] by (simp add: be64_def getbe64_def)

lemma be64_inject [simp]: "be64 v = be64 w \<longleftrightarrow> v = w"
  by (metis append_Nil2 getbe64_be64)

section \<open>CRC-32 (IEEE)\<close>

definition crc_bit :: "u32 \<Rightarrow> u32" where
  "crc_bit c = (if bit c 0 then drop_bit 1 c XOR 0xEDB88320 else drop_bit 1 c)"

definition crc_byte :: "byte \<Rightarrow> u32 \<Rightarrow> u32" where
  "crc_byte b c = (crc_bit ^^ 8) (c XOR ucast b)"

definition crc32 :: "bytes \<Rightarrow> u32" where
  "crc32 bs = NOT (fold crc_byte bs (NOT 0))"

section \<open>SHA-256\<close>

definition sha_k :: "u32 list" where
  "sha_k = [
    1116352408, 1899447441, 3049323471, 3921009573, 961987163, 1508970993, 2453635748, 2870763221,
    3624381080, 310598401, 607225278, 1426881987, 1925078388, 2162078206, 2614888103, 3248222580,
    3835390401, 4022224774, 264347078, 604807628, 770255983, 1249150122, 1555081692, 1996064986,
    2554220882, 2821834349, 2952996808, 3210313671, 3336571891, 3584528711, 113926993, 338241895,
    666307205, 773529912, 1294757372, 1396182291, 1695183700, 1986661051, 2177026350, 2456956037,
    2730485921, 2820302411, 3259730800, 3345764771, 3516065817, 3600352804, 4094571909, 275423344,
    430227734, 506948616, 659060556, 883997877, 958139571, 1322822218, 1537002063, 1747873779,
    1955562222, 2024104815, 2227730452, 2361852424, 2428436474, 2756734187, 3204031479, 3329325298]"

definition sha_init :: "u32 list" where
  "sha_init = [1779033703, 3144134277, 1013904242, 2773480762,
               1359893119, 2600822924, 528734635, 1541459225]"

definition rotr :: "nat \<Rightarrow> u32 \<Rightarrow> u32" where
  "rotr n x = drop_bit n x OR push_bit (32 - n) x"

definition be32 :: "u32 \<Rightarrow> bytes" where
  "be32 w = rev (le_enc 4 w)"

fun sha_words :: "bytes \<Rightarrow> u32 list" where
  "sha_words (a # b # c # d # bs) = le_dec [d, c, b, a] # sha_words bs"
| "sha_words _ = []"

definition sha_pad :: "bytes \<Rightarrow> bytes" where
  "sha_pad bs =
     bs @ [0x80] @ replicate ((119 - length bs mod 64) mod 64) 0 @ be64 (of_nat (8 * length bs))"

text \<open>The message schedule, kept newest word first.\<close>

definition sha_next :: "u32 list \<Rightarrow> u32 list" where
  "sha_next w =
     (let s0 = (let x = w ! 14 in rotr 7 x XOR rotr 18 x XOR drop_bit 3 x);
          s1 = (let x = w ! 1 in rotr 17 x XOR rotr 19 x XOR drop_bit 10 x)
      in (w ! 15 + s0 + w ! 6 + s1) # w)"

definition sha_schedule :: "u32 list \<Rightarrow> u32 list" where
  "sha_schedule blk = rev ((sha_next ^^ 48) (rev blk))"

fun sha_round :: "u32 list \<Rightarrow> u32 \<times> u32 \<Rightarrow> u32 list" where
  "sha_round [a, b, c, d, e, f, g, h] (k, w) =
     (let s1 = rotr 6 e XOR rotr 11 e XOR rotr 25 e;
          ch = (e AND f) XOR (NOT e AND g);
          t1 = h + s1 + ch + k + w;
          s0 = rotr 2 a XOR rotr 13 a XOR rotr 22 a;
          maj = (a AND b) XOR (a AND c) XOR (b AND c);
          t2 = s0 + maj
      in [t1 + t2, a, b, c, d + t1, e, f, g])"
| "sha_round s _ = s"

definition sha_block :: "u32 list \<Rightarrow> u32 list \<Rightarrow> u32 list" where
  "sha_block h blk = map2 (+) h (foldl sha_round h (zip sha_k (sha_schedule blk)))"

function sha_blocks :: "u32 list \<Rightarrow> u32 list \<Rightarrow> u32 list" where
  "sha_blocks h ws =
     (if length ws < 16 then h else sha_blocks (sha_block h (take 16 ws)) (drop 16 ws))"
  by pat_completeness auto
termination
  by (relation "measure (\<lambda>(h, ws). length ws)") auto

declare sha_blocks.simps [simp del]

definition sha256 :: "bytes \<Rightarrow> bytes" where
  "sha256 bs = concat (map be32 (sha_blocks sha_init (sha_words (sha_pad bs))))"

lemma sha_round_length: "length s = 8 \<Longrightarrow> length (sha_round s kw) = 8"
  by (induction s kw rule: sha_round.induct) (auto simp: Let_def)

lemma sha_block_length: "length h = 8 \<Longrightarrow> length (sha_block h blk) = 8"
proof -
  assume h: "length h = 8"
  have "length (foldl sha_round s xs) = 8" if "length s = 8" for s xs
    using that by (induction xs arbitrary: s) (auto simp: sha_round_length)
  with h show ?thesis by (simp add: sha_block_def)
qed

lemma sha_blocks_length: "length h = 8 \<Longrightarrow> length (sha_blocks h ws) = 8"
proof (induction h ws rule: sha_blocks.induct)
  case (1 h ws)
  then show ?case by (subst sha_blocks.simps) (auto simp: sha_block_length)
qed

lemma length_sha256 [simp]: "length (sha256 bs) = 32"
proof -
  have "length (sha_blocks sha_init ws) = 8" for ws
    by (rule sha_blocks_length) (simp add: sha_init_def)
  moreover have "length (concat (map be32 xs)) = 4 * length xs" for xs
    by (induction xs) (auto simp: be32_def)
  ultimately show ?thesis by (simp add: sha256_def)
qed

section \<open>Hexadecimal\<close>

definition hex_digit :: "nat \<Rightarrow> byte" where
  "hex_digit n = (if n < 10 then of_nat (48 + n) else of_nat (87 + n))"

definition hex_encode :: "bytes \<Rightarrow> bytes" where
  "hex_encode bs = concat (map (\<lambda>b. [hex_digit (unat b div 16), hex_digit (unat b mod 16)]) bs)"

lemma length_hex_encode [simp]: "length (hex_encode bs) = 2 * length bs"
  by (induction bs) (auto simp: hex_encode_def)

end
