(* ===== verification/Go_Json_Laws.thy ===== *)
theory Go_Json_Laws
  imports Go_Json
begin

text \<open>
  What the JSON printers guarantee: printed values are accepted by the scanner in every context,
  and printed arrays and objects split back into the values they were built from.
\<close>

section \<open>Decimal numbers\<close>

lemma jdigit_of_nat: "n < 10 \<Longrightarrow> jdigit (of_nat (48 + n)) \<and> unat (of_nat (48 + n) :: byte) = 48 + n"
proof -
  assume "n < 10"
  then have "n \<in> {0, 1, 2, 3, 4, 5, 6, 7, 8, 9}" by auto
  then show ?thesis by (elim insertE emptyE) (simp_all add: jdigit_def)
qed

lemma dec_nat_digits: "dec_nat n \<noteq> [] \<and> list_all jdigit (dec_nat n)"
proof (induction n rule: dec_nat.induct)
  case (1 n)
  show ?case
    using 1 jdigit_of_nat [of n] jdigit_of_nat [of "n mod 10"]
    by (cases "n < 10") (simp_all add: dec_nat.simps [of n])
qed

lemma fold_dec_nat: "fold dec_digit (dec_nat n) 0 = n"
proof (induction n rule: dec_nat.induct)
  case (1 n)
  show ?case
    using 1 jdigit_of_nat [of n] jdigit_of_nat [of "n mod 10"]
    by (cases "n < 10") (simp_all add: dec_nat.simps [of n] dec_digit_def)
qed

lemma parse_dec_nat [simp, codec_simps]: "parse_nat (dec_nat n) = Some n"
  using dec_nat_digits [of n] by (simp add: parse_nat_def fold_dec_nat)

section \<open>Printed values\<close>

definition jends :: "jscan \<Rightarrow> jparse list \<Rightarrow> bool" where
  "jends s stk \<longleftrightarrow> (\<forall>c \<in> {0x2C, 0x3A, 0x7D, 0x5D, 0x20}. jstep s c = end_value stk c)"

definition jscans :: "nat \<Rightarrow> bytes \<Rightarrow> bool" where
  "jscans d v \<longleftrightarrow>
     (\<forall>stk. length stk + d \<le> maxNestingDepth \<longrightarrow> jends (foldl jstep (BeginValue, stk) v) stk)"

definition jpasses :: "bytes \<Rightarrow> bool" where
  "jpasses v \<longleftrightarrow>
     (\<forall>sep n cur rest. sep = 0x2C \<or> sep = 0x3A \<longrightarrow>
        jsplit sep n False False cur (v @ rest) = jsplit sep n False False (cur @ v) rest)"

definition jedges :: "bytes \<Rightarrow> bool" where
  "jedges v \<longleftrightarrow> v \<noteq> [] \<and> \<not> jspace (hd v) \<and> \<not> jspace (last v) \<and> hd v \<noteq> 0x5D"

definition jvalue :: "nat \<Rightarrow> bytes \<Rightarrow> bool" where
  "jvalue d v \<longleftrightarrow> jscans d v \<and> jpasses v \<and> jedges v"

lemma jpassesD:
  "jpasses v \<Longrightarrow> jsplit 0x2C n False False cur (v @ rest) = jsplit 0x2C n False False (cur @ v) rest"
  "jpasses v \<Longrightarrow> jsplit 0x3A n False False cur (v @ rest) = jsplit 0x3A n False False (cur @ v) rest"
  by (simp_all add: jpasses_def)

lemma jvalueI [intro?]: "jscans d v \<Longrightarrow> jpasses v \<Longrightarrow> jedges v \<Longrightarrow> jvalue d v"
  by (simp add: jvalue_def)

lemma jvalue_mono: "jvalue d v \<Longrightarrow> d \<le> d' \<Longrightarrow> jvalue d' v"
  by (auto simp: jvalue_def jscans_def)

lemma jendsD:
  "jends s stk \<Longrightarrow> jstep s 0x2C = end_value stk 0x2C"
  "jends s stk \<Longrightarrow> jstep s 0x7D = end_value stk 0x7D"
  "jends s stk \<Longrightarrow> jstep s 0x5D = end_value stk 0x5D"
  "jends s stk \<Longrightarrow> jstep s 0x20 = end_value stk 0x20"
  by (auto simp: jends_def)

lemma jends_EndValue [simp]: "jends (EndValue, stk) stk"
  by (simp add: jends_def)

lemma jends_jpop [simp]: "jends (jpop stk) stk"
  by (auto simp: jends_def jpop_def)

lemma jsplit_plain:
  "c \<notin> {0x22, 0x2C, 0x3A, 0x7B, 0x7D, 0x5B, 0x5D} \<Longrightarrow> sep = 0x2C \<or> sep = 0x3A \<Longrightarrow>
   jsplit sep n False False cur (c # rest) = jsplit sep n False False (cur @ [c]) rest"
  by auto

lemma jpasses_plain:
  assumes "\<forall>c \<in> set v. c \<notin> {0x22, 0x2C, 0x3A, 0x7B, 0x7D, 0x5B, 0x5D}"
  shows "jpasses v"
proof -
  have "jsplit sep n False False cur (v @ rest) = jsplit sep n False False (cur @ v) rest"
    if "sep = 0x2C \<or> sep = 0x3A" for sep n cur rest
    using assms
  proof (induction v arbitrary: cur)
    case (Cons c v)
    then show ?case using that jsplit_plain [of c sep] by (simp del: jsplit.simps)
  qed simp
  then show ?thesis by (simp add: jpasses_def)
qed

subsection \<open>Numbers and booleans\<close>

lemma jdigit_not_special:
  "jdigit c \<Longrightarrow> c \<notin> {0x22, 0x2C, 0x3A, 0x7B, 0x7D, 0x5B, 0x5D} \<and> \<not> jspace c"
  by (auto simp: jdigit_def jspace_def word_le_nat_alt)

lemma scan_dec_nat:
  "foldl jstep (BeginValue, stk) (dec_nat n) = (if n = 0 then (Num0, stk) else (Num1, stk))"
proof (induction n rule: dec_nat.induct)
  case (1 n)
  show ?case
  proof (cases "n < 10")
    case True
    then have "n \<in> {0, 1, 2, 3, 4, 5, 6, 7, 8, 9}" by auto
    then show ?thesis
      by (elim insertE emptyE) (simp_all add: dec_nat.simps begin_value_def jspace_def)
  next
    case False
    then have "n div 10 \<noteq> 0" by (simp add: div_eq_0_iff)
    with False 1 jdigit_of_nat [of "n mod 10"] show ?thesis
      by (simp add: dec_nat.simps [of n])
  qed
qed

lemma jvalue_dec_nat: "jvalue d (dec_nat n)"
proof
  show "jscans d (dec_nat n)"
    by (auto simp: jscans_def scan_dec_nat jends_def num0_def jdigit_def)
  have digits: "\<forall>c \<in> set (dec_nat n). jdigit c" "dec_nat n \<noteq> []"
    using dec_nat_digits [of n] by (auto simp: list_all_iff)
  then show "jpasses (dec_nat n)"
    using jdigit_not_special by (intro jpasses_plain) blast
  from digits have "jdigit (hd (dec_nat n))" "jdigit (last (dec_nat n))" by auto
  then show "jedges (dec_nat n)"
    using digits jdigit_not_special by (auto simp: jedges_def)
qed

lemma jvalue_jbool: "jvalue d (jbool b)"
proof
  show "jscans d (jbool b)" by (simp add: jscans_def jbool_def begin_value_def jspace_def)
  show "jpasses (jbool b)" by (rule jpasses_plain) (simp add: jbool_def)
  show "jedges (jbool b)" by (simp add: jedges_def jbool_def jspace_def)
qed

subsection \<open>Strings\<close>

lemma hex_digit_table:
  "list_all (\<lambda>n. hex_val (hex_digit n) \<noteq> None \<and> hex_digit n \<noteq> 0x22 \<and> hex_digit n \<noteq> 0x5C) [0..<16]"
  by code_simp

lemma hex_digit_facts: "n < 16 \<Longrightarrow> hex_val (hex_digit n) \<noteq> None \<and> hex_digit n \<noteq> 0x22 \<and> hex_digit n \<noteq> 0x5C"
  using hex_digit_table unfolding list_all_iff by simp

lemma esc_ascii_hex_bounds: "unat (a :: byte) div 16 < 16" "unat (a :: byte) mod 16 < 16"
  using unat_byte_less [of a] by (simp_all add: less_mult_imp_div_less)

lemma hex_val_zero: "hex_val 0x30 = Some 0" "hex_val 0x66 = Some 15" "hex_val 0x64 = Some 13"
  "hex_val 0x32 = Some 2" "hex_val 0x38 = Some 8" "hex_val 0x39 = Some 9"
  by (simp_all add: hex_val_def)

lemma scan_escapes:
  "c \<in> {0x62, 0x66, 0x6E, 0x72, 0x74, 0x5C, 0x22} \<Longrightarrow> foldl jstep (InString, stk) [0x5C, c] = (InString, stk)"
  "hex_val h \<noteq> None \<Longrightarrow> hex_val l \<noteq> None \<Longrightarrow>
   foldl jstep (InString, stk) [0x5C, 0x75, 0x30, 0x30, h, l] = (InString, stk)"
  "c \<noteq> 0x22 \<Longrightarrow> c \<noteq> 0x5C \<Longrightarrow> \<not> c < 0x20 \<Longrightarrow> foldl jstep (InString, stk) [c] = (InString, stk)"
  by (auto simp: hex_val_zero)

lemma scan_esc_ascii: "foldl jstep (InString, stk) (esc_ascii a) = (InString, stk)"
proof -
  have hex: "foldl jstep (InString, stk)
      [0x5C, 0x75, 0x30, 0x30, hex_digit (unat a div 16), hex_digit (unat a mod 16)] = (InString, stk)"
    using hex_digit_facts [OF esc_ascii_hex_bounds(1), of a] hex_digit_facts [OF esc_ascii_hex_bounds(2), of a]
    by (intro scan_escapes(2)) simp_all
  show ?thesis
    unfolding esc_ascii_def
    by (simp only: hex split: if_split) (simp add: scan_escapes del: foldl_Cons jstep.simps)
qed

lemma scan_high: "\<forall>b \<in> set bs. 0x80 \<le> b \<Longrightarrow> foldl jstep (InString, stk) bs = (InString, stk)"
proof (induction bs)
  case (Cons b bs)
  then have "b \<noteq> 0x22" "b \<noteq> 0x5C" "\<not> b < 0x20"
    by (auto simp: word_le_nat_alt word_less_nat_alt)
  with Cons show ?case by simp
qed simp

text \<open>A quoted string is a sequence of escapes and of raw runs without ASCII bytes.\<close>

definition qchunk :: "bytes \<Rightarrow> bool" where
  "qchunk ch \<longleftrightarrow>
     (\<exists>a. ch = esc_ascii a) \<or> ch = esc_fffd \<or> (\<exists>c. ch = esc_line_sep c) \<or> (\<forall>b \<in> set ch. 0x80 \<le> b)"

lemma qchunk_line: "qchunk (esc_line_sep c)"
  by (auto simp: qchunk_def)

lemma qchunk_high: "\<forall>b \<in> set ch. 0x80 \<le> b \<Longrightarrow> qchunk ch"
  by (simp add: qchunk_def)

lemma quote_chunks: "\<exists>chs. quote_body s = concat chs \<and> list_all qchunk chs"
proof (induction s rule: quote_body.induct)
  case 1
  show ?case by (rule exI [of _ "[]"]) simp
next
  case (2 a bs)
  have chunk: "\<exists>ch r. quote_body (a # bs) = ch @ quote_body r \<and> qchunk ch
      \<and> (\<exists>chs. quote_body r = concat chs \<and> list_all qchunk chs)"
  proof (cases "a < 0x80")
    case True
    then have "quote_body (a # bs) = esc_ascii a @ quote_body bs" by (simp add: quote_body.simps)
    moreover have "qchunk (esc_ascii a)" by (auto simp: qchunk_def)
    ultimately show ?thesis using 2(1) [OF True] by blast
  next
    case False
    then have high: "0x80 \<le> a" by simp
    show ?thesis
    proof (cases "utf8_len (a # bs) = 0")
      case True
      then have "quote_body (a # bs) = esc_fffd @ quote_body bs"
        using False by (simp add: quote_body.simps)
      moreover have "qchunk esc_fffd" by (simp add: qchunk_def)
      ultimately show ?thesis using 2(2) [OF False True] by blast
    next
      case nz: False
      let ?r = "take (utf8_len (a # bs)) (a # bs)"
      let ?ch = "if ?r = [0xE2, 0x80, 0xA8] \<or> ?r = [0xE2, 0x80, 0xA9] then esc_line_sep (?r ! 2) else ?r"
      have "quote_body (a # bs) = ?ch @ quote_body (drop (utf8_len (a # bs)) (a # bs))"
        using False nz by (simp only: quote_body.simps Let_def if_False)
      moreover have "qchunk ?r" using nz by (intro qchunk_high utf8_len_high [OF refl _ high]) simp
      then have "qchunk ?ch"
        by (cases "?r = [0xE2, 0x80, 0xA8] \<or> ?r = [0xE2, 0x80, 0xA9]")
          (simp_all only: if_True if_False qchunk_line)
      ultimately show ?thesis using 2(3) [OF False nz] by blast
    qed
  qed
  then obtain ch r chs where "quote_body (a # bs) = ch @ quote_body r" "qchunk ch"
    "quote_body r = concat chs" "list_all qchunk chs" by blast
  then show ?case by (intro exI [of _ "ch # chs"]) simp
qed

lemma scan_qchunk: "qchunk ch \<Longrightarrow> foldl jstep (InString, stk) ch = (InString, stk)"
  unfolding qchunk_def
  by (elim disjE exE)
    (simp_all add: scan_esc_ascii scan_high esc_fffd_def esc_line_sep_def hex_val_zero)

lemma scan_quote_body: "foldl jstep (InString, stk) (quote_body s) = (InString, stk)"
proof -
  obtain chs where chs: "quote_body s = concat chs" "list_all qchunk chs"
    using quote_chunks by blast
  from chs(2) have "foldl jstep (InString, stk) (concat chs) = (InString, stk)"
    by (induction chs) (simp_all add: scan_qchunk)
  with chs(1) show ?thesis by simp
qed

lemma split_esc_ascii:
  "jsplit sep n True False cur (esc_ascii a @ rest) = jsplit sep n True False (cur @ esc_ascii a) rest"
  using hex_digit_facts [OF esc_ascii_hex_bounds(1), of a] hex_digit_facts [OF esc_ascii_hex_bounds(2), of a]
  by (auto simp: esc_ascii_def)

lemma split_high:
  "\<forall>b \<in> set bs. 0x80 \<le> b \<Longrightarrow>
   jsplit sep n True False cur (bs @ rest) = jsplit sep n True False (cur @ bs) rest"
proof (induction bs arbitrary: cur)
  case (Cons b bs)
  then have "b \<noteq> 0x22" "b \<noteq> 0x5C" by (auto simp: word_le_nat_alt)
  with Cons show ?case by simp
qed simp

lemma split_qchunk:
  "qchunk ch \<Longrightarrow> jsplit sep n True False cur (ch @ rest) = jsplit sep n True False (cur @ ch) rest"
  unfolding qchunk_def
  by (elim disjE exE) (simp_all add: split_esc_ascii split_high esc_fffd_def esc_line_sep_def)

lemma split_quote_body:
  "jsplit sep n True False cur (quote_body s @ rest) = jsplit sep n True False (cur @ quote_body s) rest"
proof -
  obtain chs where chs: "quote_body s = concat chs" "list_all qchunk chs"
    using quote_chunks by blast
  from chs(2) have
    "jsplit sep n True False cur (concat chs @ rest) = jsplit sep n True False (cur @ concat chs) rest"
    by (induction chs arbitrary: cur) (simp_all add: split_qchunk)
  with chs(1) show ?thesis by simp
qed

lemma jvalue_jstr: "jvalue d (jstr s)"
proof
  show "jscans d (jstr s)"
    by (simp add: jscans_def jstr_def begin_value_def jspace_def scan_quote_body)
  show "jpasses (jstr s)"
    by (auto simp: jpasses_def jstr_def split_quote_body)
  show "jedges (jstr s)" by (simp add: jedges_def jstr_def jspace_def)
qed

lemma jstring_jstr [simp, codec_simps]: "jstring (jstr s) = Some (sanitize s)"
  by (simp add: jstring_def jstr_def butlast_append unquote_quote)

subsection \<open>Arrays and objects\<close>

lemma jtrim_jedges [simp]: "jedges v \<Longrightarrow> jtrim v = v"
proof -
  assume e: "jedges v"
  then obtain x xs where v: "v = x # xs" "\<not> jspace x" by (cases v) (auto simp: jedges_def)
  then have "dropWhile jspace v = v" by simp
  moreover have "dropWhile jspace (rev v) = rev v"
    using e by (cases v rule: rev_cases) (auto simp: jedges_def)
  ultimately show ?thesis by (simp add: jtrim_def)
qed

lemma jjoin_Cons: "vs \<noteq> [] \<Longrightarrow> jjoin (v # vs) = v @ 0x2C # jjoin vs"
  by (cases vs) auto

lemma jjoin_prefix: "vs \<noteq> [] \<Longrightarrow> \<exists>r. jjoin vs = hd vs @ r"
  by (cases vs rule: jjoin.cases) auto

lemma scan_elems:
  assumes "vs \<noteq> []" "\<forall>v \<in> set vs. jscans d v" "length stk + Suc d \<le> maxNestingDepth"
  shows "foldl jstep (BeginValue, ArrayValue # stk) (jjoin vs @ [0x5D]) = jpop stk"
  using assms(1,2)
proof (induction vs)
  case (Cons v vs)
  have v: "jends (foldl jstep (BeginValue, ArrayValue # stk) v) (ArrayValue # stk)"
    using Cons.prems assms(3) by (simp add: jscans_def)
  show ?case
  proof (cases "vs = []")
    case True
    then show ?thesis using jendsD(3) [OF v] by (simp add: jspace_def)
  next
    case False
    then show ?thesis using jendsD(1) [OF v] Cons by (simp add: jjoin_Cons jspace_def)
  qed
qed simp

lemma hd_jjoin: "vs \<noteq> [] \<Longrightarrow> jedges (hd vs) \<Longrightarrow> jjoin vs \<noteq> [] \<and> hd (jjoin vs) = hd (hd vs)"
  by (cases vs rule: jjoin.cases) (auto simp: jedges_def)

lemma last_jjoin: "vs \<noteq> [] \<Longrightarrow> \<forall>v \<in> set vs. jedges v \<Longrightarrow> last (jjoin vs) = last (last vs)"
proof (induction vs rule: jjoin.induct)
  case (3 v w vs)
  moreover have "jjoin (w # vs) \<noteq> []"
    using 3 by (cases vs) (auto simp: jedges_def)
  ultimately show ?case by auto
qed auto

lemma jedges_jjoin: "vs \<noteq> [] \<Longrightarrow> \<forall>v \<in> set vs. jedges v \<Longrightarrow> jedges (jjoin vs)"
  using hd_jjoin [of vs] last_jjoin [of vs] by (auto simp: jedges_def)

lemma jscans_jarr:
  assumes "\<forall>v \<in> set vs. jvalue d v"
  shows "jscans (Suc d) (jarr vs)"
  unfolding jscans_def
proof (intro allI impI)
  fix stk :: "jparse list" assume len: "length stk + Suc d \<le> maxNestingDepth"
  show "jends (foldl jstep (BeginValue, stk) (jarr vs)) stk"
  proof (cases "vs = []")
    case True
    then show ?thesis using len by (simp add: jarr_def begin_value_def jspace_def jpush_def)
  next
    case False
    then have edges: "jedges (jjoin vs)" using assms by (intro jedges_jjoin) (auto simp: jvalue_def)
    then obtain c cs where j: "jjoin vs = c # cs" "\<not> jspace c" "c \<noteq> 0x5D"
      by (cases "jjoin vs") (auto simp: jedges_def)
    have "foldl jstep (BeginValueOrEmpty, ArrayValue # stk) (jjoin vs @ [0x5D])
        = foldl jstep (BeginValue, ArrayValue # stk) (jjoin vs @ [0x5D])"
      using j by simp
    also have "\<dots> = jpop stk"
      using False assms len by (intro scan_elems [where d = d]) (auto simp: jvalue_def)
    finally show ?thesis using len
      by (simp add: jarr_def begin_value_def jspace_def jpush_def)
  qed
qed

lemma jpasses_jjoin:
  assumes "\<forall>v \<in> set vs. jpasses v" "sep = 0x2C \<or> sep = 0x3A"
  shows "jsplit sep (Suc n) False False cur (jjoin vs @ rest)
       = jsplit sep (Suc n) False False (cur @ jjoin vs) rest"
  using assms(1)
proof (induction vs arbitrary: cur rule: jjoin.induct)
  case (2 v)
  then show ?case using assms(2) by (auto simp: jpasses_def)
next
  case (3 v w vs)
  have v: "jsplit sep (Suc n) False False cur (v @ r) = jsplit sep (Suc n) False False (cur @ v) r" for r
    using 3 assms(2) by (auto simp: jpasses_def)
  show ?case using 3 v by simp
qed simp

lemma jpasses_jarr: "\<forall>v \<in> set vs. jpasses v \<Longrightarrow> jpasses (jarr vs)"
  unfolding jpasses_def [of "jarr vs"] by (auto simp: jarr_def jpasses_jjoin)

lemma jvalue_jarr: "\<forall>v \<in> set vs. jvalue d v \<Longrightarrow> jvalue (Suc d) (jarr vs)"
  by (rule jvalueI, erule jscans_jarr, rule jpasses_jarr)
    (auto simp: jvalue_def, simp add: jedges_def jspace_def jarr_def)

lemma jsplit_jjoin:
  assumes "vs \<noteq> []" "\<forall>v \<in> set vs. jpasses v"
  shows "jsplit 0x2C 0 False False [] (jjoin vs) = vs"
  using assms
proof (induction vs rule: jjoin.induct)
  case (2 v)
  then show ?case using jpassesD(1) [of v 0 "[]" "[]"] by simp
next
  case (3 v w vs)
  then show ?case using jpassesD(1) [of v 0 "[]" "0x2C # jjoin (w # vs)"] by simp
qed simp

lemma json_elems_jarr [codec_simps]:
  assumes "\<forall>v \<in> set vs. jvalue d v"
  shows "json_elems (jarr vs) = Some vs"
proof (cases "vs = []")
  case True
  then show ?thesis by (simp add: json_elems_def jarr_def jtrim_def)
next
  case False
  have edges: "\<forall>v \<in> set vs. jedges v" using assms by (auto simp: jvalue_def)
  have "jedges (jjoin vs)" using False edges by (rule jedges_jjoin)
  then have "jtrim (jjoin vs) \<noteq> []" by (simp) (simp add: jedges_def)
  moreover have "jsplit 0x2C 0 False False [] (jjoin vs) = vs"
    using False assms by (intro jsplit_jjoin) (auto simp: jvalue_def)
  moreover have "map jtrim vs = vs"
    using edges by (simp add: map_idI)
  ultimately show ?thesis by (simp add: json_elems_def jarr_def butlast_append)
qed

definition jmember :: "bytes \<times> bytes \<Rightarrow> bytes" where
  "jmember kv = jstr (fst kv) @ 0x3A # snd kv"

lemma jobj_members: "jobj ms = 0x7B # jjoin (map jmember ms) @ [0x7D]"
  by (simp add: jobj_def jmember_def [abs_def] case_prod_beta')

lemma jedges_jmember: "jedges (snd kv) \<Longrightarrow> jedges (jmember kv)"
  by (auto simp: jedges_def jmember_def jstr_def jspace_def)

lemma scan_members:
  assumes "ms \<noteq> []" "\<forall>kv \<in> set ms. jscans d (snd kv)" "length stk + Suc d \<le> maxNestingDepth"
  shows "foldl jstep (BeginString, ObjectKey # stk) (jjoin (map jmember ms) @ [0x7D]) = jpop stk"
  using assms(1,2)
proof (induction ms)
  case (Cons kv ms)
  have v: "jends (foldl jstep (BeginValue, ObjectValue # stk) (snd kv)) (ObjectValue # stk)"
    using Cons.prems assms(3) by (simp add: jscans_def)
  have m: "foldl jstep (BeginString, ObjectKey # stk) (jmember kv)
      = foldl jstep (BeginValue, ObjectValue # stk) (snd kv)"
    by (simp add: jmember_def jstr_def begin_string_def jspace_def scan_quote_body)
  show ?case
  proof (cases "ms = []")
    case True
    then show ?thesis using jendsD(2) [OF v] m by (simp add: jspace_def)
  next
    case False
    then show ?thesis using jendsD(1) [OF v] Cons m by (simp add: jjoin_Cons jspace_def)
  qed
qed simp

lemma jscans_jobj:
  assumes "\<forall>kv \<in> set ms. jvalue d (snd kv)"
  shows "jscans (Suc d) (jobj ms)"
  unfolding jscans_def
proof (intro allI impI)
  fix stk :: "jparse list" assume len: "length stk + Suc d \<le> maxNestingDepth"
  show "jends (foldl jstep (BeginValue, stk) (jobj ms)) stk"
  proof (cases "ms = []")
    case True
    then show ?thesis using len by (simp add: jobj_def begin_value_def jspace_def jpush_def)
  next
    case False
    then obtain r where "jjoin (map jmember ms) = jmember (hd ms) @ r"
      using jjoin_prefix [of "map jmember ms"] by (auto simp: hd_map)
    then obtain cs where j: "jjoin (map jmember ms) = 0x22 # cs"
      by (simp add: jmember_def jstr_def)
    have "foldl jstep (BeginStringOrEmpty, ObjectKey # stk) (jjoin (map jmember ms) @ [0x7D])
        = foldl jstep (BeginString, ObjectKey # stk) (jjoin (map jmember ms) @ [0x7D])"
      using j by (simp add: jspace_def)
    also have "\<dots> = jpop stk"
      using False assms len by (intro scan_members [where d = d]) (auto simp: jvalue_def)
    finally show ?thesis using len
      by (simp add: jobj_members begin_value_def jspace_def jpush_def)
  qed
qed

lemma jpasses_jmember_nested:
  assumes "jpasses (snd kv)" "sep = 0x2C \<or> sep = 0x3A"
  shows "jsplit sep (Suc n) False False cur (jmember kv @ rest)
       = jsplit sep (Suc n) False False (cur @ jmember kv) rest"
proof -
  have k: "jsplit sep (Suc n) False False cur (jstr (fst kv) @ r)
      = jsplit sep (Suc n) False False (cur @ jstr (fst kv)) r" for cur r
    using jvalue_jstr [of 0 "fst kv"] assms(2) by (auto simp: jvalue_def jpassesD)
  have v: "jsplit sep (Suc n) False False cur (snd kv @ r)
      = jsplit sep (Suc n) False False (cur @ snd kv) r" for cur r
    using assms by (auto simp: jpassesD)
  show ?thesis by (simp add: jmember_def k v)
qed

lemma jpasses_jjoin_members:
  assumes "\<forall>kv \<in> set ms. jpasses (snd kv)" "sep = 0x2C \<or> sep = 0x3A"
  shows "jsplit sep (Suc n) False False cur (jjoin (map jmember ms) @ rest)
       = jsplit sep (Suc n) False False (cur @ jjoin (map jmember ms)) rest"
  using assms(1)
proof (induction ms arbitrary: cur)
  case (Cons kv ms)
  have m: "jsplit sep (Suc n) False False cur (jmember kv @ r)
      = jsplit sep (Suc n) False False (cur @ jmember kv) r" for cur r
    using Cons.prems assms(2) by (intro jpasses_jmember_nested) auto
  show ?case
  proof (cases "ms = []")
    case True
    then show ?thesis using m by simp
  next
    case False
    then show ?thesis using Cons m by (simp add: jjoin_Cons)
  qed
qed simp

lemma jpasses_jobj: "\<forall>kv \<in> set ms. jpasses (snd kv) \<Longrightarrow> jpasses (jobj ms)"
  unfolding jpasses_def [of "jobj ms"] by (auto simp: jobj_members jpasses_jjoin_members)

lemma jvalue_jobj: "\<forall>kv \<in> set ms. jvalue d (snd kv) \<Longrightarrow> jvalue (Suc d) (jobj ms)"
  by (rule jvalueI, erule jscans_jobj, rule jpasses_jobj)
    (auto simp: jvalue_def, simp add: jedges_def jspace_def jobj_def)

text \<open>At depth 0 a member is one piece for the comma and two for the colon.\<close>

lemma jpasses_jmember_comma:
  assumes "jpasses (snd kv)"
  shows "jsplit 0x2C 0 False False cur (jmember kv @ rest)
       = jsplit 0x2C 0 False False (cur @ jmember kv) rest"
proof -
  have k: "jsplit 0x2C 0 False False cur (jstr (fst kv) @ r)
      = jsplit 0x2C 0 False False (cur @ jstr (fst kv)) r" for cur r
    using jvalue_jstr [of 0 "fst kv"] by (auto simp: jvalue_def jpassesD)
  have v: "jsplit 0x2C 0 False False cur (snd kv @ r) = jsplit 0x2C 0 False False (cur @ snd kv) r" for cur r
    using assms by (rule jpassesD(1))
  show ?thesis by (simp add: jmember_def k v)
qed

lemma jsplit_members:
  assumes "ms \<noteq> []" "\<forall>kv \<in> set ms. jpasses (snd kv)"
  shows "jsplit 0x2C 0 False False [] (jjoin (map jmember ms)) = map jmember ms"
  using assms
proof (induction ms)
  case (Cons kv ms)
  have m: "jsplit 0x2C 0 False False cur (jmember kv @ r) = jsplit 0x2C 0 False False (cur @ jmember kv) r"
    for cur r using Cons.prems by (intro jpasses_jmember_comma) auto
  show ?case
  proof (cases "ms = []")
    case True
    then show ?thesis using m [of "[]" "[]"] by simp
  next
    case False
    then show ?thesis using Cons m by (simp add: jjoin_Cons)
  qed
qed simp

lemma json_member_jmember:
  assumes "jvalue d (snd kv)"
  shows "json_member (jmember kv) = Some (sanitize (fst kv), snd kv)"
proof -
  have k: "jsplit 0x3A 0 False False cur (jstr (fst kv) @ r)
      = jsplit 0x3A 0 False False (cur @ jstr (fst kv)) r" for cur r
    using jvalue_jstr [of 0 "fst kv"] by (auto simp: jvalue_def jpassesD)
  have "jsplit 0x3A 0 False False [] (snd kv @ []) = jsplit 0x3A 0 False False ([] @ snd kv) []"
    using assms by (intro jpassesD) (simp add: jvalue_def)
  then have "jsplit 0x3A 0 False False [] (jmember kv) = [jstr (fst kv), snd kv]"
    by (simp add: jmember_def k)
  moreover have "jedges (jstr (fst kv))" "jedges (snd kv)"
    using jvalue_jstr [of 0 "fst kv"] assms by (auto simp: jvalue_def)
  ultimately show ?thesis by (simp add: json_member_def)
qed

lemma those_map_Some: "(\<And>x. x \<in> set xs \<Longrightarrow> f x = Some (g x)) \<Longrightarrow> those (map f xs) = Some (map g xs)"
  by (induction xs) auto

lemma json_members_jobj [codec_simps]:
  assumes "\<forall>kv \<in> set ms. jvalue d (snd kv)"
  shows "json_members (jobj ms) = Some (map (\<lambda>(k, v). (sanitize k, v)) ms)"
proof (cases "ms = []")
  case True
  then show ?thesis by (simp add: json_members_def jobj_def jtrim_def)
next
  case False
  have edges: "\<forall>v \<in> set (map jmember ms). jedges v"
    using assms by (auto simp: jvalue_def intro: jedges_jmember)
  then have "jedges (jjoin (map jmember ms))" using False by (intro jedges_jjoin) auto
  then have "jtrim (jjoin (map jmember ms)) \<noteq> []" by (simp) (simp add: jedges_def)
  moreover have "jsplit 0x2C 0 False False [] (jjoin (map jmember ms)) = map jmember ms"
    using False assms by (intro jsplit_members) (auto simp: jvalue_def)
  moreover have "those (map json_member (map jmember ms)) = Some (map (\<lambda>(k, v). (sanitize k, v)) ms)"
    unfolding map_map o_def
    by (rule those_map_Some) (use assms json_member_jmember in \<open>auto simp: case_prod_beta\<close>)
  ultimately show ?thesis by (simp add: json_members_def jobj_members butlast_append)
qed

lemma json_valid_jvalue: "jvalue d v \<Longrightarrow> d \<le> maxNestingDepth \<Longrightarrow> json_valid v"
proof -
  assume "jvalue d v" "d \<le> maxNestingDepth"
  then have "jends (foldl jstep (BeginValue, []) v) []" by (auto simp: jvalue_def jscans_def)
  from jendsD(4) [OF this] show ?thesis by (simp add: json_valid_def Let_def jspace_def)
qed

end
