(* ===== verification/Go_IO.thy ===== *)
theory Go_IO
  imports Octet_Base "HOL-Library.Sublist"
begin

text \<open>
  The operating system as the storage code sees it: the files of one database directory, and the
  calls of the packages \<open>os\<close> and \<open>io\<close> on them. Every call may fail; which calls fail, and how many
  bytes a failing write leaves behind, is read from an oracle, so that a statement about all worlds
  is a statement about all sequences of faults.

  \<^item> \<open>files\<close> is what the running process sees.
  \<^item> \<open>durable\<close> is what has been made persistent: \<open>Sync\<close> on a file persists its contents under its
    name, which supersedes an earlier removal of that name, and \<open>pend\<close> lists the renames and removals
    that a directory \<open>Sync\<close> has not yet persisted.
  \<^item> \<open>crash\<close> relates a world to the directories a power loss may leave: some of the pending
    directory operations have happened, and each file holds its persistent contents, the contents
    the process saw, or (when it was being appended to) any part of the appended bytes.
\<close>

section \<open>Files and outcomes\<close>

datatype fname =
    FORMAT | FORMAT_tmp
  | WAL_file | SNAPSHOT_file | SNAPSHOT_tmp
  | CATALOG_file | CATALOG_tmp
  | WAL_oct | SNAPSHOT_oct | SNAPSHOT_oct_tmp
  | Other_file string

datatype outcome = OpOk | OpFail nat

datatype dirop = PendRename fname fname | PendRemove fname

record world =
  files :: "(fname, bytes) fmap"
  durable :: "(fname, bytes) fmap"
  pend :: "dirop list"
  tick :: nat
  faults :: "nat \<Rightarrow> outcome"
  windows :: bool

definition next_outcome :: "world \<Rightarrow> outcome" where
  "next_outcome w = faults w (tick w)"

definition ticked :: "world \<Rightarrow> world" where
  "ticked w = w\<lparr>tick := Suc (tick w)\<rparr>"

text \<open>A call without an effect of its own: it fails or not, as the oracle says.\<close>

definition io_check :: "string \<Rightarrow> world \<Rightarrow> go_error option \<times> world" where
  "io_check what w = (if next_outcome w = OpOk then None else Some (PathError what), ticked w)"

definition os_MkdirAll :: "world \<Rightarrow> go_error option \<times> world" where
  "os_MkdirAll w = io_check ''mkdir'' w"

definition os_ReadFile :: "fname \<Rightarrow> world \<Rightarrow> bytes res \<times> world" where
  "os_ReadFile n w =
     (if next_outcome w \<noteq> OpOk then Inl (PathError ''read'')
      else case fmlookup (files w) n of None \<Rightarrow> Inl ErrNotExist | Some c \<Rightarrow> Inr c, ticked w)"

definition os_ReadDir :: "world \<Rightarrow> fname fset res \<times> world" where
  "os_ReadDir w =
     (if next_outcome w \<noteq> OpOk then Inl (PathError ''readdir'') else Inr (fmdom (files w)), ticked w)"

text \<open>\<open>O_CREATE|O_EXCL\<close>, \<open>O_CREATE|O_TRUNC\<close> and \<open>O_CREATE|O_RDWR\<close>.\<close>

definition os_OpenExcl :: "fname \<Rightarrow> world \<Rightarrow> go_error option \<times> world" where
  "os_OpenExcl n w =
     (if next_outcome w \<noteq> OpOk then (Some (PathError ''open''), ticked w)
      else if n |\<in>| fmdom (files w) then (Some (PathError ''file exists''), ticked w)
      else (None, (ticked w)\<lparr>files := fmupd n [] (files w)\<rparr>))"

definition os_OpenTrunc :: "fname \<Rightarrow> world \<Rightarrow> go_error option \<times> world" where
  "os_OpenTrunc n w =
     (if next_outcome w \<noteq> OpOk then (Some (PathError ''open''), ticked w)
      else (None, (ticked w)\<lparr>files := fmupd n [] (files w)\<rparr>))"

definition os_OpenRdwr :: "fname \<Rightarrow> world \<Rightarrow> go_error option \<times> world" where
  "os_OpenRdwr n w =
     (if next_outcome w \<noteq> OpOk then (Some (PathError ''open''), ticked w)
      else (None, if n |\<in>| fmdom (files w) then ticked w
                  else (ticked w)\<lparr>files := fmupd n [] (files w)\<rparr>))"

definition contents :: "fname \<Rightarrow> world \<Rightarrow> bytes" where
  "contents n w = (case fmlookup (files w) n of None \<Rightarrow> [] | Some c \<Rightarrow> c)"

definition write_at :: "bytes \<Rightarrow> nat \<Rightarrow> bytes \<Rightarrow> bytes" where
  "write_at c off d = take off c @ replicate (off - length c) 0 @ d @ drop (off + length d) c"

text \<open>\<open>Write\<close> returns the number of bytes written and an error.\<close>

definition file_Write :: "fname \<Rightarrow> nat \<Rightarrow> bytes \<Rightarrow> world \<Rightarrow> nat \<times> go_error option \<times> world" where
  "file_Write n off d w =
     (case next_outcome w of
        OpOk \<Rightarrow> (length d, None, (ticked w)\<lparr>files := fmupd n (write_at (contents n w) off d) (files w)\<rparr>)
      | OpFail k \<Rightarrow>
          (length (take k d), Some (PathError ''write''),
           (ticked w)\<lparr>files := fmupd n (write_at (contents n w) off (take k d)) (files w)\<rparr>))"

definition file_Sync :: "fname \<Rightarrow> world \<Rightarrow> go_error option \<times> world" where
  "file_Sync n w =
     (if next_outcome w = OpOk
      then (None, (ticked w)\<lparr>durable := fmupd n (contents n w) (durable w),
                              pend := filter (\<lambda>op. op \<noteq> PendRemove n) (pend w)\<rparr>)
      else (Some (PathError ''fsync''), ticked w))"

definition file_Close :: "world \<Rightarrow> go_error option \<times> world" where
  "file_Close w = io_check ''close'' w"

definition file_Seek :: "world \<Rightarrow> go_error option \<times> world" where
  "file_Seek w = io_check ''seek'' w"

definition file_Truncate :: "fname \<Rightarrow> nat \<Rightarrow> world \<Rightarrow> go_error option \<times> world" where
  "file_Truncate n len w =
     (if next_outcome w = OpOk
      then (None, (ticked w)\<lparr>files := fmupd n (take len (contents n w) @ replicate (len - length (contents n w)) 0) (files w)\<rparr>)
      else (Some (PathError ''truncate''), ticked w))"

definition apply_rename :: "fname \<Rightarrow> fname \<Rightarrow> (fname, bytes) fmap \<Rightarrow> (fname, bytes) fmap" where
  "apply_rename a b m =
     (case fmlookup m a of None \<Rightarrow> m | Some c \<Rightarrow> fmupd b c (fmdrop a m))"

definition os_Rename :: "fname \<Rightarrow> fname \<Rightarrow> world \<Rightarrow> go_error option \<times> world" where
  "os_Rename a b w =
     (if next_outcome w = OpOk
      then (None, (ticked w)\<lparr>files := apply_rename a b (files w), pend := pend w @ [PendRename a b]\<rparr>)
      else (Some (PathError ''rename''), ticked w))"

text \<open>The sources ignore the result of \<open>Remove\<close> except when they clean an abandoned marker.\<close>

definition os_Remove :: "fname \<Rightarrow> world \<Rightarrow> go_error option \<times> world" where
  "os_Remove n w =
     (if next_outcome w = OpOk
      then (if n |\<in>| fmdom (files w) then None else Some ErrNotExist,
            (ticked w)\<lparr>files := fmdrop n (files w), pend := pend w @ [PendRemove n]\<rparr>)
      else (Some (PathError ''remove''), ticked w))"

fun apply_pend :: "dirop list \<Rightarrow> (fname, bytes) fmap \<Rightarrow> (fname, bytes) fmap" where
  "apply_pend [] m = m"
| "apply_pend (PendRename a b # ops) m = apply_pend ops (apply_rename a b m)"
| "apply_pend (PendRemove a # ops) m = apply_pend ops (fmdrop a m)"

definition directory_Sync :: "world \<Rightarrow> go_error option \<times> world" where
  "directory_Sync w =
     (if next_outcome w = OpOk
      then (None, (ticked w)\<lparr>durable := apply_pend (pend w) (durable w), pend := []\<rparr>)
      else (Some (PathError ''fsync''), ticked w))"

section \<open>Sequencing of fallible calls\<close>

text \<open>\<open>if writeErr == nil { writeErr = call() }\<close>, and a \<open>Close\<close> that runs in any case.\<close>

definition and_then ::
  "go_error option \<times> world \<Rightarrow> (world \<Rightarrow> go_error option \<times> world) \<Rightarrow> go_error option \<times> world" where
  "and_then r call = (case r of (None, w) \<Rightarrow> call w | (Some e, w) \<Rightarrow> (Some e, w))"

definition close_after :: "go_error option \<times> world \<Rightarrow> go_error option \<times> world" where
  "close_after r =
     (case file_Close (snd r) of (ce, w) \<Rightarrow> (case fst r of None \<Rightarrow> ce | Some e \<Rightarrow> Some e, w))"

text \<open>A whole-buffer write with the short-write check the sources make.\<close>

definition write_all :: "fname \<Rightarrow> nat \<Rightarrow> bytes \<Rightarrow> world \<Rightarrow> go_error option \<times> world" where
  "write_all n off d w =
     (case file_Write n off d w of
        (written, None, w') \<Rightarrow>
          (if written \<noteq> length d then Some (OtherError ''short write'') else None, w')
      | (written, Some e, w') \<Rightarrow> (Some e, w'))"

lemma and_then_simps [simp]:
  "and_then (None, w) call = call w"
  "and_then (Some e, w) call = (Some e, w)"
  by (simp_all add: and_then_def)

section \<open>Power loss\<close>

definition survives :: "bytes \<Rightarrow> bytes \<Rightarrow> bytes \<Rightarrow> bool" where
  "survives d v c \<longleftrightarrow> c = d \<or> c = v \<or> prefix d c \<and> prefix c v"

fun touches :: "dirop \<Rightarrow> fname \<Rightarrow> bool" where
  "touches (PendRename a b) n \<longleftrightarrow> n = a \<or> n = b"
| "touches (PendRemove a) n \<longleftrightarrow> n = a"

definition crash :: "world \<Rightarrow> (fname, bytes) fmap \<Rightarrow> bool" where
  "crash w m \<longleftrightarrow>
     (\<exists>k \<le> length (pend w).
        let base = apply_pend (take k (pend w)) (durable w);
            undone = (\<lambda>n. list_ex (\<lambda>op. touches op n) (drop k (pend w)))
        in (\<forall>n. case fmlookup base n of
              Some d \<Rightarrow> (case fmlookup m n of
                  None \<Rightarrow> False
                | Some c \<Rightarrow> survives d (if undone n then d else contents n w) c)
            | None \<Rightarrow> (case fmlookup m n of
                  None \<Rightarrow> True
                | Some c \<Rightarrow> \<not> undone n \<and> n |\<in>| fmdom (files w) \<and> prefix c (contents n w))))"

lemma contents_simps [simp]:
  "contents n (w\<lparr>files := fmupd n c m\<rparr>) = c" "contents n (w\<lparr>durable := d\<rparr>) = contents n w"
  "contents n (w\<lparr>pend := p\<rparr>) = contents n w" "contents n (ticked w) = contents n w"
  by (simp_all add: contents_def ticked_def)

lemma write_at_end: "off = length c \<Longrightarrow> write_at c off d = c @ d"
  by (simp add: write_at_def)

lemma next_outcome_ticked_frame [simp]:
  "files (ticked w) = files w" "durable (ticked w) = durable w" "pend (ticked w) = pend w"
  "faults (ticked w) = faults w" "windows (ticked w) = windows w" "tick (ticked w) = Suc (tick w)"
  by (simp_all add: ticked_def)

end
