(* ===== verification/Framing.thy ===== *)
theory Framing
  imports Go_Binary "HOL-Library.Sublist"
begin

text \<open>
  The framing that both write-ahead logs use: a little-endian length, the payload, and the CRC-32 of
  the payload. \<open>read_frame\<close> is the body of the two recovery loops up to the checksum test
  (\<open>replayKeyedWAL\<close> of \<^verbatim>\<open>keyed_storage.go\<close> and \<open>scanWAL\<close> of \<^verbatim>\<open>internal/core/core.go\<close>); the loops
  differ in the least payload length they admit and in what they do with a payload.

  The locale \<open>log_replayer\<close> states what a recovery loop is: a function that reads a frame, hands the
  payload to a step, and goes on. Its client lemmas say that a log of whole frames followed by a
  torn one replays exactly the whole frames and stops where the torn frame begins.
\<close>

definition maxFrameBytes :: nat where
  "maxFrameBytes = 64 * 2 ^ 20"

definition frame :: "bytes \<Rightarrow> bytes" where
  "frame p = le32 (of_nat (length p)) @ p @ le32 (crc32 p)"

datatype frame_read =
    FrameEOF
  | FrameTorn
  | FrameBadLength
  | FrameBadChecksum
  | Frame bytes bytes

definition read_frame :: "nat \<Rightarrow> bytes \<Rightarrow> frame_read" where
  "read_frame least bs =
     (if bs = [] then FrameEOF
      else if length bs < 4 then FrameTorn
      else let len = unat (get32 bs); body = drop 4 bs in
        if len < least \<or> maxFrameBytes < len then FrameBadLength
        else if length body < len + 4 then FrameTorn
        else if get32 (drop len body) \<noteq> crc32 (take len body) then FrameBadChecksum
        else Frame (take len body) (drop (len + 4) body))"

lemma length_frame [simp]: "length (frame p) = length p + 8"
  by (simp add: frame_def)

lemma unat_of_nat_len: "n \<le> maxFrameBytes \<Longrightarrow> unat (of_nat n :: u32) = n"
  by (simp add: maxFrameBytes_def unat_of_nat)

lemma get32_frame: "length p \<le> maxFrameBytes \<Longrightarrow> unat (get32 (frame p @ rest)) = length p"
  by (simp add: frame_def unat_of_nat_len)

lemma read_frame_frame [simp]:
  assumes "least \<le> length p" "length p \<le> maxFrameBytes"
  shows "read_frame least (frame p @ rest) = Frame p rest"
proof -
  have "unat (get32 (frame p @ rest)) = length p" using assms by (simp add: get32_frame)
  moreover have "drop 4 (frame p @ rest) = p @ le32 (crc32 p) @ rest" by (simp add: frame_def)
  moreover have "length (frame p @ rest) \<ge> 8" by simp
  then have "frame p @ rest \<noteq> []" "\<not> length (frame p @ rest) < 4" by (metis list.size(3) not_numeral_le_zero, simp)
  ultimately show ?thesis using assms
    by (simp only: read_frame_def Let_def) simp
qed

lemma read_frame_Nil [simp]: "read_frame least [] = FrameEOF"
  by (simp add: read_frame_def)

text \<open>A proper, non-empty prefix of a frame is recognised as torn.\<close>

lemma read_frame_torn:
  assumes "least \<le> length p" "length p \<le> maxFrameBytes" "strict_prefix t (frame p)" "t \<noteq> []"
  shows "read_frame least t = FrameTorn"
proof (cases "length t < 4")
  case True
  then show ?thesis using assms(4) by (simp add: read_frame_def)
next
  case False
  from assms(3) obtain r where r: "frame p = t @ r" "r \<noteq> []"
    by (auto simp: strict_prefix_def prefix_def)
  have "take 4 (frame p) = take 4 t" using r(1) False by simp
  then have "get32 t = get32 (frame p)" by (simp add: get32_def)
  then have len: "unat (get32 t) = length p" using get32_frame [OF assms(2), of "[]"] by simp
  have "length (t @ r) = length p + 8" using r(1) length_frame by metis
  then have "length (drop 4 t) < length p + 4" using False r(2) by (cases r) auto
  then show ?thesis using False assms len by (auto simp: read_frame_def Let_def)
qed

lemma read_frame_shorter: "read_frame least bs = Frame p rest \<Longrightarrow> length rest < length bs"
  by (auto simp: read_frame_def Let_def split: if_splits)

lemma read_frame_length:
  "read_frame least bs = Frame p rest \<Longrightarrow> length bs = length p + 8 + length rest"
  by (auto simp: read_frame_def Let_def split: if_splits)

text \<open>What was read is what was framed.\<close>

lemma read_frame_inv:
  assumes "read_frame least bs = Frame p rest"
  shows "bs = frame p @ rest"
proof -
  let ?len = "unat (get32 bs)"
  from assms have c: "4 \<le> length bs" "?len + 4 \<le> length (drop 4 bs)" "?len \<le> maxFrameBytes"
    "get32 (drop ?len (drop 4 bs)) = crc32 p" "p = take ?len (drop 4 bs)"
    "rest = drop (?len + 4) (drop 4 bs)"
    by (auto simp: read_frame_def Let_def split: if_splits)
  have inv32: "le32 (get32 xs) = take 4 xs" if "4 \<le> length xs" for xs
    using le_enc_le_dec [of "take 4 xs", where 'a = 32] that by (simp add: le32_def get32_def)
  have plen: "length p = ?len" using c by simp
  have "le32 (of_nat (length p)) = take 4 bs" using inv32 [OF c(1)] plen by simp
  moreover have "le32 (crc32 p) = take 4 (drop ?len (drop 4 bs))"
    using inv32 [of "drop ?len (drop 4 bs)"] c by simp
  moreover have "drop (?len + 4) (drop 4 bs) = drop 4 (drop ?len (drop 4 bs))"
    by (simp add: add.commute add.left_commute)
  ultimately have "frame p @ rest
      = take 4 bs @ take ?len (drop 4 bs) @ take 4 (drop ?len (drop 4 bs)) @ drop 4 (drop ?len (drop 4 bs))"
    using c(5,6) by (simp add: frame_def)
  also have "\<dots> = bs" by (simp only: append_take_drop_id)
  finally show ?thesis ..
qed

section \<open>Recovery loops\<close>

text \<open>Running the step over a list of payloads, stopping at the first error.\<close>

fun fold_res :: "('s \<Rightarrow> 'x \<Rightarrow> 'e + 's) \<Rightarrow> 's \<Rightarrow> 'x list \<Rightarrow> 'e + 's" where
  "fold_res f s [] = Inr s"
| "fold_res f s (x # xs) = (case f s x of Inl e \<Rightarrow> Inl e | Inr s' \<Rightarrow> fold_res f s' xs)"

lemma fold_res_append:
  "fold_res f s (xs @ ys) = (case fold_res f s xs of Inl e \<Rightarrow> Inl e | Inr s' \<Rightarrow> fold_res f s' ys)"
  by (induction xs arbitrary: s) (auto split: sum.splits)

locale log_replayer =
  fixes least :: nat
    and step :: "'s \<Rightarrow> bytes \<Rightarrow> go_error + 's"
    and badLength badChecksum :: "nat \<Rightarrow> go_error"
    and replay :: "'s \<Rightarrow> nat \<Rightarrow> bytes \<Rightarrow> go_error + 's \<times> nat"
  assumes replay_unfold:
    "replay s off bs =
       (case read_frame least bs of
          FrameEOF \<Rightarrow> Inr (s, off)
        | FrameTorn \<Rightarrow> Inr (s, off)
        | FrameBadLength \<Rightarrow> Inl (badLength off)
        | FrameBadChecksum \<Rightarrow> Inl (badChecksum off)
        | Frame p rest \<Rightarrow>
            (case step s p of Inl e \<Rightarrow> Inl e | Inr s' \<Rightarrow> replay s' (off + length p + 8) rest))"
begin

definition admissible :: "bytes \<Rightarrow> bool" where
  "admissible p \<longleftrightarrow> least \<le> length p \<and> length p \<le> maxFrameBytes"

lemma replay_frames:
  assumes "list_all admissible ps"
  shows "replay s off (concat (map frame ps) @ tail) =
    (case fold_res step s ps of
       Inl e \<Rightarrow> Inl e
     | Inr s' \<Rightarrow> replay s' (off + length (concat (map frame ps))) tail)"
  using assms
proof (induction ps arbitrary: s off)
  case (Cons p ps)
  then have p: "least \<le> length p" "length p \<le> maxFrameBytes" by (auto simp: admissible_def)
  have "replay s off (frame p @ concat (map frame ps) @ tail)
      = (case step s p of Inl e \<Rightarrow> Inl e
         | Inr s' \<Rightarrow> replay s' (off + length p + 8) (concat (map frame ps) @ tail))"
    using p by (subst replay_unfold) simp
  then show ?case using Cons by (auto split: sum.splits simp: add.assoc)
qed simp

lemma replay_end: "replay s off [] = Inr (s, off)"
  by (subst replay_unfold) simp

lemma replay_torn:
  assumes "admissible p" "strict_prefix t (frame p)"
  shows "replay s off t = Inr (s, off)"
proof (cases "t = []")
  case True
  then show ?thesis by (simp add: replay_end)
next
  case False
  then have "read_frame least t = FrameTorn"
    using assms by (intro read_frame_torn) (auto simp: admissible_def)
  then show ?thesis by (subst replay_unfold) simp
qed

text \<open>The recovery theorem: whole frames are replayed, a torn tail is cut off.\<close>

theorem replay_log:
  assumes "list_all admissible ps" "admissible p" "strict_prefix t (frame p)"
    and "fold_res step s ps = Inr s'"
  shows "replay s off (concat (map frame ps) @ t) = Inr (s', off + length (concat (map frame ps)))"
  using assms by (simp add: replay_frames replay_torn)

text \<open>Nothing behind the reported end is whole: the accepted part is a sequence of frames.\<close>

lemma replay_prefix:
  assumes "replay s off bs = Inr (s', off')"
  shows "\<exists>ps tail. bs = concat (map frame ps) @ tail \<and> fold_res step s ps = Inr s'
    \<and> off' = off + length (concat (map frame ps))
    \<and> (tail = [] \<or> read_frame least tail = FrameTorn)"
  using assms
proof (induction "length bs" arbitrary: bs s off rule: less_induct)
  case less
  show ?case
  proof (cases "read_frame least bs")
    case FrameEOF
    then have "bs = []" by (auto simp: read_frame_def Let_def split: if_splits)
    then show ?thesis using less.prems FrameEOF
      by (intro exI [of _ "[]"]) (simp add: replay_end)
  next
    case FrameTorn
    then show ?thesis using less.prems
      by (intro exI [of _ "[]"] exI [of _ bs]) (subst (asm) replay_unfold, simp)
  next
    case (Frame p rest)
    from less.prems Frame obtain s1 where s1: "step s p = Inr s1"
      "replay s1 (off + length p + 8) rest = Inr (s', off')"
      by (subst (asm) replay_unfold) (auto split: sum.splits)
    from less.hyps [OF read_frame_shorter [OF Frame] s1(2)] obtain ps tail where
      "rest = concat (map frame ps) @ tail" "fold_res step s1 ps = Inr s'"
      "off' = off + length p + 8 + length (concat (map frame ps))"
      "tail = [] \<or> read_frame least tail = FrameTorn" by blast
    then show ?thesis using s1 read_frame_inv [OF Frame]
      by (intro exI [of _ "p # ps"] exI [of _ tail]) simp
  qed (use less.prems in \<open>(subst (asm) replay_unfold, simp)+\<close>)
qed

end

end
