(* ===== verification/Keyed_Store.thy ===== *)
theory Keyed_Store
  imports Go_Json_Laws Go_IO Framing
begin

text \<open>
  The storage half of the keyed database, \<^verbatim>\<open>keyed_storage.go\<close>, with the state and the options of
  \<^verbatim>\<open>keyed.go\<close> it works on: the write-ahead-log record and its JSON encoding, the snapshot and its
  envelope, application of a record to the state, the validation that recovery performs, the
  recovery loop, snapshot installation and loading, and opening a directory.

  The catalog database extends \<open>KeyedDB\<close> with further fields, so every operation is polymorphic in
  the record extension; the \<open>afterApply\<close> callback of the Go struct and its test hooks are the record
  \<open>keyedHooks\<close>.
\<close>

section \<open>Options\<close>

record KeyedOptions =
  MaxRecords :: int
  DedupeHorizon :: int
  MaxValueBytes :: int
  MaxTransactionBytes :: int

definition normalizeKeyedOptions :: "KeyedOptions \<Rightarrow> KeyedOptions res" where
  "normalizeKeyedOptions options =
     (if MaxRecords options < 0 \<or> DedupeHorizon options < 0 \<or> MaxValueBytes options < 0
         \<or> MaxTransactionBytes options < 0
      then Inl (Error ErrorInvalidInput ''open_keyed'' ''bounds cannot be negative'')
      else
        let o1 = (if MaxRecords options = 0 then options\<lparr>MaxRecords := 100000\<rparr> else options);
            o2 = (if DedupeHorizon o1 = 0 then o1\<lparr>DedupeHorizon := 100000\<rparr> else o1);
            o3 = (if MaxValueBytes o2 = 0 then o2\<lparr>MaxValueBytes := 2 ^ 20\<rparr> else o2);
            o4 = (if MaxTransactionBytes o3 = 0 then o3\<lparr>MaxTransactionBytes := 4 * 2 ^ 20\<rparr> else o3)
        in if MaxTransactionBytes o4 < MaxValueBytes o4
           then Inl (Error ErrorInvalidInput ''open_keyed'' ''MaxTransactionBytes must be at least MaxValueBytes'')
           else Inr o4)"

section \<open>Constants and records\<close>

definition keyedFormatContents :: bytes where
  "keyedFormatContents =
     str ''OCTETDB'' @ [0x0A] @ str ''format=1'' @ [0x0A] @ str ''model=keyed-json-v1'' @ [0x0A]
     @ str ''engine=safe-go'' @ [0x0A]"

definition catalogKeyedFormatContents :: bytes where
  "catalogKeyedFormatContents =
     str ''OCTETDB'' @ [0x0A] @ str ''format=1'' @ [0x0A] @ str ''model=catalog-keyed-json-v1'' @ [0x0A]
     @ str ''engine=safe-go'' @ [0x0A]"

definition keyedSnapshotMagic :: bytes where
  "keyedSnapshotMagic = str ''OCTKEY01''"

definition keyedMaxIdentityBytes :: nat where
  "keyedMaxIdentityBytes = 4 * 2 ^ 10"

definition keyedMaxKeyBytes :: nat where
  "keyedMaxKeyBytes = 4 * 2 ^ 10"

definition keyedMaxCodeBytes :: nat where
  "keyedMaxCodeBytes = 2 ^ 10"

record keyedMutation =
  mKey :: bytes
  mValue :: bytes
  mDelete :: bool

record keyedWALRecord =
  rSequence :: u64
  rCommandID :: bytes
  rApplied :: bool
  rCode :: bytes
  rResult :: bytes
  rMutations :: "keyedMutation list"

definition zeroRecord :: keyedWALRecord where
  "zeroRecord = \<lparr>rSequence = 0, rCommandID = [], rApplied = False, rCode = [], rResult = [], rMutations = []\<rparr>"

definition zeroMutation :: keyedMutation where
  "zeroMutation = \<lparr>mKey = [], mValue = [], mDelete = False\<rparr>"

record keyedSnapshot =
  sSequence :: u64
  sRecords :: "(bytes, bytes) fmap"
  sDedupe :: "keyedWALRecord list"

record keyedSnapshotEnvelope =
  eMagic :: bytes
  eVersion :: int
  ePayload :: bytes
  eSHA256 :: bytes

record keyedCommitStats =
  syncCalls :: u64
  framesSynced :: u64
  groups :: u64
  maxGroup :: u64
  groupSizes :: "u64 list"

record KeyedDB =
  options :: KeyedOptions
  records :: "(bytes, bytes) fmap"
  dedupe :: "(bytes, keyedWALRecord) fmap"
  dedupeIDs :: "bytes list"
  sequence :: u64
  walOpen :: bool
  walOffset :: nat
  closed :: bool
  poisoned :: bool
  format :: bytes
  commitStats :: keyedCommitStats

record 's keyedHooks =
  afterApply :: "keyedWALRecord \<Rightarrow> 's \<Rightarrow> 's"
  beforeAppend :: "keyedWALRecord \<Rightarrow> go_error option"
  beforeSync :: "go_error option"

definition noHooks :: "'s keyedHooks" where
  "noHooks = \<lparr>afterApply = (\<lambda>_ db. db), beforeAppend = (\<lambda>_. None), beforeSync = None\<rparr>"

section \<open>Applying a record\<close>

fun applyMutations :: "keyedMutation list \<Rightarrow> (bytes, bytes) fmap \<Rightarrow> (bytes, bytes) fmap" where
  "applyMutations [] m = m"
| "applyMutations (x # xs) m =
     applyMutations xs (if mDelete x then fmdrop (mKey x) m else fmupd (mKey x) (mValue x) m)"

definition applyKeyed ::
  "(keyedWALRecord \<Rightarrow> 'a KeyedDB_scheme \<Rightarrow> 'a KeyedDB_scheme) \<Rightarrow> keyedWALRecord
    \<Rightarrow> 'a KeyedDB_scheme \<Rightarrow> 'a KeyedDB_scheme" where
  "applyKeyed after r db =
     (let db1 = (if rApplied r then db\<lparr>records := applyMutations (rMutations r) (records db)\<rparr> else db);
          db2 = db1\<lparr>sequence := rSequence r,
                     dedupe := fmupd (rCommandID r) (r\<lparr>rMutations := []\<rparr>) (dedupe db1),
                     dedupeIDs := dedupeIDs db1 @ [rCommandID r]\<rparr>;
          db3 = (if int (length (dedupeIDs db2)) > DedupeHorizon (options db2)
                 then db2\<lparr>dedupeIDs := tl (dedupeIDs db2),
                          dedupe := fmdrop (hd (dedupeIDs db2)) (dedupe db2)\<rparr>
                 else db2)
      in after r db3)"

section \<open>JSON encoding of the log record\<close>

text \<open>Field names of the structs, and the case folding with which a member name is matched.\<close>

definition foldByte :: "byte \<Rightarrow> byte" where
  "foldByte b = (if 0x61 \<le> b \<and> b \<le> 0x7A then b - 0x20 else b)"

fun foldName :: "bytes \<Rightarrow> bytes" where
  "foldName (a # b # c # bs) =
     (if a = 0xC5 \<and> b = 0xBF then 0x53 # foldName (c # bs)
      else if a = 0xE2 \<and> b = 0x84 \<and> c = 0xAA then 0x4B # foldName bs
      else foldByte a # foldName (b # c # bs))"
| "foldName [a, b] = (if a = 0xC5 \<and> b = 0xBF then [0x53] else [foldByte a, foldByte b])"
| "foldName [a] = [foldByte a]"
| "foldName [] = []"

definition field_is :: "string \<Rightarrow> bytes \<Rightarrow> bool" where
  "field_is name key \<longleftrightarrow> key = str name \<or> foldName key = foldName (str name)"

definition jnull :: bytes where
  "jnull = [0x6E, 0x75, 0x6C, 0x6C]"

definition jbytes :: "bytes \<Rightarrow> bytes" where
  "jbytes v = 0x22 # b64_encode v @ [0x22]"

definition marshalMutation :: "keyedMutation \<Rightarrow> bytes" where
  "marshalMutation m = jobj
     ([(str ''key'', jstr (mKey m))]
      @ (if mValue m = [] then [] else [(str ''value'', jbytes (mValue m))])
      @ (if mDelete m then [(str ''delete'', jbool True)] else []))"

definition marshalRecord :: "keyedWALRecord \<Rightarrow> bytes" where
  "marshalRecord r = jobj
     ([(str ''sequence'', dec_nat (unat (rSequence r))),
       (str ''command_id'', jstr (rCommandID r)),
       (str ''applied'', jbool (rApplied r))]
      @ (if rCode r = [] then [] else [(str ''code'', jstr (rCode r))])
      @ (if rResult r = [] then [] else [(str ''result'', jbytes (rResult r))])
      @ (if rMutations r = [] then [] else [(str ''mutations'', jarr (map marshalMutation (rMutations r)))]))"

text \<open>Reading a value into a field: \<open>null\<close> leaves the field as it is (a slice becomes nil).\<close>

definition unmarshalU64 :: "bytes \<Rightarrow> u64 \<Rightarrow> u64 option" where
  "unmarshalU64 raw old =
     (if raw = jnull then Some old
      else case parse_nat raw of
          Some n \<Rightarrow> if n < 2 ^ 64 then Some (of_nat n) else None
        | None \<Rightarrow> None)"

definition unmarshalInt :: "bytes \<Rightarrow> int \<Rightarrow> int option" where
  "unmarshalInt raw old =
     (if raw = jnull then Some old
      else if raw \<noteq> [] \<and> hd raw = 0x2D then
        (case parse_nat (tl raw) of
           Some n \<Rightarrow> if n \<le> 2 ^ 63 then Some (- int n) else None
         | None \<Rightarrow> None)
      else case parse_nat raw of
          Some n \<Rightarrow> if n < 2 ^ 63 then Some (int n) else None
        | None \<Rightarrow> None)"

definition unmarshalStr :: "bytes \<Rightarrow> bytes \<Rightarrow> bytes option" where
  "unmarshalStr raw old = (if raw = jnull then Some old else jstring raw)"

definition unmarshalBool :: "bytes \<Rightarrow> bool \<Rightarrow> bool option" where
  "unmarshalBool raw old =
     (if raw = jnull then Some old
      else if raw = jbool True then Some True
      else if raw = jbool False then Some False
      else None)"

definition unmarshalByte :: "bytes \<Rightarrow> byte option" where
  "unmarshalByte raw =
     (if raw = jnull then Some 0
      else case parse_nat raw of
          Some n \<Rightarrow> if n < 256 then Some (of_nat n) else None
        | None \<Rightarrow> None)"

definition unmarshalBytes :: "bytes \<Rightarrow> bytes option" where
  "unmarshalBytes raw =
     (if raw = jnull then Some []
      else if raw \<noteq> [] \<and> hd raw = 0x5B then
        (case json_elems raw of None \<Rightarrow> None | Some es \<Rightarrow> those (map unmarshalByte es))
      else case jstring raw of None \<Rightarrow> None | Some s \<Rightarrow> b64_decode s)"

fun setMembers :: "(bytes \<Rightarrow> bytes \<Rightarrow> 'a \<Rightarrow> 'a option) \<Rightarrow> (bytes \<times> bytes) list \<Rightarrow> 'a \<Rightarrow> 'a option" where
  "setMembers f [] x = Some x"
| "setMembers f ((k, v) # ms) x =
     (case f k v x of None \<Rightarrow> None | Some y \<Rightarrow> setMembers f ms y)"

definition unmarshalStruct :: "(bytes \<Rightarrow> bytes \<Rightarrow> 'a \<Rightarrow> 'a option) \<Rightarrow> 'a \<Rightarrow> bytes \<Rightarrow> 'a option" where
  "unmarshalStruct f zero raw =
     (if raw = jnull then Some zero
      else case json_members raw of None \<Rightarrow> None | Some ms \<Rightarrow> setMembers f ms zero)"

definition mutationField :: "bytes \<Rightarrow> bytes \<Rightarrow> keyedMutation \<Rightarrow> keyedMutation option" where
  "mutationField k v m =
     (if field_is ''key'' k then map_option (\<lambda>x. m\<lparr>mKey := x\<rparr>) (unmarshalStr v (mKey m))
      else if field_is ''value'' k then map_option (\<lambda>x. m\<lparr>mValue := x\<rparr>) (unmarshalBytes v)
      else if field_is ''delete'' k then map_option (\<lambda>x. m\<lparr>mDelete := x\<rparr>) (unmarshalBool v (mDelete m))
      else Some m)"

definition unmarshalMutations :: "bytes \<Rightarrow> keyedMutation list option" where
  "unmarshalMutations raw =
     (if raw = jnull then Some []
      else case json_elems raw of
          None \<Rightarrow> None
        | Some es \<Rightarrow> those (map (unmarshalStruct mutationField zeroMutation) es))"

definition recordField :: "bytes \<Rightarrow> bytes \<Rightarrow> keyedWALRecord \<Rightarrow> keyedWALRecord option" where
  "recordField k v r =
     (if field_is ''sequence'' k then map_option (\<lambda>x. r\<lparr>rSequence := x\<rparr>) (unmarshalU64 v (rSequence r))
      else if field_is ''command_id'' k then map_option (\<lambda>x. r\<lparr>rCommandID := x\<rparr>) (unmarshalStr v (rCommandID r))
      else if field_is ''applied'' k then map_option (\<lambda>x. r\<lparr>rApplied := x\<rparr>) (unmarshalBool v (rApplied r))
      else if field_is ''code'' k then map_option (\<lambda>x. r\<lparr>rCode := x\<rparr>) (unmarshalStr v (rCode r))
      else if field_is ''result'' k then map_option (\<lambda>x. r\<lparr>rResult := x\<rparr>) (unmarshalBytes v)
      else if field_is ''mutations'' k then map_option (\<lambda>x. r\<lparr>rMutations := x\<rparr>) (unmarshalMutations v)
      else Some r)"

definition unmarshalRecord :: "bytes \<Rightarrow> keyedWALRecord option" where
  "unmarshalRecord payload =
     (if json_valid payload then unmarshalStruct recordField zeroRecord (jtrim payload) else None)"

section \<open>Validation during recovery\<close>

definition maxStoredKeyBytes :: "'a KeyedDB_scheme \<Rightarrow> nat" where
  "maxStoredKeyBytes db =
     (if format db = catalogKeyedFormatContents then keyedMaxKeyBytes + 9 else keyedMaxKeyBytes)"

abbreviation corrupt :: "string \<Rightarrow> go_error" where
  "corrupt msg \<equiv> Error ErrorCorruption ''open_keyed'' msg"

abbreviation capacity :: "string \<Rightarrow> go_error" where
  "capacity msg \<equiv> Error ErrorCapacity ''open_keyed'' msg"

fun validateMutations ::
  "'a KeyedDB_scheme \<Rightarrow> keyedMutation list \<Rightarrow> bytes fset \<Rightarrow> nat \<Rightarrow> nat res" where
  "validateMutations db [] seen tot = Inr tot"
| "validateMutations db (m # ms) seen tot =
     (if mKey m = [] then Inl (corrupt ''WAL mutation key is empty'')
      else if maxStoredKeyBytes db < length (mKey m) then Inl (corrupt ''WAL key exceeds fixed bound'')
      else if mKey m |\<in>| seen then Inl (corrupt ''WAL contains duplicate mutation key'')
      else if mDelete m \<and> length (mValue m) \<noteq> 0 then Inl (corrupt ''WAL delete contains a value'')
      else if MaxValueBytes (options db) < int (length (mValue m))
        then Inl (capacity ''WAL value exceeds configured bound'')
      else if \<not> mDelete m \<and> \<not> json_valid (mValue m) then Inl (corrupt ''WAL value is not valid JSON'')
      else validateMutations db ms (finsert (mKey m) seen) (tot + length (mKey m) + length (mValue m)))"

definition validateKeyedRecord :: "'a KeyedDB_scheme \<Rightarrow> keyedWALRecord \<Rightarrow> go_error option" where
  "validateKeyedRecord db r =
     (if rCommandID r = [] then Some (corrupt ''WAL command ID is empty'')
      else if keyedMaxIdentityBytes < length (rCommandID r) then Some (corrupt ''WAL command ID exceeds fixed bound'')
      else if keyedMaxCodeBytes < length (rCode r) then Some (corrupt ''WAL rejection code exceeds fixed bound'')
      else if MaxValueBytes (options db) < int (length (rResult r))
        then Some (capacity ''WAL result exceeds configured value bound'')
      else if 0 < length (rResult r) \<and> \<not> json_valid (rResult r) then Some (corrupt ''WAL result is not valid JSON'')
      else if \<not> rApplied r \<and> length (rMutations r) \<noteq> 0
        then Some (corrupt ''rejected WAL decision contains mutations'')
      else case validateMutations db (rMutations r) {||} 0 of
          Inl e \<Rightarrow> Some e
        | Inr tot \<Rightarrow>
            if MaxTransactionBytes (options db) < int tot
            then Some (capacity ''WAL transaction exceeds configured bound'')
            else None)"

fun countAfter :: "(bytes, bytes) fmap \<Rightarrow> keyedMutation list \<Rightarrow> int \<Rightarrow> int" where
  "countAfter recs [] count = count"
| "countAfter recs (m # ms) count =
     (let exists = fmlookup recs (mKey m) \<noteq> None;
          c1 = (if mDelete m \<and> exists then count - 1 else count);
          c2 = (if \<not> mDelete m \<and> \<not> exists then c1 + 1 else c1)
      in countAfter recs ms c2)"

definition validateKeyedApply :: "'a KeyedDB_scheme \<Rightarrow> keyedWALRecord \<Rightarrow> go_error option" where
  "validateKeyedApply db r =
     (if \<not> rApplied r then None
      else if MaxRecords (options db) < countAfter (records db) (rMutations r) (int (fmsize (records db)))
        then Some (capacity ''WAL exceeds configured record capacity'')
      else None)"

section \<open>Appending to the log\<close>

definition appendKeyedFrame ::
  "'a KeyedDB_scheme keyedHooks \<Rightarrow> keyedWALRecord \<Rightarrow> 'a KeyedDB_scheme \<Rightarrow> world
    \<Rightarrow> go_error option \<times> 'a KeyedDB_scheme \<times> world" where
  "appendKeyedFrame hooks r db w =
     (case beforeAppend hooks r of
        Some e \<Rightarrow> (Some (Error ErrorStorage ''submit_keyed'' ''before append''), db, w)
      | None \<Rightarrow>
          let payload = marshalRecord r in
          if maxFrameBytes < length payload
          then (Some (Error ErrorCapacity ''submit_keyed'' ''encoded command frame is too large''), db, w)
          else case file_Write WAL_file (walOffset db) (frame payload) w of
              (written, Some e, w') \<Rightarrow>
                (Some (Error ErrorStorage ''submit_keyed'' ''write''),
                 db\<lparr>walOffset := walOffset db + written\<rparr>, w')
            | (written, None, w') \<Rightarrow>
                (if written \<noteq> length (frame payload)
                 then Some (Error ErrorStorage ''submit_keyed'' ''short write'') else None,
                 db\<lparr>walOffset := walOffset db + written\<rparr>, w'))"

definition syncKeyed ::
  "'a KeyedDB_scheme keyedHooks \<Rightarrow> world \<Rightarrow> go_error option \<times> world" where
  "syncKeyed hooks w =
     (case beforeSync hooks of
        Some e \<Rightarrow> (Some (Error ErrorStorage ''submit_keyed'' ''before sync''), w)
      | None \<Rightarrow>
          (case file_Sync WAL_file w of
             (Some e, w') \<Rightarrow> (Some (Error ErrorStorage ''submit_keyed'' ''sync''), w')
           | (None, w') \<Rightarrow> (None, w')))"

definition appendKeyed ::
  "'a KeyedDB_scheme keyedHooks \<Rightarrow> keyedWALRecord \<Rightarrow> 'a KeyedDB_scheme \<Rightarrow> world
    \<Rightarrow> go_error option \<times> 'a KeyedDB_scheme \<times> world" where
  "appendKeyed hooks r db w =
     (case appendKeyedFrame hooks r db w of
        (Some e, db', w') \<Rightarrow> (Some e, db', w')
      | (None, db', w') \<Rightarrow> (case syncKeyed hooks w' of (e, w'') \<Rightarrow> (e, db', w'')))"

section \<open>Recovery\<close>

text \<open>
  The state of the recovery loop is the database and the sequence of the last record read. One
  iteration, from the payload on: decode, contiguity, validation, and application of a record that
  the snapshot does not already contain.
\<close>

definition replayRecord :: "'a KeyedDB_scheme \<times> u64 \<Rightarrow> keyedWALRecord \<Rightarrow> ('a KeyedDB_scheme \<times> u64) res" where
  "replayRecord st r =
     (let (db, lastSequence) = st in
      if rSequence r = 0 \<or> (lastSequence \<noteq> 0 \<and> rSequence r \<noteq> lastSequence + 1)
      then Inl (corrupt ''WAL sequence is not contiguous'')
      else case validateKeyedRecord db r of
          Some e \<Rightarrow> Inl e
        | None \<Rightarrow>
            if sequence db < rSequence r then
              (if rSequence r \<noteq> sequence db + 1 then Inl (corrupt ''WAL does not continue snapshot sequence'')
               else if fmlookup (dedupe db) (rCommandID r) \<noteq> None
                 then Inl (corrupt ''WAL repeats a retained command ID'')
               else case validateKeyedApply db r of
                   Some e \<Rightarrow> Inl e
                 | None \<Rightarrow> Inr (applyKeyed (\<lambda>_ d. d) r db, rSequence r))
            else Inr (db, rSequence r))"

definition replayPayload :: "'a KeyedDB_scheme \<times> u64 \<Rightarrow> bytes \<Rightarrow> ('a KeyedDB_scheme \<times> u64) res" where
  "replayPayload st payload =
     (case unmarshalRecord payload of
        None \<Rightarrow> Inl (corrupt ''decode WAL'')
      | Some r \<Rightarrow> replayRecord st r)"

function replayFrames ::
  "'a KeyedDB_scheme \<times> u64 \<Rightarrow> nat \<Rightarrow> bytes \<Rightarrow> (('a KeyedDB_scheme \<times> u64) \<times> nat) res" where
  "replayFrames st offset bs =
     (case read_frame 1 bs of
        FrameEOF \<Rightarrow> Inr (st, offset)
      | FrameTorn \<Rightarrow> Inr (st, offset)
      | FrameBadLength \<Rightarrow> Inl (corrupt ''invalid WAL frame length'')
      | FrameBadChecksum \<Rightarrow> Inl (corrupt ''WAL checksum mismatch'')
      | Frame payload rest \<Rightarrow>
          (case replayPayload st payload of
             Inl e \<Rightarrow> Inl e
           | Inr st' \<Rightarrow> replayFrames st' (offset + length payload + 8) rest))"
  by pat_completeness auto
termination
  by (relation "measure (\<lambda>(st, offset, bs). length bs)") (auto dest: read_frame_shorter)

declare replayFrames.simps [simp del]

definition truncateKeyedTail :: "nat \<Rightarrow> world \<Rightarrow> go_error option \<times> world" where
  "truncateKeyedTail offset w =
     (case file_Truncate WAL_file offset w of
        (Some e, w1) \<Rightarrow> (Some (Error ErrorStorage ''open_keyed'' ''truncate''), w1)
      | (None, w1) \<Rightarrow>
          (case file_Sync WAL_file w1 of
             (Some e, w2) \<Rightarrow> (Some (Error ErrorStorage ''open_keyed'' ''sync''), w2)
           | (None, w2) \<Rightarrow> (None, w2)))"

text \<open>The loop over the file: a torn tail is truncated away and the truncation synchronised.\<close>

definition replayKeyedWAL :: "'a KeyedDB_scheme \<Rightarrow> world \<Rightarrow> 'a KeyedDB_scheme res \<times> world" where
  "replayKeyedWAL db w =
     (case file_Seek w of
        (Some e, w1) \<Rightarrow> (Inl (Error ErrorStorage ''open_keyed'' ''seek''), w1)
      | (None, w1) \<Rightarrow>
          (case io_check ''read'' w1 of
             (Some e, w2) \<Rightarrow> (Inl (Error ErrorStorage ''open_keyed'' ''read''), w2)
           | (None, w2) \<Rightarrow>
               let data = contents WAL_file w2 in
               case replayFrames (db, 0) 0 data of
                 Inl e \<Rightarrow> (Inl e, w2)
               | Inr ((db', _), offset) \<Rightarrow>
                   if offset < length data then
                     (case truncateKeyedTail offset w2 of
                        (Some e, w3) \<Rightarrow> (Inl e, w3)
                      | (None, w3) \<Rightarrow> (Inr db', w3))
                   else (Inr db', w2)))"

section \<open>The directory\<close>

definition syncDirectory :: "world \<Rightarrow> go_error option \<times> world" where
  "syncDirectory w =
     (if windows w then (None, w)
      else case io_check ''open directory'' w of
          (Some e, w1) \<Rightarrow> (Some e, w1)
        | (None, w1) \<Rightarrow> close_after (directory_Sync w1))"

definition ensureKeyedFormat :: "bytes \<Rightarrow> world \<Rightarrow> go_error option \<times> world" where
  "ensureKeyedFormat expected w =
     (let storage = (\<lambda>w. (Some (Error ErrorStorage ''open_keyed'' ''io''), w)) in
      case os_MkdirAll w of
        (Some e, w1) \<Rightarrow> storage w1
      | (None, w1) \<Rightarrow>
          (case os_ReadFile FORMAT w1 of
             (Inr data, w2) \<Rightarrow>
               if data \<noteq> expected
               then (Some (Error ErrorIncompatible ''open_keyed'' ''directory contains a different OctetDB model''), w2)
               else (None, w2)
           | (Inl err, w2) \<Rightarrow>
               if err \<noteq> ErrNotExist then storage w2
               else case os_ReadDir w2 of
                   (Inl e, w3) \<Rightarrow> storage w3
                 | (Inr names, w3) \<Rightarrow>
                     (case (if names = {|FORMAT_tmp|} then os_Remove FORMAT_tmp w3 else (None, w3)) of
                        (Some e, w4) \<Rightarrow> storage w4
                      | (None, w4) \<Rightarrow>
                          if names \<noteq> {||} \<and> names \<noteq> {|FORMAT_tmp|}
                          then (Some (Error ErrorIncompatible ''open_keyed''
                                 ''non-empty directory has no keyed OctetDB FORMAT marker''), w4)
                          else case os_OpenExcl FORMAT_tmp w4 of
                              (Some e, w5) \<Rightarrow> storage w5
                            | (None, w5) \<Rightarrow>
                                (case and_then (and_then (close_after (and_then
                                        (write_all FORMAT_tmp 0 expected w5)
                                        (file_Sync FORMAT_tmp)))
                                        (os_Rename FORMAT_tmp FORMAT))
                                        syncDirectory of
                                   (None, w6) \<Rightarrow> (None, w6)
                                 | (Some e, w6) \<Rightarrow> storage (snd (os_Remove FORMAT_tmp w6))))))"

section \<open>Snapshots\<close>

definition marshalRecords :: "(bytes, bytes) fmap \<Rightarrow> bytes" where
  "marshalRecords m =
     jobj (map (\<lambda>(k, v). (k, if v = [] then jnull else jbytes v)) (sorted_list_of_fmap m))"

definition marshalSnapshot :: "keyedSnapshot \<Rightarrow> bytes" where
  "marshalSnapshot s = jobj
     [(str ''sequence'', dec_nat (unat (sSequence s))),
      (str ''records'', marshalRecords (sRecords s)),
      (str ''dedupe'', jarr (map marshalRecord (sDedupe s)))]"

definition marshalEnvelope :: "keyedSnapshotEnvelope \<Rightarrow> bytes" where
  "marshalEnvelope e = jobj
     [(str ''magic'', jstr (eMagic e)),
      (str ''version'', dec_nat (nat (eVersion e))),
      (str ''payload'', ePayload e),
      (str ''sha256'', jstr (eSHA256 e))]"

definition recordsMember :: "bytes \<Rightarrow> bytes \<Rightarrow> (bytes, bytes) fmap \<Rightarrow> (bytes, bytes) fmap option" where
  "recordsMember k v m = map_option (\<lambda>x. fmupd k x m) (unmarshalBytes v)"

definition unmarshalRecordList :: "bytes \<Rightarrow> keyedWALRecord list option" where
  "unmarshalRecordList raw =
     (if raw = jnull then Some []
      else case json_elems raw of
          None \<Rightarrow> None
        | Some es \<Rightarrow> those (map (unmarshalStruct recordField zeroRecord) es))"

definition snapshotField :: "bytes \<Rightarrow> bytes \<Rightarrow> keyedSnapshot \<Rightarrow> keyedSnapshot option" where
  "snapshotField k v s =
     (if field_is ''sequence'' k then map_option (\<lambda>x. s\<lparr>sSequence := x\<rparr>) (unmarshalU64 v (sSequence s))
      else if field_is ''records'' k then
        (if v = jnull then Some (s\<lparr>sRecords := fmempty\<rparr>)
         else case json_members v of
             None \<Rightarrow> None
           | Some ms \<Rightarrow> map_option (\<lambda>x. s\<lparr>sRecords := x\<rparr>) (setMembers recordsMember ms (sRecords s)))
      else if field_is ''dedupe'' k then map_option (\<lambda>x. s\<lparr>sDedupe := x\<rparr>) (unmarshalRecordList v)
      else Some s)"

definition unmarshalSnapshot :: "bytes \<Rightarrow> keyedSnapshot option" where
  "unmarshalSnapshot payload =
     (if json_valid payload
      then unmarshalStruct snapshotField \<lparr>sSequence = 0, sRecords = fmempty, sDedupe = []\<rparr> (jtrim payload)
      else None)"

definition envelopeField :: "bytes \<Rightarrow> bytes \<Rightarrow> keyedSnapshotEnvelope \<Rightarrow> keyedSnapshotEnvelope option" where
  "envelopeField k v e =
     (if field_is ''magic'' k then map_option (\<lambda>x. e\<lparr>eMagic := x\<rparr>) (unmarshalStr v (eMagic e))
      else if field_is ''version'' k then map_option (\<lambda>x. e\<lparr>eVersion := x\<rparr>) (unmarshalInt v (eVersion e))
      else if field_is ''payload'' k then Some (e\<lparr>ePayload := v\<rparr>)
      else if field_is ''sha256'' k then map_option (\<lambda>x. e\<lparr>eSHA256 := x\<rparr>) (unmarshalStr v (eSHA256 e))
      else Some e)"

definition unmarshalEnvelope :: "bytes \<Rightarrow> keyedSnapshotEnvelope option" where
  "unmarshalEnvelope data =
     (if json_valid data
      then unmarshalStruct envelopeField \<lparr>eMagic = [], eVersion = 0, ePayload = [], eSHA256 = []\<rparr> (jtrim data)
      else None)"

text \<open>The snapshot of a database state and its file image.\<close>

definition snapshotOf :: "'a KeyedDB_scheme \<Rightarrow> keyedSnapshot" where
  "snapshotOf db =
     \<lparr>sSequence = sequence db, sRecords = records db,
      sDedupe = map (\<lambda>i. case fmlookup (dedupe db) i of None \<Rightarrow> zeroRecord | Some r \<Rightarrow> r) (dedupeIDs db)\<rparr>"

definition snapshotImage :: "'a KeyedDB_scheme \<Rightarrow> bytes" where
  "snapshotImage db =
     (let payload = marshalSnapshot (snapshotOf db) in
      marshalEnvelope \<lparr>eMagic = keyedSnapshotMagic, eVersion = 1, ePayload = payload,
                       eSHA256 = hex_encode (sha256 payload)\<rparr>)"

definition snapshotKeyed :: "'a KeyedDB_scheme \<Rightarrow> world \<Rightarrow> go_error option \<times> 'a KeyedDB_scheme \<times> world" where
  "snapshotKeyed db w =
     (if \<not> walOpen db then (None, db, w)
      else let envelope = snapshotImage db; w1 = snd (os_Remove SNAPSHOT_tmp w) in
        case os_OpenExcl SNAPSHOT_tmp w1 of
          (Some e, w2) \<Rightarrow> (Some (Error ErrorStorage ''snapshot_keyed'' ''open''), db, w2)
        | (None, w2) \<Rightarrow>
            (case and_then (and_then (and_then (close_after (and_then
                    (write_all SNAPSHOT_tmp 0 envelope w2)
                    (file_Sync SNAPSHOT_tmp)))
                    (os_Rename SNAPSHOT_tmp SNAPSHOT_file))
                    syncDirectory)
                    (file_Truncate WAL_file 0) of
               (Some e, w3) \<Rightarrow>
                 (Some (Error ErrorStorage ''snapshot_keyed'' ''write''), db, snd (os_Remove SNAPSHOT_tmp w3))
             | (None, w3) \<Rightarrow>
                 (case file_Seek w3 of
                    (Some e, w4) \<Rightarrow>
                      (Some (Error ErrorStorage ''snapshot_keyed'' ''write''), db, snd (os_Remove SNAPSHOT_tmp w4))
                  | (None, w4) \<Rightarrow>
                      (case file_Sync WAL_file w4 of
                         (Some e, w5) \<Rightarrow>
                           (Some (Error ErrorStorage ''snapshot_keyed'' ''write''), db\<lparr>walOffset := 0\<rparr>,
                            snd (os_Remove SNAPSHOT_tmp w5))
                       | (None, w5) \<Rightarrow> (None, db\<lparr>walOffset := 0\<rparr>, w5)))))"

fun checkSnapshotRecords :: "'a KeyedDB_scheme \<Rightarrow> (bytes \<times> bytes) list \<Rightarrow> go_error option" where
  "checkSnapshotRecords db [] = None"
| "checkSnapshotRecords db ((key, val) # kvs) =
     (if MaxValueBytes (options db) < int (length val)
      then Some (capacity ''snapshot record exceeds configured value bound'')
      else if key = [] \<or> maxStoredKeyBytes db < length key \<or> \<not> json_valid val
      then Some (corrupt ''snapshot record violates configured bounds'')
      else checkSnapshotRecords db kvs)"

fun loadDedupe ::
  "u64 \<Rightarrow> 'a KeyedDB_scheme \<times> u64 \<Rightarrow> keyedWALRecord list \<Rightarrow> ('a KeyedDB_scheme \<times> u64) res" where
  "loadDedupe frontier (db, lastSeq) [] = Inr (db, lastSeq)"
| "loadDedupe frontier (db, lastSeq) (r # rs) =
     (if rCommandID r = [] \<or> rSequence r = 0 \<or> frontier < rSequence r
      then Inl (corrupt ''invalid snapshot dedupe entry'')
      else case validateKeyedRecord db r of
          Some e \<Rightarrow> Inl e
        | None \<Rightarrow>
            if rSequence r \<le> lastSeq then Inl (corrupt ''snapshot dedupe order is invalid'')
            else if fmlookup (dedupe db) (rCommandID r) \<noteq> None
              then Inl (corrupt ''snapshot repeats a command ID'')
            else loadDedupe frontier
                   (db\<lparr>dedupe := fmupd (rCommandID r) r (dedupe db),
                       dedupeIDs := dedupeIDs db @ [rCommandID r]\<rparr>, rSequence r) rs)"

definition installSnapshot :: "'a KeyedDB_scheme \<Rightarrow> keyedSnapshot \<Rightarrow> 'a KeyedDB_scheme res" where
  "installSnapshot db snap =
     (if MaxRecords (options db) < int (fmsize (sRecords snap))
         \<or> DedupeHorizon (options db) < int (length (sDedupe snap))
      then Inl (capacity ''snapshot exceeds configured bounds'')
      else case checkSnapshotRecords db (sorted_list_of_fmap (sRecords snap)) of
          Some e \<Rightarrow> Inl e
        | None \<Rightarrow>
            (case loadDedupe (sSequence snap)
                    (db\<lparr>records := sRecords snap, sequence := sSequence snap\<rparr>, 0) (sDedupe snap) of
               Inl e \<Rightarrow> Inl e
             | Inr (db', lastSeq) \<Rightarrow>
                 if sSequence snap \<noteq> 0 \<and> (sDedupe snap = [] \<or> lastSeq \<noteq> sSequence snap)
                 then Inl (corrupt ''snapshot dedupe frontier does not match sequence'')
                 else Inr db'))"

definition decodeSnapshotImage :: "bytes \<Rightarrow> keyedSnapshot res" where
  "decodeSnapshotImage data =
     (case unmarshalEnvelope data of
        None \<Rightarrow> Inl (corrupt ''decode snapshot envelope'')
      | Some envelope \<Rightarrow>
          if eMagic envelope \<noteq> keyedSnapshotMagic \<or> eVersion envelope \<noteq> 1
          then Inl (Error ErrorIncompatible ''open_keyed'' ''unsupported keyed snapshot'')
          else if eSHA256 envelope \<noteq> hex_encode (sha256 (ePayload envelope))
          then Inl (corrupt ''snapshot checksum mismatch'')
          else case unmarshalSnapshot (ePayload envelope) of
              None \<Rightarrow> Inl (corrupt ''decode snapshot'')
            | Some snap \<Rightarrow> Inr snap)"

definition loadKeyedSnapshot :: "'a KeyedDB_scheme \<Rightarrow> world \<Rightarrow> 'a KeyedDB_scheme res \<times> world" where
  "loadKeyedSnapshot db w =
     (case os_ReadFile SNAPSHOT_file w of
        (Inl err, w1) \<Rightarrow>
          (if err = ErrNotExist then Inr db else Inl (Error ErrorStorage ''open_keyed'' ''read''), w1)
      | (Inr data, w1) \<Rightarrow>
          (case decodeSnapshotImage data of
             Inl e \<Rightarrow> Inl e
           | Inr snap \<Rightarrow> installSnapshot db snap, w1))"

section \<open>Opening and closing\<close>

definition openStorage :: "'a KeyedDB_scheme \<Rightarrow> world \<Rightarrow> 'a KeyedDB_scheme res \<times> world" where
  "openStorage db w =
     (case ensureKeyedFormat (format db) w of
        (Some e, w1) \<Rightarrow> (Inl e, w1)
      | (None, w1) \<Rightarrow>
          (case loadKeyedSnapshot db w1 of
             (Inl e, w2) \<Rightarrow> (Inl e, w2)
           | (Inr db1, w2) \<Rightarrow>
               (case os_OpenRdwr WAL_file w2 of
                  (Some e, w3) \<Rightarrow> (Inl (Error ErrorStorage ''open_keyed'' ''open''), w3)
                | (None, w3) \<Rightarrow>
                    (case replayKeyedWAL (db1\<lparr>walOpen := True\<rparr>) w3 of
                       (Inl e, w4) \<Rightarrow> (Inl e, snd (file_Close w4))
                     | (Inr db2, w4) \<Rightarrow>
                         (case file_Seek w4 of
                            (Some e, w5) \<Rightarrow>
                              (Inl (Error ErrorStorage ''open_keyed'' ''seek''), snd (file_Close w5))
                          | (None, w5) \<Rightarrow>
                              (Inr (db2\<lparr>walOffset := length (contents WAL_file w5)\<rparr>), w5))))))"

definition walClose :: "'a KeyedDB_scheme \<Rightarrow> world \<Rightarrow> go_error option \<times> 'a KeyedDB_scheme \<times> world" where
  "walClose db w =
     (if \<not> walOpen db then (None, db, w)
      else case file_Close w of
          (Some e, w1) \<Rightarrow> (Some (Error ErrorStorage ''close_keyed'' ''close''), db\<lparr>walOpen := False\<rparr>, w1)
        | (None, w1) \<Rightarrow> (None, db\<lparr>walOpen := False\<rparr>, w1))"

end
