(* ===== verification/Keyed_Codec_Laws.thy ===== *)
theory Keyed_Codec_Laws
  imports Keyed_Store
begin

text \<open>
  What survives the JSON encoding of the keyed store. A log record and a snapshot come back as they
  were written, except that every string field has passed through \<open>sanitize\<close>: the encoder replaces
  bytes that are not UTF-8. Byte-slice fields are base64 and come back exactly.
\<close>

section \<open>Byte slices and field names\<close>

lemma quote_body_b64: "list_all b64_plain bs \<Longrightarrow> quote_body bs = bs"
proof (induction bs)
  case (Cons b bs)
  then have "b64_plain b" by simp
  then have "b < 0x80" "esc_ascii b = [b]"
    by (auto simp: b64_plain_def esc_ascii_def word_less_nat_alt)
  then show ?case using Cons by (simp add: quote_body.simps(2) [of b])
qed simp

lemma jbytes_jstr: "jbytes v = jstr (b64_encode v)"
  by (simp add: jbytes_def jstr_def quote_body_b64 b64_encode_plain)

lemma jvalue_jbytes: "jvalue d (jbytes v)"
  by (simp add: jbytes_jstr jvalue_jstr)

lemma sanitize_b64: "sanitize (b64_encode v) = b64_encode v"
  using b64_encode_plain [of v]
  by (intro sanitize_valid utf8_valid_ascii) (auto simp: list_all_iff b64_plain_def)

lemma not_jnull [simp]:
  "jstr s \<noteq> jnull" "jbytes v \<noteq> jnull" "jobj ms \<noteq> jnull" "jarr vs \<noteq> jnull" "jbool b \<noteq> jnull"
  by (auto simp: jnull_def jstr_def jbytes_def jobj_def jarr_def jbool_def)

lemma dec_nat_not_jnull [simp]: "dec_nat n \<noteq> jnull"
proof
  assume "dec_nat n = jnull"
  then have "parse_nat jnull = Some n" by (metis parse_dec_nat)
  then show False by (simp add: parse_nat_def jnull_def jdigit_def)
qed

lemma unmarshalBytes_jbytes [simp, codec_simps]: "unmarshalBytes (jbytes v) = Some v"
proof -
  have "hd (jbytes v) \<noteq> 0x5B" by (simp add: jbytes_def)
  then show ?thesis
    by (simp add: unmarshalBytes_def) (simp add: jbytes_jstr sanitize_b64)
qed

lemma unmarshalStr_jstr [simp, codec_simps]: "unmarshalStr (jstr s) old = Some (sanitize s)"
  by (simp add: unmarshalStr_def)

lemma unmarshalU64_dec [simp, codec_simps]: "unmarshalU64 (dec_nat (unat x)) old = Some x"
  using unsigned_less [of x] by (simp add: unmarshalU64_def)

lemma unmarshalBool_jbool [simp, codec_simps]: "unmarshalBool (jbool b) old = Some b"
  by (cases b) (simp_all add: unmarshalBool_def, simp_all add: jbool_def)

lemma field_names:
  "\<not> field_is ''key'' (str ''value'')" "\<not> field_is ''key'' (str ''delete'')"
  "\<not> field_is ''value'' (str ''delete'')"
  "\<not> field_is ''sequence'' (str ''command_id'')" "\<not> field_is ''sequence'' (str ''applied'')"
  "\<not> field_is ''sequence'' (str ''code'')" "\<not> field_is ''sequence'' (str ''result'')"
  "\<not> field_is ''sequence'' (str ''mutations'')" "\<not> field_is ''sequence'' (str ''records'')"
  "\<not> field_is ''sequence'' (str ''dedupe'')"
  "\<not> field_is ''command_id'' (str ''applied'')" "\<not> field_is ''command_id'' (str ''code'')"
  "\<not> field_is ''command_id'' (str ''result'')" "\<not> field_is ''command_id'' (str ''mutations'')"
  "\<not> field_is ''applied'' (str ''code'')" "\<not> field_is ''applied'' (str ''result'')"
  "\<not> field_is ''applied'' (str ''mutations'')"
  "\<not> field_is ''code'' (str ''result'')" "\<not> field_is ''code'' (str ''mutations'')"
  "\<not> field_is ''result'' (str ''mutations'')"
  "\<not> field_is ''records'' (str ''dedupe'')"
  "\<not> field_is ''magic'' (str ''version'')" "\<not> field_is ''magic'' (str ''payload'')"
  "\<not> field_is ''magic'' (str ''sha256'')" "\<not> field_is ''version'' (str ''payload'')"
  "\<not> field_is ''version'' (str ''sha256'')" "\<not> field_is ''payload'' (str ''sha256'')"
  by code_simp+

lemma field_is_self [simp]: "field_is n (str n)"
  by (simp add: field_is_def)

text \<open>A printed struct is read member by member.\<close>

lemma sanitize_str: "\<forall>c \<in> set s. of_char c < (0x80 :: byte) \<Longrightarrow> sanitize (str s) = str s"
  by (intro sanitize_valid utf8_valid_ascii) (auto simp: str_def)

definition asciiMembers :: "(bytes \<times> bytes) list \<Rightarrow> bool" where
  "asciiMembers ms \<longleftrightarrow> list_all (\<lambda>(k, v). list_all (\<lambda>b. b < 0x80) k) ms"

lemma unmarshalStruct_jobj:
  assumes "\<forall>kv \<in> set ms. jvalue d (snd kv)" "asciiMembers ms"
  shows "unmarshalStruct f zero (jobj ms) = setMembers f ms zero"
proof -
  have "map (\<lambda>(k, v). (sanitize k, v)) ms = ms"
    using assms(2)
    by (intro map_idI) (auto simp: asciiMembers_def list_all_iff intro!: sanitize_valid utf8_valid_ascii)
  then show ?thesis by (simp add: unmarshalStruct_def json_members_jobj [OF assms(1)])
qed

lemma jvalue_jarr_le: "\<forall>v \<in> set vs. jvalue d v \<Longrightarrow> Suc d \<le> d' \<Longrightarrow> jvalue d' (jarr vs)"
  by (rule jvalue_mono [OF jvalue_jarr])

lemma jvalue_jobj_le: "\<forall>kv \<in> set ms. jvalue d (snd kv) \<Longrightarrow> Suc d \<le> d' \<Longrightarrow> jvalue d' (jobj ms)"
  by (rule jvalue_mono [OF jvalue_jobj])

section \<open>The log record\<close>

definition sanMutation :: "keyedMutation \<Rightarrow> keyedMutation" where
  "sanMutation m = m\<lparr>mKey := sanitize (mKey m)\<rparr>"

definition sanRecord :: "keyedWALRecord \<Rightarrow> keyedWALRecord" where
  "sanRecord r = r\<lparr>rCommandID := sanitize (rCommandID r), rCode := sanitize (rCode r),
                   rMutations := map sanMutation (rMutations r)\<rparr>"

lemma jvalue_marshalMutation: "jvalue (Suc 0) (marshalMutation m)"
  unfolding marshalMutation_def
  using jvalue_jobj [where d = 0] by (fastforce simp: jvalue_jstr jvalue_jbytes jvalue_jbool)

lemma unmarshal_marshalMutation [codec_simps]:
  "unmarshalStruct mutationField zeroMutation (marshalMutation m) = Some (sanMutation m)"
proof -
  have "unmarshalStruct mutationField zeroMutation (marshalMutation m)
      = setMembers mutationField ([(str ''key'', jstr (mKey m))]
          @ (if mValue m = [] then [] else [(str ''value'', jbytes (mValue m))])
          @ (if mDelete m then [(str ''delete'', jbool True)] else [])) zeroMutation"
    unfolding marshalMutation_def
    by (rule unmarshalStruct_jobj [where d = 0])
      (auto simp: jvalue_jstr jvalue_jbytes jvalue_jbool asciiMembers_def)
  also have "\<dots> = Some (sanMutation m)"
    by (cases m) (auto simp: mutationField_def field_names sanMutation_def zeroMutation_def simp del: str_simps)
  finally show ?thesis .
qed

lemma unmarshalMutations_jarr [codec_simps]:
  "unmarshalMutations (jarr (map marshalMutation ms)) = Some (map sanMutation ms)"
proof -
  have "json_elems (jarr (map marshalMutation ms)) = Some (map marshalMutation ms)"
    by (rule json_elems_jarr [where d = "Suc 0"]) (auto simp: jvalue_marshalMutation)
  then show ?thesis
    by (simp add: unmarshalMutations_def o_def unmarshal_marshalMutation those_map_Some)
qed

lemma jvalue_mutations: "jvalue 2 (jarr (map marshalMutation ms))"
  by (rule jvalue_jarr_le [where d = "Suc 0"]) (auto simp: jvalue_marshalMutation)

definition recordMembers :: "keyedWALRecord \<Rightarrow> (bytes \<times> bytes) list" where
  "recordMembers r =
     [(str ''sequence'', dec_nat (unat (rSequence r))),
       (str ''command_id'', jstr (rCommandID r)),
       (str ''applied'', jbool (rApplied r))]
      @ (if rCode r = [] then [] else [(str ''code'', jstr (rCode r))])
      @ (if rResult r = [] then [] else [(str ''result'', jbytes (rResult r))])
      @ (if rMutations r = [] then [] else [(str ''mutations'', jarr (map marshalMutation (rMutations r)))])"

lemma marshalRecord_members: "marshalRecord r = jobj (recordMembers r)"
  by (simp add: marshalRecord_def recordMembers_def)

lemma recordMembers_ok: "\<forall>kv \<in> set (recordMembers r). jvalue 2 (snd kv)" "asciiMembers (recordMembers r)"
  by (auto simp: recordMembers_def jvalue_dec_nat jvalue_jstr jvalue_jbool jvalue_jbytes jvalue_mutations
      asciiMembers_def)

lemma jvalue_marshalRecord: "jvalue 3 (marshalRecord r)"
  unfolding marshalRecord_members by (rule jvalue_jobj_le [OF recordMembers_ok(1)]) simp

lemma unmarshalStruct_marshalRecord [codec_simps]:
  "unmarshalStruct recordField zeroRecord (marshalRecord r) = Some (sanRecord r)"
proof -
  have "setMembers recordField (recordMembers r) zeroRecord = Some (sanRecord r)"
    by (cases r)
      (auto simp: recordMembers_def recordField_def field_names sanRecord_def zeroRecord_def
        unmarshalMutations_jarr simp del: str_simps)
  then show ?thesis
    unfolding marshalRecord_members by (simp add: unmarshalStruct_jobj [OF recordMembers_ok])
qed

text \<open>The log record, decoded as recovery decodes it.\<close>

lemma unmarshal_marshalRecord [codec_simps]: "unmarshalRecord (marshalRecord r) = Some (sanRecord r)"
proof -
  have "json_valid (marshalRecord r)"
    by (rule json_valid_jvalue [OF jvalue_marshalRecord]) (simp add: maxNestingDepth_def)
  moreover have "jtrim (marshalRecord r) = marshalRecord r"
    using jvalue_marshalRecord by (intro jtrim_jedges) (auto simp: jvalue_def)
  ultimately show ?thesis by (simp add: unmarshalRecord_def unmarshalStruct_marshalRecord)
qed

definition utf8Record :: "keyedWALRecord \<Rightarrow> bool" where
  "utf8Record r \<longleftrightarrow>
     utf8_valid (rCommandID r) \<and> utf8_valid (rCode r) \<and> list_all (\<lambda>m. utf8_valid (mKey m)) (rMutations r)"

lemma sanMutation_utf8: "utf8_valid (mKey m) \<Longrightarrow> sanMutation m = m"
  by (simp add: sanMutation_def sanitize_valid)

lemma sanRecord_utf8: "utf8Record r \<Longrightarrow> sanRecord r = r"
proof -
  assume "utf8Record r"
  then have "sanitize (rCommandID r) = rCommandID r" "sanitize (rCode r) = rCode r"
    "map sanMutation (rMutations r) = rMutations r"
    by (auto simp: utf8Record_def sanitize_valid list_all_iff sanMutation_utf8 intro: map_idI)
  then show ?thesis by (simp add: sanRecord_def)
qed

section \<open>The snapshot\<close>

definition utf8Snapshot :: "keyedSnapshot \<Rightarrow> bool" where
  "utf8Snapshot s \<longleftrightarrow>
     list_all utf8_valid (map fst (sorted_list_of_fmap (sRecords s))) \<and> list_all utf8Record (sDedupe s)"

abbreviation encValue :: "bytes \<Rightarrow> bytes" where
  "encValue v \<equiv> (if v = [] then jnull else jbytes v)"

lemma jvalue_jnull: "jvalue d jnull"
proof
  show "jscans d jnull" by (simp add: jscans_def jnull_def begin_value_def jspace_def)
  show "jpasses jnull" by (rule jpasses_plain) (simp add: jnull_def)
  show "jedges jnull" by (simp add: jedges_def jnull_def jspace_def)
qed

lemma unmarshalBytes_enc [simp]: "unmarshalBytes (encValue v) = Some v"
  by (simp add: unmarshalBytes_jbytes) (simp add: unmarshalBytes_def)

lemma setMembers_records:
  "setMembers recordsMember (map (\<lambda>(k, v). (k, encValue v)) kvs) m
   = Some (fold (\<lambda>(k, v). fmupd k v) kvs m)"
  by (induction kvs arbitrary: m) (auto simp: recordsMember_def simp del: if_split_asm)

lemma fmlookup_fold_fmupd:
  "distinct (map fst kvs) \<Longrightarrow>
   fmlookup (fold (\<lambda>(k, v). fmupd k v) kvs m) k
   = (case map_of kvs k of None \<Rightarrow> fmlookup m k | Some v \<Rightarrow> Some v)"
proof (induction kvs arbitrary: m)
  case (Cons kv kvs)
  obtain a b where kv: "kv = (a, b)" by (cases kv)
  have "map_of kvs a = None" using Cons.prems kv by (simp add: map_of_eq_None_iff)
  then show ?case using Cons kv by (auto split: option.split)
qed simp

lemma distinct_sorted_list_of_fmap: "distinct (map fst (sorted_list_of_fmap m))"
  by (simp add: sorted_list_of_fmap_def sorted_list_of_fset.rep_eq o_def)

lemma fold_sorted_list_of_fmap: "fold (\<lambda>(k, v). fmupd k v) (sorted_list_of_fmap m) fmempty = m"
  by (rule fmap_ext) (simp add: fmlookup_fold_fmupd distinct_sorted_list_of_fmap split: option.split)

lemma jvalue_marshalRecords: "jvalue (Suc 0) (marshalRecords m)"
  unfolding marshalRecords_def
  by (rule jvalue_jobj) (auto simp: jvalue_jnull jvalue_jbytes)

lemma records_round_trip:
  assumes "list_all utf8_valid (map fst (sorted_list_of_fmap m))"
  shows "marshalRecords m \<noteq> jnull"
    and "\<exists>ms. json_members (marshalRecords m) = Some ms \<and> setMembers recordsMember ms fmempty = Some m"
proof -
  let ?ms = "map (\<lambda>(k, v). (k, encValue v)) (sorted_list_of_fmap m)"
  have "json_members (marshalRecords m) = Some (map (\<lambda>(k, v). (sanitize k, v)) ?ms)"
    unfolding marshalRecords_def
    by (rule json_members_jobj [where d = 0]) (auto simp: jvalue_jnull jvalue_jbytes)
  also have "map (\<lambda>(k, v). (sanitize k, v)) ?ms = ?ms"
    using assms by (intro map_idI) (auto simp: list_all_iff sanitize_valid)
  finally show "\<exists>ms. json_members (marshalRecords m) = Some ms \<and> setMembers recordsMember ms fmempty = Some m"
    using setMembers_records [of "sorted_list_of_fmap m" fmempty] by (simp add: fold_sorted_list_of_fmap)
qed (simp add: marshalRecords_def)

lemma unmarshalRecordList_jarr:
  assumes "list_all utf8Record rs"
  shows "unmarshalRecordList (jarr (map marshalRecord rs)) = Some rs"
proof -
  have "json_elems (jarr (map marshalRecord rs)) = Some (map marshalRecord rs)"
    by (rule json_elems_jarr [where d = 3]) (auto simp: jvalue_marshalRecord)
  moreover have "those (map (\<lambda>r. Some (sanRecord r)) rs) = Some rs"
    using assms by (induction rs) (auto simp: sanRecord_utf8)
  ultimately show ?thesis
    by (simp add: unmarshalRecordList_def o_def unmarshalStruct_marshalRecord)
qed

lemma snapshotMembers_ok:
  assumes "ms = [(str ''sequence'', dec_nat (unat (sSequence s))),
      (str ''records'', marshalRecords (sRecords s)),
      (str ''dedupe'', jarr (map marshalRecord (sDedupe s)))]"
  shows "\<forall>kv \<in> set ms. jvalue 4 (snd kv)" "asciiMembers ms"
proof -
  have "jvalue 4 (marshalRecords (sRecords s))"
    by (rule jvalue_mono [OF jvalue_marshalRecords]) simp
  moreover have "jvalue 4 (jarr (map marshalRecord (sDedupe s)))"
    by (rule jvalue_jarr_le [where d = 3]) (auto simp: jvalue_marshalRecord)
  ultimately show "\<forall>kv \<in> set ms. jvalue 4 (snd kv)" "asciiMembers ms"
    unfolding assms by (auto simp: jvalue_dec_nat asciiMembers_def)
qed

lemma jvalue_marshalSnapshot: "jvalue 5 (marshalSnapshot s)"
  unfolding marshalSnapshot_def by (rule jvalue_jobj_le [OF snapshotMembers_ok(1) [OF refl]]) simp

lemma unmarshal_marshalSnapshot [codec_simps]:
  assumes "utf8Snapshot s"
  shows "unmarshalSnapshot (marshalSnapshot s) = Some s"
proof -
  obtain ms where ms: "json_members (marshalRecords (sRecords s)) = Some ms"
    "setMembers recordsMember ms fmempty = Some (sRecords s)"
    using assms records_round_trip(2) by (auto simp: utf8Snapshot_def)
  have "unmarshalStruct snapshotField \<lparr>sSequence = 0, sRecords = fmempty, sDedupe = []\<rparr> (marshalSnapshot s)
      = setMembers snapshotField
          [(str ''sequence'', dec_nat (unat (sSequence s))),
           (str ''records'', marshalRecords (sRecords s)),
           (str ''dedupe'', jarr (map marshalRecord (sDedupe s)))]
          \<lparr>sSequence = 0, sRecords = fmempty, sDedupe = []\<rparr>"
    unfolding marshalSnapshot_def by (rule unmarshalStruct_jobj [OF snapshotMembers_ok [OF refl]])
  also have "\<dots> = Some s"
    using assms ms
    by (cases s) (auto simp: snapshotField_def field_names utf8Snapshot_def unmarshalRecordList_jarr
        records_round_trip(1) simp del: str_simps)
  finally have "unmarshalStruct snapshotField \<lparr>sSequence = 0, sRecords = fmempty, sDedupe = []\<rparr> (marshalSnapshot s)
    = Some s" .
  moreover have "json_valid (marshalSnapshot s)"
    by (rule json_valid_jvalue [OF jvalue_marshalSnapshot]) (simp add: maxNestingDepth_def)
  moreover have "jtrim (marshalSnapshot s) = marshalSnapshot s"
    using jvalue_marshalSnapshot by (intro jtrim_jedges) (auto simp: jvalue_def)
  ultimately show ?thesis by (simp add: unmarshalSnapshot_def)
qed

lemma sanitize_hex: "sanitize (hex_encode bs) = hex_encode bs"
proof -
  have "list_all (\<lambda>n. hex_digit n < 0x80) [0..<16]" by code_simp
  then have "hex_digit n < 0x80" if "n < 16" for n using that unfolding list_all_iff by simp
  then have "\<forall>b \<in> set (hex_encode bs). b < 0x80"
    by (auto simp: hex_encode_def esc_ascii_hex_bounds)
  then show ?thesis by (intro sanitize_valid utf8_valid_ascii)
qed

lemma unmarshalInt_one: "unmarshalInt (dec_nat (Suc 0)) old = Some 1"
  by (simp add: unmarshalInt_def) (simp add: dec_nat.simps)

definition envelopeMembers :: "keyedSnapshotEnvelope \<Rightarrow> (bytes \<times> bytes) list" where
  "envelopeMembers e =
     [(str ''magic'', jstr (eMagic e)), (str ''version'', dec_nat (nat (eVersion e))),
      (str ''payload'', ePayload e), (str ''sha256'', jstr (eSHA256 e))]"

lemma marshalEnvelope_members: "marshalEnvelope e = jobj (envelopeMembers e)"
  by (simp add: marshalEnvelope_def envelopeMembers_def)

lemma unmarshal_marshalEnvelope [codec_simps]:
  assumes "jvalue 6 (ePayload e)" "eVersion e = 1"
    "sanitize (eMagic e) = eMagic e" "sanitize (eSHA256 e) = eSHA256 e"
  shows "unmarshalEnvelope (marshalEnvelope e) = Some e"
proof -
  have ok: "\<forall>kv \<in> set (envelopeMembers e). jvalue 6 (snd kv)" "asciiMembers (envelopeMembers e)"
    using assms(1) by (auto simp: envelopeMembers_def jvalue_jstr jvalue_dec_nat asciiMembers_def)
  have v: "jvalue 7 (marshalEnvelope e)"
    unfolding marshalEnvelope_members by (rule jvalue_jobj_le [OF ok(1)]) simp
  have "setMembers envelopeField (envelopeMembers e) \<lparr>eMagic = [], eVersion = 0, ePayload = [], eSHA256 = []\<rparr>
      = Some e"
    using assms(2-4)
    by (cases e) (auto simp: envelopeMembers_def envelopeField_def field_names unmarshalInt_one
        simp del: str_simps)
  moreover have "json_valid (marshalEnvelope e)"
    by (rule json_valid_jvalue [OF v]) (simp add: maxNestingDepth_def)
  moreover have "jtrim (marshalEnvelope e) = marshalEnvelope e"
    using v by (intro jtrim_jedges) (auto simp: jvalue_def)
  ultimately show ?thesis
    by (simp add: unmarshalEnvelope_def) (simp add: marshalEnvelope_members unmarshalStruct_jobj [OF ok])
qed

text \<open>The file a snapshot writes decodes to the snapshot that was taken.\<close>

lemma decode_snapshotImage:
  assumes "utf8Snapshot (snapshotOf db)"
  shows "decodeSnapshotImage (snapshotImage db) = Inr (snapshotOf db)"
proof -
  let ?p = "marshalSnapshot (snapshotOf db)"
  let ?e = "\<lparr>eMagic = keyedSnapshotMagic, eVersion = 1, ePayload = ?p, eSHA256 = hex_encode (sha256 ?p)\<rparr>"
  have "sanitize keyedSnapshotMagic = keyedSnapshotMagic"
    unfolding keyedSnapshotMagic_def by (rule sanitize_str) simp
  then have "unmarshalEnvelope (marshalEnvelope ?e) = Some ?e"
    by (intro unmarshal_marshalEnvelope) (simp_all add: jvalue_mono [OF jvalue_marshalSnapshot] sanitize_hex)
  then show ?thesis
    using assms by (simp add: decodeSnapshotImage_def snapshotImage_def Let_def unmarshal_marshalSnapshot)
qed

end
