(* ===== verification/Keyed_Engine.thy ===== *)
theory Keyed_Engine
  imports Keyed_Store
begin

text \<open>
  The serving half of the keyed database, \<^verbatim>\<open>keyed.go\<close>: transactions, execution of one command,
  group commit, reads, snapshots and closing.

  A mutation callback is a function of the database and the transaction it is given; \<open>runTx\<close> makes
  one of a \<open>tx_prog\<close>, the sequence of transaction calls a callback makes, each continuing with what
  the call returned, ended by a result, an error or a panic. Values cross the JSON
  boundary as their encodings: an application value is \<open>Some\<close> of the text its encoder produces, or
  \<open>None\<close> when it has no encoding; a destination is the set of texts that decode into it, or
  \<open>None\<close> for a nil pointer. A callback only uses the transaction it is given, and it does not call
  the database itself, which would block on the admission token.
\<close>

section \<open>Application values and errors\<close>

type_synonym app_value = "bytes option"
type_synonym dest = "(bytes \<Rightarrow> bool) option"

text \<open>\<open>json.Marshal\<close> returns valid JSON or an error; it checks what custom encoders produce.\<close>

definition json_Marshal :: "app_value \<Rightarrow> bytes option" where
  "json_Marshal v = (case v of Some b \<Rightarrow> if json_valid b then Some b else None | None \<Rightarrow> None)"

definition Reject :: "bytes \<Rightarrow> go_error" where
  "Reject code = KeyedRejection code []"

definition RejectWithResult :: "bytes \<Rightarrow> app_value \<Rightarrow> go_error" where
  "RejectWithResult code result =
     (case json_Marshal result of
        None \<Rightarrow> Error ErrorInvalidInput ''reject'' ''marshal''
      | Some encoded \<Rightarrow> KeyedRejection code encoded)"

text \<open>
  The errors a callback can return. The result of a rejection is a private field, so that a
  rejection is built by \<open>Reject\<close> or \<open>RejectWithResult\<close>, and possibly wrapped.
\<close>

datatype app_error =
    AppReject bytes
  | AppRejectWithResult bytes app_value
  | AppError ErrorKind string string
  | AppOther string
  | AppWrap string app_error

primrec errorOf :: "app_error \<Rightarrow> go_error" where
  "errorOf (AppReject code) = Reject code"
| "errorOf (AppRejectWithResult code v) = RejectWithResult code v"
| "errorOf (AppError kind op msg) = Error kind op msg"
| "errorOf (AppOther msg) = OtherError msg"
| "errorOf (AppWrap msg e) = Wrapped msg (errorOf e)"

text \<open>\<open>errors.As(err, &rejection)\<close>\<close>

primrec asRejection :: "go_error \<Rightarrow> (bytes \<times> bytes) option" where
  "asRejection (KeyedRejection code result) = Some (code, result)"
| "asRejection (Wrapped msg e) = asRejection e"
| "asRejection (Error kind op msg) = None"
| "asRejection (RuntimeError kind msg) = None"
| "asRejection (PathError msg) = None"
| "asRejection ErrNotExist = None"
| "asRejection (OtherError msg) = None"

section \<open>Transactions\<close>

record KeyedTx =
  writes :: "(bytes, bytes option) fmap"
  invalid :: bool

definition newTx :: KeyedTx where
  "newTx = \<lparr>writes = fmempty, invalid = False\<rparr>"

definition tx_valid :: "string \<Rightarrow> KeyedTx \<Rightarrow> go_error option" where
  "tx_valid op tx =
     (if invalid tx then Some (Error ErrorInvalidInput (''keyed_tx_'' @ op) ''transaction is no longer active'')
      else None)"

text \<open>\<open>Get\<close> yields the text that was decoded into the destination.\<close>

definition tx_Get :: "'a KeyedDB_scheme \<Rightarrow> KeyedTx \<Rightarrow> bytes \<Rightarrow> dest \<Rightarrow> bytes option res" where
  "tx_Get db tx key destination =
     (case tx_valid ''get'' tx of
        Some e \<Rightarrow> Inl e
      | None \<Rightarrow>
          if key = [] \<or> destination = None
          then Inl (Error ErrorInvalidInput ''keyed_tx_get'' ''key and destination are required'')
          else if keyedMaxKeyBytes < length key
          then Inl (Error ErrorCapacity ''keyed_tx_get'' ''key exceeds 4 KiB'')
          else case fmlookup (writes tx) key of
              Some None \<Rightarrow> Inr None
            | Some (Some val) \<Rightarrow>
                if the destination val then Inr (Some val)
                else Inl (Error ErrorInvalidInput ''keyed_tx_get'' ''unmarshal'')
            | None \<Rightarrow>
                (case fmlookup (records db) key of
                   None \<Rightarrow> Inr None
                 | Some val \<Rightarrow>
                     if the destination val then Inr (Some val)
                     else Inl (Error ErrorCorruption ''keyed_tx_get'' ''unmarshal'')))"

definition tx_Put ::
  "'a KeyedDB_scheme \<Rightarrow> KeyedTx \<Rightarrow> bytes \<Rightarrow> app_value \<Rightarrow> go_error option \<times> KeyedTx" where
  "tx_Put db tx key val =
     (case tx_valid ''put'' tx of
        Some e \<Rightarrow> (Some e, tx)
      | None \<Rightarrow>
          if key = [] then (Some (Error ErrorInvalidInput ''keyed_tx_put'' ''key is required''), tx)
          else if keyedMaxKeyBytes < length key
          then (Some (Error ErrorCapacity ''keyed_tx_put'' ''key exceeds 4 KiB''), tx)
          else case json_Marshal val of
              None \<Rightarrow> (Some (Error ErrorInvalidInput ''keyed_tx_put'' ''marshal''), tx)
            | Some encoded \<Rightarrow>
                if MaxValueBytes (options db) < int (length encoded)
                then (Some (Error ErrorCapacity ''keyed_tx_put'' ''value exceeds MaxValueBytes''), tx)
                else (None, tx\<lparr>writes := fmupd key (Some encoded) (writes tx)\<rparr>))"

definition tx_Delete :: "KeyedTx \<Rightarrow> bytes \<Rightarrow> go_error option \<times> KeyedTx" where
  "tx_Delete tx key =
     (case tx_valid ''delete'' tx of
        Some e \<Rightarrow> (Some e, tx)
      | None \<Rightarrow>
          if key = [] then (Some (Error ErrorInvalidInput ''keyed_tx_delete'' ''key is required''), tx)
          else if keyedMaxKeyBytes < length key
          then (Some (Error ErrorCapacity ''keyed_tx_delete'' ''key exceeds 4 KiB''), tx)
          else (None, tx\<lparr>writes := fmupd key None (writes tx)\<rparr>))"

text \<open>The loop of \<open>finalize\<close> over the sorted keys: live count, byte count, mutations.\<close>

fun finalizeLoop ::
  "(bytes, bytes) fmap \<Rightarrow> (bytes \<times> bytes option) list \<Rightarrow> int \<Rightarrow> nat \<Rightarrow> keyedMutation list
    \<Rightarrow> int \<times> nat \<times> keyedMutation list" where
  "finalizeLoop recs [] count tot ms = (count, tot, ms)"
| "finalizeLoop recs ((key, None) # kvs) count tot ms =
     finalizeLoop recs kvs (if fmlookup recs key \<noteq> None then count - 1 else count) tot
       (ms @ [\<lparr>mKey = key, mValue = [], mDelete = True\<rparr>])"
| "finalizeLoop recs ((key, Some val) # kvs) count tot ms =
     finalizeLoop recs kvs (if fmlookup recs key = None then count + 1 else count)
       (tot + length key + length val)
       (ms @ [\<lparr>mKey = key, mValue = val, mDelete = False\<rparr>])"

definition finalize :: "'a KeyedDB_scheme \<Rightarrow> KeyedTx \<Rightarrow> keyedMutation list res" where
  "finalize db tx =
     (case finalizeLoop (records db) (sorted_list_of_fmap (writes tx)) (int (fmsize (records db))) 0 [] of
        (count, tot, mutations) \<Rightarrow>
          if MaxRecords (options db) < count
          then Inl (Error ErrorCapacity ''submit_keyed'' ''record capacity exceeded'')
          else if MaxTransactionBytes (options db) < int tot
          then Inl (Error ErrorCapacity ''submit_keyed'' ''transaction exceeds MaxTransactionBytes'')
          else Inr mutations)"

section \<open>Mutation callbacks\<close>

datatype tx_prog =
    TxGet bytes dest "bytes option res \<Rightarrow> tx_prog"
  | TxPut bytes app_value "go_error option \<Rightarrow> tx_prog"
  | TxDelete bytes "go_error option \<Rightarrow> tx_prog"
  | TxReturn app_value
  | TxFail app_error
  | TxPanic string

datatype tx_outcome = Returned app_value | Failed go_error | Panicked string

type_synonym 's mutation = "'s \<Rightarrow> KeyedTx \<Rightarrow> tx_outcome \<times> KeyedTx"

primrec runTx :: "tx_prog \<Rightarrow> 'a KeyedDB_scheme mutation" where
  "runTx (TxGet key d k) db tx = runTx (k (tx_Get db tx key d)) db tx"
| "runTx (TxPut key v k) db tx = (case tx_Put db tx key v of (e, tx') \<Rightarrow> runTx (k e) db tx')"
| "runTx (TxDelete key k) db tx = (case tx_Delete tx key of (e, tx') \<Rightarrow> runTx (k e) db tx')"
| "runTx (TxReturn v) db tx = (Returned v, tx)"
| "runTx (TxFail e) db tx = (Failed (errorOf e), tx)"
| "runTx (TxPanic msg) db tx = (Panicked msg, tx)"

text \<open>The deferred assignment runs however the callback ends.\<close>

definition runKeyedMutation :: "'s \<Rightarrow> KeyedTx \<Rightarrow> 's mutation \<Rightarrow> tx_outcome \<times> KeyedTx" where
  "runKeyedMutation db tx mut =
     (case mut db tx of (out, tx') \<Rightarrow> (out, tx'\<lparr>invalid := True\<rparr>))"

section \<open>Executing one command\<close>

record KeyedDecision =
  dSequence :: u64
  dCommandID :: bytes
  dApplied :: bool
  dCode :: bytes
  dResult :: bytes
  dDuplicate :: bool

definition zeroDecision :: KeyedDecision where
  "zeroDecision = \<lparr>dSequence = 0, dCommandID = [], dApplied = False, dCode = [], dResult = [], dDuplicate = False\<rparr>"

definition decision :: "keyedWALRecord \<Rightarrow> KeyedDecision" where
  "decision r = \<lparr>dSequence = rSequence r, dCommandID = rCommandID r, dApplied = rApplied r,
                 dCode = rCode r, dResult = rResult r, dDuplicate = False\<rparr>"

definition DecodeResult :: "KeyedDecision \<Rightarrow> dest \<Rightarrow> go_error option" where
  "DecodeResult d destination =
     (case destination of
        None \<Rightarrow> Some (Error ErrorInvalidInput ''decode_result'' ''destination is required'')
      | Some decodes \<Rightarrow>
          if dResult d = [] then Some (Error ErrorInvalidInput ''decode_result'' ''decision has no result'')
          else if decodes (dResult d) then None
          else Some (Error ErrorInvalidInput ''decode_result'' ''unmarshal''))"

record 's keyedCommitRequest =
  qCtx :: ctx
  qCommand :: bytes
  qMutation :: "'s mutation option"

text \<open>A command is refused, answered from the retained decisions, to be persisted, or panics.\<close>

datatype exec_outcome =
    ExecError go_error
  | ExecDuplicate KeyedDecision
  | ExecPersist keyedWALRecord
  | ExecPanic string

definition executeKeyed :: "'a KeyedDB_scheme \<Rightarrow> 'a KeyedDB_scheme keyedCommitRequest \<Rightarrow> exec_outcome" where
  "executeKeyed db request =
     (let command = qCommand request in
      if TrimSpace command = []
      then ExecError (Error ErrorInvalidInput ''submit_keyed'' ''command ID is required'')
      else if keyedMaxIdentityBytes < length command
      then ExecError (Error ErrorCapacity ''submit_keyed'' ''command ID exceeds 4 KiB'')
      else case qMutation request of
          None \<Rightarrow> ExecError (Error ErrorInvalidInput ''submit_keyed'' ''mutation is required'')
        | Some mut \<Rightarrow>
            (case fmlookup (dedupe db) command of
               Some prior \<Rightarrow> ExecDuplicate ((decision prior)\<lparr>dDuplicate := True\<rparr>)
             | None \<Rightarrow>
                 let record = zeroRecord\<lparr>rSequence := sequence db + 1, rCommandID := command, rApplied := True\<rparr> in
                 (case runKeyedMutation db newTx mut of
                    (Panicked msg, tx) \<Rightarrow> ExecPanic msg
                  | (Failed mutationErr, tx) \<Rightarrow>
                      (case asRejection mutationErr of
                         None \<Rightarrow> ExecError mutationErr
                       | Some (code, result) \<Rightarrow>
                           if TrimSpace code = []
                           then ExecError (Error ErrorInvalidInput ''submit_keyed'' ''rejection code is required'')
                           else if keyedMaxCodeBytes < length code
                           then ExecError (Error ErrorCapacity ''submit_keyed'' ''rejection code exceeds 1 KiB'')
                           else if MaxValueBytes (options db) < int (length result)
                           then ExecError (Error ErrorCapacity ''submit_keyed'' ''rejection result exceeds MaxValueBytes'')
                           else ExecPersist (record\<lparr>rApplied := False, rCode := code, rResult := result\<rparr>))
                  | (Returned result, tx) \<Rightarrow>
                      (case json_Marshal result of
                         None \<Rightarrow> ExecError (Error ErrorInvalidInput ''submit_keyed'' ''encode result'')
                       | Some encoded \<Rightarrow>
                           if MaxValueBytes (options db) < int (length encoded)
                           then ExecError (Error ErrorCapacity ''submit_keyed'' ''result exceeds MaxValueBytes'')
                           else case finalize db tx of
                               Inl e \<Rightarrow> ExecError e
                             | Inr mutations \<Rightarrow>
                                 ExecPersist (record\<lparr>rResult := encoded, rMutations := mutations\<rparr>)))))"

record keyedCommitResult =
  crDecision :: KeyedDecision
  crErr :: "go_error option"
  crPanic :: "string option"

definition zeroResult :: keyedCommitResult where
  "zeroResult = \<lparr>crDecision = zeroDecision, crErr = None, crPanic = None\<rparr>"

text \<open>\<open>recover\<close> turns a panic into a value and forgets every other result.\<close>

definition safelyExecuteKeyed ::
  "'a KeyedDB_scheme \<Rightarrow> 'a KeyedDB_scheme keyedCommitRequest \<Rightarrow> keyedCommitResult \<times> keyedWALRecord option" where
  "safelyExecuteKeyed db request =
     (case executeKeyed db request of
        ExecError e \<Rightarrow> (zeroResult\<lparr>crErr := Some e\<rparr>, None)
      | ExecDuplicate d \<Rightarrow> (zeroResult\<lparr>crDecision := d\<rparr>, None)
      | ExecPersist r \<Rightarrow> (zeroResult\<lparr>crDecision := decision r\<rparr>, Some r)
      | ExecPanic msg \<Rightarrow> (zeroResult\<lparr>crPanic := Some msg\<rparr>, None))"

section \<open>Group commit\<close>

definition keyedMaxCommitGroup :: nat where
  "keyedMaxCommitGroup = 64"

abbreviation poisonedError :: "string \<Rightarrow> go_error" where
  "poisonedError op \<equiv> Error ErrorPoisoned op ''an earlier durability failure made the database unsafe; close and reopen the database''"

abbreviation closedError :: "string \<Rightarrow> go_error" where
  "closedError op \<equiv> Error ErrorClosed op ''database is closed''"

text \<open>The local variables of \<open>processCommitGroup\<close>; \<open>staged\<close> is a nil map for a group of one.\<close>

record 's groupState =
  gDB :: 's
  gWorld :: world
  gResults :: "keyedCommitResult list"
  gDurable :: "bool list"
  gStaged :: "(bytes, nat) fmap option"
  gFrames :: u64
  gStorageErr :: "go_error option"

definition answer :: "keyedCommitResult \<Rightarrow> bool \<Rightarrow> 's groupState \<Rightarrow> 's groupState" where
  "answer res dur g = g\<lparr>gResults := gResults g @ [res], gDurable := gDurable g @ [dur]\<rparr>"

definition stagedIndex :: "'s groupState \<Rightarrow> bytes \<Rightarrow> nat option" where
  "stagedIndex g command = (case gStaged g of None \<Rightarrow> None | Some m \<Rightarrow> fmlookup m command)"

definition commitOne ::
  "'a KeyedDB_scheme keyedHooks \<Rightarrow> 'a KeyedDB_scheme keyedCommitRequest \<Rightarrow> 'a KeyedDB_scheme groupState
    \<Rightarrow> 'a KeyedDB_scheme groupState" where
  "commitOne hooks request g =
     (let db = gDB g in
      if poisoned db then answer (zeroResult\<lparr>crErr := Some (poisonedError ''submit_keyed'')\<rparr>) False g
      else case qCtx request of
          CtxDone e \<Rightarrow> answer (zeroResult\<lparr>crErr := Some e\<rparr>) False g
        | _ \<Rightarrow>
          (case (if fmlookup (dedupe db) (qCommand request) \<noteq> None
                 then stagedIndex g (qCommand request) else None) of
             Some original \<Rightarrow>
               answer (zeroResult\<lparr>crDecision := (crDecision (gResults g ! original))\<lparr>dDuplicate := True\<rparr>\<rparr>) True g
           | None \<Rightarrow>
               (case safelyExecuteKeyed db request of
                  (res, None) \<Rightarrow> answer res False g
                | (res, Some r) \<Rightarrow>
                    (case appendKeyedFrame hooks r db (gWorld g) of
                       (Some e, db', w') \<Rightarrow>
                         (answer (res\<lparr>crErr := Some e\<rparr>) False g)
                           \<lparr>gDB := db'\<lparr>poisoned := True\<rparr>, gWorld := w', gStorageErr := Some e\<rparr>
                     | (None, db', w') \<Rightarrow>
                         (answer res True g)
                           \<lparr>gDB := applyKeyed (afterApply hooks) r db', gWorld := w',
                            gStaged := map_option (fmupd (rCommandID r) (length (gResults g))) (gStaged g),
                            gFrames := gFrames g + 1\<rparr>))))"

definition groupStart :: "'a KeyedDB_scheme \<Rightarrow> world \<Rightarrow> 'a KeyedDB_scheme keyedCommitRequest list \<Rightarrow> 'a KeyedDB_scheme groupState" where
  "groupStart db w reqs =
     \<lparr>gDB = db, gWorld = w, gResults = [], gDurable = [],
      gStaged = (if 1 < length reqs then Some fmempty else None), gFrames = 0, gStorageErr = None\<rparr>"

definition countCommit :: "u64 \<Rightarrow> keyedCommitStats \<Rightarrow> keyedCommitStats" where
  "countCommit frames s =
     s\<lparr>syncCalls := syncCalls s + 1, framesSynced := framesSynced s + frames, groups := groups s + 1,
       groupSizes := (groupSizes s)[unat frames := groupSizes s ! unat frames + 1],
       maxGroup := (if frames \<le> maxGroup s then maxGroup s else frames)\<rparr>"

text \<open>The shared \<open>Sync\<close> of the group, and what becomes of the results that depend on it.\<close>

definition groupFinish ::
  "'a KeyedDB_scheme keyedHooks \<Rightarrow> 'a KeyedDB_scheme groupState
    \<Rightarrow> keyedCommitResult list \<times> 'a KeyedDB_scheme \<times> world" where
  "groupFinish hooks g =
     (let (storageErr, db, w) =
            (if 0 < gFrames g \<and> gStorageErr g = None
             then case syncKeyed hooks (gWorld g) of
                 (Some e, w') \<Rightarrow> (Some e, (gDB g)\<lparr>poisoned := True\<rparr>, w')
               | (None, w') \<Rightarrow> (None, gDB g, w')
             else (gStorageErr g, gDB g, gWorld g))
      in case storageErr of
          Some e \<Rightarrow>
            (map2 (\<lambda>res dur. if dur then zeroResult\<lparr>crErr := Some e\<rparr> else res) (gResults g) (gDurable g), db, w)
        | None \<Rightarrow>
            (gResults g,
             if 0 < gFrames g then db\<lparr>commitStats := countCommit (gFrames g) (commitStats db)\<rparr> else db, w))"

definition processCommitGroup ::
  "'a KeyedDB_scheme keyedHooks \<Rightarrow> 'a KeyedDB_scheme keyedCommitRequest list \<Rightarrow> 'a KeyedDB_scheme \<Rightarrow> world
    \<Rightarrow> keyedCommitResult list \<times> 'a KeyedDB_scheme \<times> world" where
  "processCommitGroup hooks reqs db w =
     groupFinish hooks (fold (commitOne hooks) reqs (groupStart db w reqs))"

section \<open>The calls of the database\<close>

text \<open>
  The checks \<open>SubmitKeyed\<close> makes before a request is queued, and the call as a client sees it when
  its request is the whole group.
\<close>

definition submitCheck :: "'a KeyedDB_scheme \<Rightarrow> ctx \<Rightarrow> go_error option" where
  "submitCheck db c =
     (if closed db then Some (closedError ''submit_keyed'')
      else if c = CtxNil then Some (Error ErrorInvalidInput ''submit_keyed'' ''nil context'')
      else if poisoned db then Some (poisonedError ''submit_keyed'')
      else None)"

definition SubmitKeyed ::
  "'a KeyedDB_scheme keyedHooks \<Rightarrow> 'a KeyedDB_scheme keyedCommitRequest \<Rightarrow> 'a KeyedDB_scheme \<Rightarrow> world
    \<Rightarrow> keyedCommitResult \<times> 'a KeyedDB_scheme \<times> world" where
  "SubmitKeyed hooks request db w =
     (case submitCheck db (qCtx request) of
        Some e \<Rightarrow> (zeroResult\<lparr>crErr := Some e\<rparr>, db, w)
      | None \<Rightarrow>
          (case processCommitGroup hooks [request] db w of (results, db', w') \<Rightarrow> (hd results, db', w')))"

text \<open>\<open>enterKeyed\<close> up to the admission token, which is free when no other call is running.\<close>

definition enterKeyed :: "'a KeyedDB_scheme \<Rightarrow> ctx \<Rightarrow> string \<Rightarrow> go_error option" where
  "enterKeyed db c op =
     (if closed db then Some (closedError op)
      else if c = CtxNil then Some (Error ErrorInvalidInput op ''nil context'')
      else if poisoned db then Some (poisonedError op)
      else case c of CtxDone e \<Rightarrow> Some e | _ \<Rightarrow> None)"

definition GetKeyed :: "'a KeyedDB_scheme \<Rightarrow> ctx \<Rightarrow> bytes \<Rightarrow> dest \<Rightarrow> bytes option res" where
  "GetKeyed db c key destination =
     (case enterKeyed db c ''get_keyed'' of
        Some e \<Rightarrow> Inl e
      | None \<Rightarrow>
          if destination = None \<or> key = []
          then Inl (Error ErrorInvalidInput ''get_keyed'' ''key and destination are required'')
          else if keyedMaxKeyBytes < length key
          then Inl (Error ErrorCapacity ''get_keyed'' ''key exceeds 4 KiB'')
          else case fmlookup (records db) key of
              None \<Rightarrow> Inr None
            | Some val \<Rightarrow>
                if the destination val then Inr (Some val)
                else Inl (Error ErrorCorruption ''get_keyed'' ''unmarshal''))"

definition SnapshotKeyed ::
  "ctx \<Rightarrow> 'a KeyedDB_scheme \<Rightarrow> world \<Rightarrow> go_error option \<times> 'a KeyedDB_scheme \<times> world" where
  "SnapshotKeyed c db w =
     (case enterKeyed db c ''snapshot_keyed'' of
        Some e \<Rightarrow> (Some e, db, w)
      | None \<Rightarrow>
          (case snapshotKeyed db w of
             (Some e, db', w') \<Rightarrow> (Some e, db'\<lparr>poisoned := True\<rparr>, w')
           | (None, db', w') \<Rightarrow> (None, db', w')))"

definition CloseKeyed :: "'a KeyedDB_scheme \<Rightarrow> world \<Rightarrow> go_error option \<times> 'a KeyedDB_scheme \<times> world" where
  "CloseKeyed db w =
     (if closed db then (None, db, w)
      else let db1 = db\<lparr>closed := True\<rparr> in
        if poisoned db1 then walClose db1 w
        else case snapshotKeyed db1 w of
            (Some e, db2, w2) \<Rightarrow> (case walClose db2 w2 of (_, db3, w3) \<Rightarrow> (Some e, db3, w3))
          | (None, db2, w2) \<Rightarrow> walClose db2 w2)"

definition freshKeyed :: "KeyedOptions \<Rightarrow> bytes \<Rightarrow> KeyedDB" where
  "freshKeyed opts fmt =
     \<lparr>options = opts, records = fmempty, dedupe = fmempty, dedupeIDs = [], sequence = 0,
      walOpen = False, walOffset = 0, closed = False, poisoned = False, format = fmt,
      commitStats = \<lparr>syncCalls = 0, framesSynced = 0, groups = 0, maxGroup = 0,
                     groupSizes = replicate (keyedMaxCommitGroup + 1) 0\<rparr>\<rparr>"

definition openKeyed ::
  "ctx \<Rightarrow> bytes \<Rightarrow> KeyedOptions \<Rightarrow> bytes \<Rightarrow> world \<Rightarrow> KeyedDB res \<times> world" where
  "openKeyed c path opts fmt w =
     (case c of
        CtxNil \<Rightarrow> (Inl (Error ErrorInvalidInput ''open_keyed'' ''nil context''), w)
      | CtxDone e \<Rightarrow> (Inl e, w)
      | CtxLive \<Rightarrow>
          (case normalizeKeyedOptions opts of
             Inl e \<Rightarrow> (Inl e, w)
           | Inr normalized \<Rightarrow>
               if TrimSpace path = []
               then (Inl (Error ErrorInvalidInput ''open_keyed'' ''path is required''), w)
               else openStorage (freshKeyed normalized fmt) w))"

definition OpenKeyed :: "ctx \<Rightarrow> bytes \<Rightarrow> KeyedOptions \<Rightarrow> world \<Rightarrow> KeyedDB res \<times> world" where
  "OpenKeyed c path opts w = openKeyed c path opts keyedFormatContents w"

end
