(* ===== verification/Dedupe_Window.thy ===== *)
theory Dedupe_Window
  imports Octet_Base
begin

text \<open>
  The contract of exact deduplication. Both engines retain the decisions of the most recent commands
  only: the keyed database in the map \<open>dedupe\<close> with the queue \<open>dedupeIDs\<close>, the core engine in
  \<open>results\<close> with the compacting ring \<open>order\<close>, \<open>orderHead\<close>. What a client can rely on is the same: the
  retained decisions are a window on the history, its newest \<open>horizon\<close> entries.
\<close>

definition lastn :: "nat \<Rightarrow> 'a list \<Rightarrow> 'a list" where
  "lastn n xs = drop (length xs - n) xs"

lemma lastn_append_one:
  "length xs \<le> n \<Longrightarrow> lastn n (xs @ [x]) = (if length xs < n then xs @ [x] else tl (xs @ [x]))"
  by (cases xs) (auto simp: lastn_def)

lemma lastn_lastn_append: "lastn n (lastn n xs @ ys) = lastn n (xs @ ys)"
proof (cases "length xs \<le> n")
  case False
  then have "length xs + length ys - (length xs - n + n) + (length xs - n) = length xs + length ys - n"
    by simp
  then show ?thesis by (simp add: lastn_def)
qed (simp add: lastn_def)

lemma length_lastn [simp]: "length (lastn n xs) = min n (length xs)"
  by (auto simp: lastn_def)

lemma set_lastn: "set (lastn n xs) \<subseteq> set xs"
  by (auto simp: lastn_def dest: in_set_dropD)

lemma lastn_all: "length xs \<le> n \<Longrightarrow> lastn n xs = xs"
  by (simp add: lastn_def)

lemma lastn_map: "lastn n (map f xs) = map f (lastn n xs)"
  by (simp add: lastn_def drop_map)

locale dedupe_window =
  fixes inv :: "'s \<Rightarrow> bool"
    and horizon :: "'s \<Rightarrow> nat"
    and window :: "'s \<Rightarrow> ('i \<times> 'v) list"
    and retained :: "'s \<Rightarrow> 'i \<Rightarrow> 'v option"
    and ident :: "'x \<Rightarrow> 'i"
    and decided :: "'x \<Rightarrow> 'v"
    and remember :: "'x \<Rightarrow> 's \<Rightarrow> 's"
  assumes horizon_pos: "inv s \<Longrightarrow> 0 < horizon s"
    and window_bound: "inv s \<Longrightarrow> length (window s) \<le> horizon s"
    and window_distinct: "inv s \<Longrightarrow> distinct (map fst (window s))"
    and retained_window: "inv s \<Longrightarrow> retained s i = map_of (window s) i"
    and remember_inv: "inv s \<Longrightarrow> retained s (ident x) = None \<Longrightarrow> inv (remember x s)"
    and remember_horizon: "inv s \<Longrightarrow> horizon (remember x s) = horizon s"
    and remember_window:
      "inv s \<Longrightarrow> retained s (ident x) = None \<Longrightarrow>
       window (remember x s) = lastn (horizon s) (window s @ [(ident x, decided x)])"
begin

text \<open>A history is admitted when no command repeats an identity that is still retained.\<close>

fun admits :: "'s \<Rightarrow> 'x list \<Rightarrow> bool" where
  "admits s [] = True"
| "admits s (x # xs) = (retained s (ident x) = None \<and> admits (remember x s) xs)"

lemma fold_remember:
  assumes "inv s" "admits s xs"
  shows "inv (fold remember xs s) \<and> horizon (fold remember xs s) = horizon s
    \<and> window (fold remember xs s) = lastn (horizon s) (window s @ map (\<lambda>x. (ident x, decided x)) xs)"
  using assms
proof (induction xs arbitrary: s)
  case Nil
  then show ?case using window_bound by (simp add: lastn_all)
next
  case (Cons x xs)
  then have x: "retained s (ident x) = None" "admits (remember x s) xs" by simp_all
  have inv: "inv (remember x s)" using Cons.prems(1) x(1) by (rule remember_inv)
  show ?case
    using Cons.IH [OF inv x(2)] remember_window [OF Cons.prems(1) x(1)] remember_horizon [OF Cons.prems(1)]
    by (simp add: lastn_lastn_append)
qed

text \<open>A decision is found again as long as fewer than \<open>horizon\<close> later commands were decided.\<close>

lemma retained_recent:
  assumes s: "inv s" and adm: "admits s (x # xs)" and "length xs < horizon s"
  shows "retained (fold remember (x # xs) s) (ident x) = Some (decided x)"
proof -
  let ?pair = "\<lambda>x. (ident x, decided x)"
  let ?s' = "fold remember (x # xs) s"
  have f: "inv ?s'" "window ?s' = lastn (horizon s) (window s @ map ?pair (x # xs))"
    using fold_remember [OF s adm] by blast+
  have "lastn (horizon s) (window s @ map ?pair (x # xs))
      = drop (length (window s) + Suc (length xs) - horizon s) (window s) @ ?pair x # map ?pair xs"
    using assms(3) by (simp add: lastn_def)
  then have "?pair x \<in> set (window ?s')" using f(2) by simp
  then show ?thesis using f(1) by (simp add: retained_window window_distinct)
qed

text \<open>After \<open>horizon\<close> later commands with other identities it is forgotten.\<close>

lemma retained_expired:
  assumes s: "inv s" and adm: "admits s xs" and "horizon s \<le> length xs"
    and "i \<notin> ident ` set xs"
  shows "retained (fold remember xs s) i = None"
proof -
  have f: "inv (fold remember xs s)"
    "window (fold remember xs s) = lastn (horizon s) (window s @ map (\<lambda>x. (ident x, decided x)) xs)"
    using fold_remember [OF s adm] by blast+
  have "set (window (fold remember xs s)) \<subseteq> (\<lambda>x. (ident x, decided x)) ` set xs"
    using assms(3) f(2) set_lastn [of "horizon s" "map (\<lambda>x. (ident x, decided x)) xs"]
    by (auto simp: lastn_def dest!: in_set_dropD)
  then have "map_of (window (fold remember xs s)) i = None"
    using assms(4) by (auto simp: map_of_eq_None_iff)
  then show ?thesis using f(1) by (simp add: retained_window)
qed

end

end
