(* ===== verification/Keyed_Laws.thy ===== *)
theory Keyed_Laws
  imports Keyed_Codec_Laws Keyed_Engine Dedupe_Window
begin

text \<open>
  The laws of the keyed database: what a transaction's writes become, the invariant of the state and
  its preservation by every operation, and that a record the engine persists is one that recovery
  accepts.
\<close>

section \<open>Mutation lists\<close>

definition mutationOf :: "bytes \<times> bytes option \<Rightarrow> keyedMutation" where
  "mutationOf kv = (case snd kv of
     None \<Rightarrow> \<lparr>mKey = fst kv, mValue = [], mDelete = True\<rparr>
   | Some v \<Rightarrow> \<lparr>mKey = fst kv, mValue = v, mDelete = False\<rparr>)"

definition mutationsOf :: "(bytes, bytes option) fmap \<Rightarrow> keyedMutation list" where
  "mutationsOf ws = map mutationOf (sorted_list_of_fmap ws)"

definition effect :: "keyedMutation \<Rightarrow> bytes option" where
  "effect m = (if mDelete m then None else Some (mValue m))"

definition mutBytes :: "keyedMutation list \<Rightarrow> nat" where
  "mutBytes ms = sum_list (map (\<lambda>m. length (mKey m) + length (mValue m)) ms)"

definition putBytes :: "keyedMutation list \<Rightarrow> nat" where
  "putBytes ms = mutBytes (filter (\<lambda>m. \<not> mDelete m) ms)"

lemma mutationOf_simps [simp]:
  "mKey (mutationOf kv) = fst kv" "mDelete (mutationOf kv) = (snd kv = None)"
  "effect (mutationOf kv) = snd kv"
  by (simp_all add: mutationOf_def effect_def split: option.split)

lemma keys_mutationsOf: "map mKey (mutationsOf ws) = map fst (sorted_list_of_fmap ws)"
  by (simp add: mutationsOf_def o_def)

lemma distinct_mutationsOf [simp]: "distinct (map mKey (mutationsOf ws))"
  unfolding keys_mutationsOf by (rule distinct_sorted_list_of_fmap)

lemma sorted_mutationsOf: "sorted (map mKey (mutationsOf ws))"
  unfolding keys_mutationsOf
  by (simp add: sorted_list_of_fmap_def o_def sorted_list_of_fset.rep_eq)

lemma finalizeLoop_eq:
  "finalizeLoop recs kvs c t ms =
     (countAfter recs (map mutationOf kvs) c, t + putBytes (map mutationOf kvs), ms @ map mutationOf kvs)"
  by (induction recs kvs c t ms rule: finalizeLoop.induct)
    (auto simp: mutationOf_def putBytes_def mutBytes_def)

lemma finalize_eq:
  "finalize db tx =
     (if MaxRecords (options db) < countAfter (records db) (mutationsOf (writes tx)) (int (fmsize (records db)))
      then Inl (Error ErrorCapacity ''submit_keyed'' ''record capacity exceeded'')
      else if MaxTransactionBytes (options db) < int (putBytes (mutationsOf (writes tx)))
      then Inl (Error ErrorCapacity ''submit_keyed'' ''transaction exceeds MaxTransactionBytes'')
      else Inr (mutationsOf (writes tx)))"
  by (simp add: finalize_def finalizeLoop_eq mutationsOf_def)

lemma lookup_applyMutations_other:
  "k \<notin> mKey ` set ms \<Longrightarrow> fmlookup (applyMutations ms recs) k = fmlookup recs k"
  by (induction ms arbitrary: recs) auto

lemma lookup_applyMutations:
  "distinct (map mKey ms) \<Longrightarrow> m \<in> set ms \<Longrightarrow> fmlookup (applyMutations ms recs) (mKey m) = effect m"
proof (induction ms arbitrary: recs)
  case (Cons a ms)
  show ?case
  proof (cases "m = a")
    case True
    then have "mKey m \<notin> mKey ` set ms" using Cons.prems(1) by simp
    then show ?thesis using True by (simp add: lookup_applyMutations_other effect_def)
  qed (use Cons in simp)
qed simp

text \<open>The committed writes are exactly the transaction's view.\<close>

lemma lookup_apply_mutationsOf:
  "fmlookup (applyMutations (mutationsOf ws) recs) k =
     (case fmlookup ws k of None \<Rightarrow> fmlookup recs k | Some v \<Rightarrow> v)"
proof (cases "fmlookup ws k")
  case None
  then have "k \<notin> fst ` set (sorted_list_of_fmap ws)"
    by (metis map_of_eq_None_iff map_of_sorted_list)
  then have "k \<notin> mKey ` set (mutationsOf ws)" by (simp add: mutationsOf_def image_image)
  then show ?thesis using None by (simp add: lookup_applyMutations_other)
next
  case (Some v)
  then have "(k, v) \<in> set (sorted_list_of_fmap ws)"
    by (metis map_of_SomeD map_of_sorted_list)
  then have "mutationOf (k, v) \<in> set (mutationsOf ws)" by (auto simp: mutationsOf_def)
  from lookup_applyMutations [OF distinct_mutationsOf this] show ?thesis using Some by simp
qed

lemma countAfter_cong:
  "(\<And>m. m \<in> set ms \<Longrightarrow> fmlookup recs' (mKey m) = fmlookup recs (mKey m)) \<Longrightarrow>
   countAfter recs' ms c = countAfter recs ms c"
  by (induction ms arbitrary: c) (auto simp: Let_def)

text \<open>The count that admission and recovery compare with \<open>MaxRecords\<close> is the number of records.\<close>

lemma size_applyMutations:
  "distinct (map mKey ms) \<Longrightarrow>
   int (fmsize (applyMutations ms recs)) = countAfter recs ms (int (fmsize recs))"
proof (induction ms arbitrary: recs)
  case (Cons m ms)
  let ?r = "if mDelete m then fmdrop (mKey m) recs else fmupd (mKey m) (mValue m) recs"
  have "countAfter ?r ms c = countAfter recs ms c" for c
    using Cons.prems by (intro countAfter_cong) auto
  moreover have "int (fmsize ?r) =
      (if mDelete m then (if fmlookup recs (mKey m) \<noteq> None then int (fmsize recs) - 1 else int (fmsize recs))
       else (if fmlookup recs (mKey m) = None then int (fmsize recs) + 1 else int (fmsize recs)))"
    using fmsize_pos [of recs "mKey m"]
    by (auto simp: fmsize_fmupd fmsize_fmdrop)
  ultimately show ?case using Cons by (auto simp: Let_def)
qed simp

section \<open>Transactions\<close>

definition tx_wf :: "'a KeyedDB_scheme \<Rightarrow> KeyedTx \<Rightarrow> bool" where
  "tx_wf db tx \<longleftrightarrow>
     (\<forall>k v. fmlookup (writes tx) k = Some v \<longrightarrow>
        k \<noteq> [] \<and> length k \<le> maxStoredKeyBytes db
        \<and> (\<forall>b. v = Some b \<longrightarrow> json_valid b \<and> int (length b) \<le> MaxValueBytes (options db)))"

definition rejection_ok :: "go_error \<Rightarrow> bool" where
  "rejection_ok e \<longleftrightarrow> (\<forall>code result. asRejection e = Some (code, result) \<longrightarrow> result = [] \<or> json_valid result)"

text \<open>What a callback may rely on in every state it is run in: the options and the file format.\<close>

definition config :: "'a KeyedDB_scheme \<Rightarrow> KeyedOptions \<times> bytes" where
  "config db = (options db, format db)"

definition txSound :: "KeyedOptions \<times> bytes \<Rightarrow> 'a KeyedDB_scheme mutation \<Rightarrow> bool" where
  "txSound cfg m \<longleftrightarrow>
     (\<forall>db tx. config db = cfg \<longrightarrow> tx_wf db tx \<longrightarrow>
        tx_wf db (snd (m db tx)) \<and> (\<forall>e. fst (m db tx) = Failed e \<longrightarrow> rejection_ok e))"

lemma tx_wf_newTx [simp]: "tx_wf db newTx"
  by (simp add: tx_wf_def newTx_def)

lemma keyedMaxKey_stored: "length k \<le> keyedMaxKeyBytes \<Longrightarrow> length k \<le> maxStoredKeyBytes db"
  by (simp add: maxStoredKeyBytes_def)

lemma tx_wf_write:
  "tx_wf db tx \<Longrightarrow> k \<noteq> [] \<Longrightarrow> length k \<le> maxStoredKeyBytes db \<Longrightarrow>
   (\<And>b. v = Some b \<Longrightarrow> json_valid b \<and> int (length b) \<le> MaxValueBytes (options db)) \<Longrightarrow>
   tx_wf db (tx\<lparr>writes := fmupd k v (writes tx)\<rparr>)"
  by (auto simp: tx_wf_def)

lemma json_Marshal_valid: "json_Marshal v = Some b \<Longrightarrow> json_valid b"
  by (auto simp: json_Marshal_def split: option.splits if_splits)

lemma tx_Put_wf: "tx_wf db tx \<Longrightarrow> tx_Put db tx k v = (e, tx') \<Longrightarrow> tx_wf db tx'"
  by (auto simp: tx_Put_def split: option.splits if_splits dest: json_Marshal_valid
      intro!: tx_wf_write keyedMaxKey_stored)

lemma tx_Delete_wf: "tx_wf db tx \<Longrightarrow> tx_Delete tx k = (e, tx') \<Longrightarrow> tx_wf db tx'"
  by (auto simp: tx_Delete_def split: option.splits if_splits intro!: tx_wf_write keyedMaxKey_stored)

lemma rejection_ok_errorOf: "rejection_ok (errorOf e)"
  by (induction e)
    (auto simp: rejection_ok_def Reject_def RejectWithResult_def split: option.splits dest: json_Marshal_valid)

lemma runTx_sound:
  "tx_wf db tx \<Longrightarrow>
   tx_wf db (snd (runTx p db tx)) \<and> (\<forall>e. fst (runTx p db tx) = Failed e \<longrightarrow> rejection_ok e)"
proof (induction p arbitrary: tx)
  case (TxPut k v c)
  then show ?case by (auto split: prod.split dest: tx_Put_wf)
next
  case (TxDelete k c)
  then show ?case by (auto split: prod.split dest: tx_Delete_wf)
qed (auto simp: rejection_ok_errorOf)

lemma txSound_runTx [simp, intro]: "txSound cfg (runTx p)"
  using runTx_sound by (auto simp: txSound_def)

text \<open>Reads inside a transaction see its own writes, then the committed records.\<close>

definition view :: "'a KeyedDB_scheme \<Rightarrow> KeyedTx \<Rightarrow> bytes \<Rightarrow> bytes option" where
  "view db tx k = (case fmlookup (writes tx) k of None \<Rightarrow> fmlookup (records db) k | Some v \<Rightarrow> v)"

lemma tx_Get_view:
  assumes "\<not> invalid tx" "k \<noteq> []" "length k \<le> keyedMaxKeyBytes"
    and "\<And>v. view db tx k = Some v \<Longrightarrow> decodes v"
  shows "tx_Get db tx k (Some decodes) = Inr (view db tx k)"
  using assms by (auto simp: tx_Get_def tx_valid_def view_def split: option.splits)

lemma tx_Put_view:
  "tx_Put db tx k v = (None, tx') \<Longrightarrow> view db tx' = (view db tx)(k := json_Marshal v)"
  by (auto simp: tx_Put_def view_def fun_eq_iff split: option.splits if_splits)

lemma tx_Delete_view: "tx_Delete tx k = (None, tx') \<Longrightarrow> view db tx' = (view db tx)(k := None)"
  by (auto simp: tx_Delete_def view_def fun_eq_iff split: option.splits if_splits)

section \<open>Validation\<close>

definition mutation_ok :: "'a KeyedDB_scheme \<Rightarrow> keyedMutation \<Rightarrow> bool" where
  "mutation_ok db m \<longleftrightarrow>
     mKey m \<noteq> [] \<and> length (mKey m) \<le> maxStoredKeyBytes db \<and> (mDelete m \<longrightarrow> mValue m = [])
     \<and> int (length (mValue m)) \<le> MaxValueBytes (options db) \<and> (\<not> mDelete m \<longrightarrow> json_valid (mValue m))"

lemma validateMutations_iff:
  "validateMutations db ms seen t = Inr n \<longleftrightarrow>
     list_all (mutation_ok db) ms \<and> distinct (map mKey ms) \<and> (\<forall>m \<in> set ms. mKey m |\<notin>| seen)
     \<and> n = t + mutBytes ms"
proof (induction db ms seen t rule: validateMutations.induct)
  case (2 db m ms seen t)
  show ?case
  proof (cases "mutation_ok db m \<and> mKey m |\<notin>| seen")
    case True
    then have "validateMutations db (m # ms) seen t
        = validateMutations db ms (finsert (mKey m) seen) (t + length (mKey m) + length (mValue m))"
      by (auto simp: mutation_ok_def)
    moreover have "validateMutations db ms (finsert (mKey m) seen) (t + length (mKey m) + length (mValue m)) = Inr n
      \<longleftrightarrow> list_all (mutation_ok db) ms \<and> distinct (map mKey ms) \<and> (\<forall>x \<in> set ms. mKey x |\<notin>| finsert (mKey m) seen)
        \<and> n = t + length (mKey m) + length (mValue m) + mutBytes ms"
      by (rule 2) (use True in \<open>auto simp: mutation_ok_def\<close>)
    ultimately show ?thesis using True by (auto simp: mutBytes_def image_iff)
  next
    case False
    then show ?thesis by (auto simp: mutation_ok_def)
  qed
qed (auto simp: mutBytes_def)

definition record_ok :: "'a KeyedDB_scheme \<Rightarrow> keyedWALRecord \<Rightarrow> bool" where
  "record_ok db r \<longleftrightarrow>
     rCommandID r \<noteq> [] \<and> length (rCommandID r) \<le> keyedMaxIdentityBytes
     \<and> length (rCode r) \<le> keyedMaxCodeBytes
     \<and> int (length (rResult r)) \<le> MaxValueBytes (options db)
     \<and> (rResult r = [] \<or> json_valid (rResult r))
     \<and> (rApplied r \<or> rMutations r = [])
     \<and> list_all (mutation_ok db) (rMutations r) \<and> distinct (map mKey (rMutations r))"

lemma validateKeyedRecord_iff:
  "validateKeyedRecord db r = None \<longleftrightarrow>
     record_ok db r \<and> int (mutBytes (rMutations r)) \<le> MaxTransactionBytes (options db)"
proof (cases "validateMutations db (rMutations r) {||} 0")
  case (Inl e)
  then have "\<not> (list_all (mutation_ok db) (rMutations r) \<and> distinct (map mKey (rMutations r)))"
    using validateMutations_iff [of db "rMutations r" "{||}" 0 "mutBytes (rMutations r)"] by auto
  then show ?thesis using Inl by (auto simp: validateKeyedRecord_def record_ok_def)
next
  case (Inr n)
  then have "list_all (mutation_ok db) (rMutations r)" "distinct (map mKey (rMutations r))"
    "n = mutBytes (rMutations r)"
    by (auto simp: validateMutations_iff)
  then show ?thesis using Inr by (auto simp: validateKeyedRecord_def record_ok_def not_less)
qed

lemma validateKeyedApply_iff:
  "distinct (map mKey (rMutations r)) \<Longrightarrow>
   validateKeyedApply db r = None \<longleftrightarrow>
     (rApplied r \<longrightarrow> int (fmsize (applyMutations (rMutations r) (records db))) \<le> MaxRecords (options db))"
  by (auto simp: validateKeyedApply_def size_applyMutations)

section \<open>What the engine persists\<close>

definition request_ok :: "KeyedOptions \<times> bytes \<Rightarrow> 'a KeyedDB_scheme keyedCommitRequest \<Rightarrow> bool" where
  "request_ok cfg q \<longleftrightarrow> (\<forall>m. qMutation q = Some m \<longrightarrow> txSound cfg m)"

lemma mutation_ok_mutationsOf: "tx_wf db tx \<Longrightarrow> 0 \<le> MaxValueBytes (options db) \<Longrightarrow>
  list_all (mutation_ok db) (mutationsOf (writes tx))"
proof -
  assume wf: "tx_wf db tx" and nn: "0 \<le> MaxValueBytes (options db)"
  have "mutation_ok db (mutationOf kv)" if "kv \<in> set (sorted_list_of_fmap (writes tx))" for kv
  proof -
    obtain k v where kv: "kv = (k, v)" by (cases kv)
    have "map_of (sorted_list_of_fmap (writes tx)) k = Some v"
      using that kv distinct_sorted_list_of_fmap by (intro map_of_is_SomeI) auto
    then show ?thesis
      using wf nn kv by (auto simp: tx_wf_def mutation_ok_def mutationOf_def split: option.splits)
  qed
  then show ?thesis by (auto simp: mutationsOf_def list_all_iff)
qed

lemma runKeyedMutation_wf:
  "txSound (config db) m \<Longrightarrow> runKeyedMutation db newTx m = (out, tx) \<Longrightarrow>
   tx_wf db tx \<and> (\<forall>e. out = Failed e \<longrightarrow> rejection_ok e)"
proof -
  assume m: "txSound (config db) m" "runKeyedMutation db newTx m = (out, tx)"
  obtain tx1 where tx1: "m db newTx = (out, tx1)" "tx = tx1\<lparr>invalid := True\<rparr>"
    using m(2) by (auto simp: runKeyedMutation_def split: prod.splits)
  then have "tx_wf db tx1" "\<forall>e. out = Failed e \<longrightarrow> rejection_ok e"
    using m(1) tx_wf_newTx [of db] unfolding txSound_def by (metis snd_conv, metis fst_conv)
  then show ?thesis using tx1(2) by (simp add: tx_wf_def)
qed

lemma executeKeyed_run:
  assumes "executeKeyed db q = ExecPersist r"
  obtains m out tx where "qMutation q = Some m" "qCommand q \<noteq> []"
    "length (qCommand q) \<le> keyedMaxIdentityBytes" "fmlookup (dedupe db) (qCommand q) = None"
    "runKeyedMutation db newTx m = (out, tx)"
proof -
  have "TrimSpace (qCommand q) \<noteq> []"
    using assms by (auto simp: executeKeyed_def Let_def)
  then have "qCommand q \<noteq> []" using TrimSpace_Nil by auto
  moreover have "length (qCommand q) \<le> keyedMaxIdentityBytes"
    using assms by (auto simp: executeKeyed_def Let_def split: if_splits)
  moreover obtain m where m: "qMutation q = Some m"
    using assms by (auto simp: executeKeyed_def Let_def split: if_splits option.splits)
  moreover have "fmlookup (dedupe db) (qCommand q) = None"
    using assms m by (cases "fmlookup (dedupe db) (qCommand q)") (auto simp: executeKeyed_def Let_def split: if_splits)
  ultimately show ?thesis using that by fastforce
qed

abbreviation newRecord :: "'a KeyedDB_scheme \<Rightarrow> bytes \<Rightarrow> keyedWALRecord" where
  "newRecord db i \<equiv> zeroRecord\<lparr>rSequence := sequence db + 1, rCommandID := i, rApplied := True\<rparr>"

lemma executeKeyed_record:
  assumes e: "executeKeyed db q = ExecPersist r" and m: "qMutation q = Some m"
    and run: "runKeyedMutation db newTx m = (out, tx)"
  shows "(\<exists>e code result. out = Failed e \<and> asRejection e = Some (code, result)
      \<and> r = (newRecord db (qCommand q))\<lparr>rApplied := False, rCode := code, rResult := result\<rparr>
      \<and> length code \<le> keyedMaxCodeBytes \<and> int (length result) \<le> MaxValueBytes (options db))
    \<or> (\<exists>v encoded. out = Returned v \<and> json_Marshal v = Some encoded
      \<and> r = (newRecord db (qCommand q))\<lparr>rResult := encoded, rMutations := mutationsOf (writes tx)\<rparr>
      \<and> int (length encoded) \<le> MaxValueBytes (options db)
      \<and> finalize db tx = Inr (mutationsOf (writes tx)))"
proof -
  have d: "fmlookup (dedupe db) (qCommand q) = None"
    using e m by (cases "fmlookup (dedupe db) (qCommand q)") (auto simp: executeKeyed_def Let_def split: if_splits)
  have x: "(case out of
        Panicked msg \<Rightarrow> ExecPanic msg
      | Failed mutationErr \<Rightarrow>
          (case asRejection mutationErr of
             None \<Rightarrow> ExecError mutationErr
           | Some (code, result) \<Rightarrow>
               if TrimSpace code = []
               then ExecError (Error ErrorInvalidInput ''submit_keyed'' ''rejection code is required'')
               else if keyedMaxCodeBytes < length code
               then ExecError (Error ErrorCapacity ''submit_keyed'' ''rejection code exceeds 1 KiB'')
               else if MaxValueBytes (options db) < int (length result)
               then ExecError (Error ErrorCapacity ''submit_keyed'' ''rejection result exceeds MaxValueBytes'')
               else ExecPersist ((newRecord db (qCommand q))\<lparr>rApplied := False, rCode := code, rResult := result\<rparr>))
      | Returned result \<Rightarrow>
          (case json_Marshal result of
             None \<Rightarrow> ExecError (Error ErrorInvalidInput ''submit_keyed'' ''encode result'')
           | Some encoded \<Rightarrow>
               if MaxValueBytes (options db) < int (length encoded)
               then ExecError (Error ErrorCapacity ''submit_keyed'' ''result exceeds MaxValueBytes'')
               else case finalize db tx of
                   Inl e \<Rightarrow> ExecError e
                 | Inr mutations \<Rightarrow>
                     ExecPersist ((newRecord db (qCommand q))\<lparr>rResult := encoded, rMutations := mutations\<rparr>)))
      = ExecPersist r"
    using e by (cases out) (simp_all add: executeKeyed_def Let_def m d run split: if_splits)
  show ?thesis
  proof (cases out)
    case (Returned v)
    then obtain encoded where "json_Marshal v = Some encoded"
      using x by (auto split: if_splits option.splits)
    then show ?thesis using x Returned
      by (auto simp: finalize_eq split: if_splits)
  next
    case (Failed e')
    then obtain code result where "asRejection e' = Some (code, result)"
      using x by (auto split: if_splits option.splits)
    then show ?thesis using x Failed by (auto split: if_splits)
  next
    case Panicked
    then show ?thesis using x by (auto split: if_splits)
  qed
qed

text \<open>A persisted record is well formed, fits the state, and carries the next sequence number.\<close>

lemma executeKeyed_persist:
  assumes "executeKeyed db q = ExecPersist r" "request_ok (config db) q" "0 \<le> MaxValueBytes (options db)"
  shows "record_ok db r" "validateKeyedApply db r = None"
    and "rSequence r = sequence db + 1" "rCommandID r = qCommand q" "fmlookup (dedupe db) (qCommand q) = None"
    and "int (putBytes (rMutations r)) \<le> MaxTransactionBytes (options db) \<or> rMutations r = []"
    and "sorted (map mKey (rMutations r))"
proof -
  obtain m out tx where m: "qMutation q = Some m" "qCommand q \<noteq> []"
    "length (qCommand q) \<le> keyedMaxIdentityBytes" "fmlookup (dedupe db) (qCommand q) = None"
    and run: "runKeyedMutation db newTx m = (out, tx)"
    using executeKeyed_run [OF assms(1)] by blast
  have wf: "tx_wf db tx" "\<And>e. out = Failed e \<Longrightarrow> rejection_ok e"
    using runKeyedMutation_wf [OF _ run] assms(2) m(1) by (auto simp: request_ok_def)
  consider (reject) code result where
      "r = (newRecord db (qCommand q))\<lparr>rApplied := False, rCode := code, rResult := result\<rparr>"
      "length code \<le> keyedMaxCodeBytes" "int (length result) \<le> MaxValueBytes (options db)"
      "result = [] \<or> json_valid result"
    | (applied) encoded where
      "r = (newRecord db (qCommand q))\<lparr>rResult := encoded, rMutations := mutationsOf (writes tx)\<rparr>"
      "json_valid encoded" "int (length encoded) \<le> MaxValueBytes (options db)"
      "finalize db tx = Inr (mutationsOf (writes tx))"
    using executeKeyed_record [OF assms(1) m(1) run] wf(2)
    by (auto simp: rejection_ok_def dest: json_Marshal_valid)
  note cs = this
  show "record_ok db r"
    using cs
  proof cases
    case reject
    then show ?thesis using m(2,3) by (simp add: record_ok_def zeroRecord_def)
  next
    case applied
    then show ?thesis using m(2,3) mutation_ok_mutationsOf [OF wf(1) assms(3)]
      by (simp add: record_ok_def zeroRecord_def keyedMaxCodeBytes_def)
  qed
  show "validateKeyedApply db r = None"
    using cs by cases (simp_all add: validateKeyedApply_def finalize_eq split: if_splits)
  show "int (putBytes (rMutations r)) \<le> MaxTransactionBytes (options db) \<or> rMutations r = []"
    using cs by cases (auto simp: zeroRecord_def finalize_eq split: if_splits)
  show "rSequence r = sequence db + 1" "rCommandID r = qCommand q"
    using cs by (cases, simp_all)+
  show "fmlookup (dedupe db) (qCommand q) = None" by (rule m(4))
  show "sorted (map mKey (rMutations r))"
    using cs by cases (simp_all add: zeroRecord_def sorted_mutationsOf)
qed

section \<open>The deduplication window\<close>

definition dedupe_inv :: "'a KeyedDB_scheme \<Rightarrow> bool" where
  "dedupe_inv db \<longleftrightarrow>
     0 < DedupeHorizon (options db) \<and> distinct (dedupeIDs db)
     \<and> fset (fmdom (dedupe db)) = set (dedupeIDs db)
     \<and> int (length (dedupeIDs db)) \<le> DedupeHorizon (options db)"

definition dedupeHorizon :: "'a KeyedDB_scheme \<Rightarrow> nat" where
  "dedupeHorizon db = nat (DedupeHorizon (options db))"

definition dedupeWindow :: "'a KeyedDB_scheme \<Rightarrow> (bytes \<times> keyedWALRecord) list" where
  "dedupeWindow db = map (\<lambda>i. (i, the (fmlookup (dedupe db) i))) (dedupeIDs db)"

definition retainedOf :: "keyedWALRecord \<Rightarrow> keyedWALRecord" where
  "retainedOf r = r\<lparr>rMutations := []\<rparr>"

abbreviation applyPlain :: "keyedWALRecord \<Rightarrow> 'a KeyedDB_scheme \<Rightarrow> 'a KeyedDB_scheme" where
  "applyPlain r db \<equiv> applyKeyed (\<lambda>_ d. d) r db"

lemma applyKeyed_fields [simp]:
  "options (applyPlain r db) = options db" "format (applyPlain r db) = format db"
  "records (applyPlain r db) = (if rApplied r then applyMutations (rMutations r) (records db) else records db)"
  "sequence (applyPlain r db) = rSequence r"
  "closed (applyPlain r db) = closed db" "poisoned (applyPlain r db) = poisoned db"
  "walOpen (applyPlain r db) = walOpen db" "walOffset (applyPlain r db) = walOffset db"
  by (simp_all add: applyKeyed_def Let_def)

lemma in_fmdom_iff: "x |\<in>| fmdom m \<longleftrightarrow> fmlookup m x \<noteq> None"
  by (simp add: fmlookup_dom_iff)

lemma dedupe_inv_lookup: "dedupe_inv db \<Longrightarrow> fmlookup (dedupe db) i \<noteq> None \<longleftrightarrow> i \<in> set (dedupeIDs db)"
  by (metis dedupe_inv_def in_fmdom_iff)

lemma applyKeyed_dedupe:
  assumes inv: "dedupe_inv db" and fresh: "fmlookup (dedupe db) (rCommandID r) = None"
  shows "dedupeIDs (applyPlain r db) = lastn (dedupeHorizon db) (dedupeIDs db @ [rCommandID r])"
    and "fmlookup (dedupe (applyPlain r db)) i =
      (if i \<in> set (dedupeIDs (applyPlain r db))
       then (if i = rCommandID r then Some (retainedOf r) else fmlookup (dedupe db) i) else None)"
    and "dedupe_inv (applyPlain r db)"
proof -
  let ?i = "rCommandID r" and ?H = "dedupeHorizon db"
  have new: "?i \<notin> set (dedupeIDs db)" using inv fresh by (metis dedupe_inv_lookup)
  have len: "length (dedupeIDs db) \<le> ?H" "0 < ?H" "int ?H = DedupeHorizon (options db)"
    using inv by (auto simp: dedupe_inv_def dedupeHorizon_def)
  show ids: "dedupeIDs (applyPlain r db) = lastn ?H (dedupeIDs db @ [?i])"
    using len by (auto simp: lastn_append_one applyKeyed_def Let_def)
  show look: "fmlookup (dedupe (applyPlain r db)) i =
      (if i \<in> set (dedupeIDs (applyPlain r db))
       then (if i = ?i then Some (retainedOf r) else fmlookup (dedupe db) i) else None)" for i
  proof (cases "length (dedupeIDs db) < ?H")
    case True
    then show ?thesis using len new dedupe_inv_lookup [OF inv, of i]
      by (auto simp: lastn_append_one applyKeyed_def Let_def retainedOf_def)
  next
    case False
    then obtain j js where js: "dedupeIDs db = j # js" using len by (cases "dedupeIDs db") auto
    then have "j \<notin> set js" "j \<noteq> ?i" using inv new by (auto simp: dedupe_inv_def)
    then show ?thesis using False len js dedupe_inv_lookup [OF inv, of i]
      by (auto simp: lastn_append_one applyKeyed_def Let_def retainedOf_def)
  qed
  have "distinct (dedupeIDs (applyPlain r db))"
    using inv new unfolding ids lastn_def by (intro distinct_drop) (simp add: dedupe_inv_def)
  moreover have "fset (fmdom (dedupe (applyPlain r db))) = set (dedupeIDs (applyPlain r db))"
  proof (rule set_eqI)
    fix x
    have "x \<in> set (dedupeIDs (applyPlain r db)) \<Longrightarrow> x = ?i \<or> x \<in> set (dedupeIDs db)"
      unfolding ids using set_lastn [of ?H "dedupeIDs db @ [?i]"] by auto
    then show "x \<in> fset (fmdom (dedupe (applyPlain r db))) \<longleftrightarrow> x \<in> set (dedupeIDs (applyPlain r db))"
      using look [of x] dedupe_inv_lookup [OF inv, of x] by (auto simp: in_fmdom_iff)
  qed
  moreover have "int (length (dedupeIDs (applyPlain r db))) \<le> DedupeHorizon (options db)"
    unfolding ids using len by simp
  ultimately show "dedupe_inv (applyPlain r db)" using inv by (simp add: dedupe_inv_def)
qed

lemma dedupeWindow_apply:
  assumes "dedupe_inv db" "fmlookup (dedupe db) (rCommandID r) = None"
  shows "dedupeWindow (applyPlain r db)
    = lastn (dedupeHorizon db) (dedupeWindow db @ [(rCommandID r, retainedOf r)])"
proof -
  let ?f = "\<lambda>i. (i, if i = rCommandID r then retainedOf r else the (fmlookup (dedupe db) i))"
  have "dedupeWindow (applyPlain r db) = map ?f (dedupeIDs (applyPlain r db))"
    by (auto simp: dedupeWindow_def applyKeyed_dedupe(2) [OF assms])
  also have "\<dots> = lastn (dedupeHorizon db) (map ?f (dedupeIDs db @ [rCommandID r]))"
    by (simp add: applyKeyed_dedupe(1) [OF assms] flip: lastn_map)
  also have "map ?f (dedupeIDs db @ [rCommandID r]) = dedupeWindow db @ [(rCommandID r, retainedOf r)]"
    using assms(2) dedupe_inv_lookup [OF assms(1), of "rCommandID r"] by (auto simp: dedupeWindow_def)
  finally show ?thesis .
qed

lemma map_of_dedupeWindow: "dedupe_inv db \<Longrightarrow> map_of (dedupeWindow db) i = fmlookup (dedupe db) i"
  using dedupe_inv_lookup [of db i]
  by (cases "fmlookup (dedupe db) i") (auto simp: dedupeWindow_def map_of_map_restrict restrict_map_def)

interpretation keyed_dedupe: dedupe_window dedupe_inv dedupeHorizon dedupeWindow
  "\<lambda>db. fmlookup (dedupe db)" rCommandID retainedOf "applyKeyed (\<lambda>_ d. d)"
proof
  fix db :: "'a KeyedDB_scheme" and i r
  assume inv: "dedupe_inv db"
  then show "0 < dedupeHorizon db" "length (dedupeWindow db) \<le> dedupeHorizon db"
    "distinct (map fst (dedupeWindow db))"
    by (auto simp: dedupe_inv_def dedupeHorizon_def dedupeWindow_def o_def)
  show "fmlookup (dedupe db) i = map_of (dedupeWindow db) i" using inv by (simp add: map_of_dedupeWindow)
  show "dedupeHorizon (applyPlain r db) = dedupeHorizon db" by (simp add: dedupeHorizon_def)
  assume fresh: "fmlookup (dedupe db) (rCommandID r) = None"
  show "dedupe_inv (applyPlain r db)" by (rule applyKeyed_dedupe(3) [OF inv fresh])
  show "dedupeWindow (applyPlain r db)
      = lastn (dedupeHorizon db) (dedupeWindow db @ [(rCommandID r, retainedOf r)])"
    by (rule dedupeWindow_apply [OF inv fresh])
qed

section \<open>The invariant of the database\<close>

definition options_ok :: "KeyedOptions \<Rightarrow> bool" where
  "options_ok opts \<longleftrightarrow>
     0 < MaxRecords opts \<and> 0 < DedupeHorizon opts \<and> 0 < MaxValueBytes opts
     \<and> MaxValueBytes opts \<le> MaxTransactionBytes opts"

lemma normalizeKeyedOptions_ok: "normalizeKeyedOptions opts = Inr opts' \<Longrightarrow> options_ok opts'"
  by (auto simp: normalizeKeyedOptions_def options_ok_def Let_def split: if_splits)

definition stored_ok :: "'a KeyedDB_scheme \<Rightarrow> bytes \<Rightarrow> bytes \<Rightarrow> bool" where
  "stored_ok db k v \<longleftrightarrow>
     k \<noteq> [] \<and> length k \<le> maxStoredKeyBytes db \<and> json_valid v \<and> int (length v) \<le> MaxValueBytes (options db)"

definition entry_ok :: "'a KeyedDB_scheme \<Rightarrow> bytes \<times> keyedWALRecord \<Rightarrow> bool" where
  "entry_ok db e \<longleftrightarrow>
     rCommandID (snd e) = fst e \<and> rMutations (snd e) = [] \<and> rSequence (snd e) \<noteq> 0 \<and> record_ok db (snd e)"

definition frontier_ok :: "'a KeyedDB_scheme \<Rightarrow> bool" where
  "frontier_ok db \<longleftrightarrow>
     sorted_wrt (<) (map (rSequence \<circ> snd) (dedupeWindow db))
     \<and> (dedupeWindow db = [] \<longleftrightarrow> sequence db = 0)
     \<and> (dedupeWindow db \<noteq> [] \<longrightarrow> rSequence (snd (last (dedupeWindow db))) = sequence db)"

definition keyed_inv :: "'a KeyedDB_scheme \<Rightarrow> bool" where
  "keyed_inv db \<longleftrightarrow>
     options_ok (options db) \<and> dedupe_inv db \<and> list_all (entry_ok db) (dedupeWindow db) \<and> frontier_ok db
     \<and> int (fmsize (records db)) \<le> MaxRecords (options db)
     \<and> (\<forall>k v. fmlookup (records db) k = Some v \<longrightarrow> stored_ok db k v)"

text \<open>The invariant, and every check, reads only the options, the format and the durable state.\<close>

definition dstate :: "'a KeyedDB_scheme \<Rightarrow>
    KeyedOptions \<times> bytes \<times> (bytes, bytes) fmap \<times> (bytes, keyedWALRecord) fmap \<times> bytes list \<times> u64" where
  "dstate db = (options db, format db, records db, dedupe db, dedupeIDs db, sequence db)"

lemma dstateD:
  "dstate a = dstate b \<Longrightarrow> options a = options b \<and> format a = format b \<and> records a = records b
     \<and> dedupe a = dedupe b \<and> dedupeIDs a = dedupeIDs b \<and> sequence a = sequence b"
  by (simp add: dstate_def)

lemma record_ok_cong:
  assumes "options a = options b" "format a = format b"
  shows "mutation_ok a = mutation_ok b" "record_ok a = record_ok b" "stored_ok a = stored_ok b"
    "entry_ok a = entry_ok b"
proof -
  have "maxStoredKeyBytes a = maxStoredKeyBytes b" using assms by (simp add: maxStoredKeyBytes_def)
  then show "mutation_ok a = mutation_ok b" "record_ok a = record_ok b" "stored_ok a = stored_ok b"
    "entry_ok a = entry_ok b"
    using assms by (auto simp: fun_eq_iff mutation_ok_def record_ok_def stored_ok_def entry_ok_def list_all_iff)
qed

lemma keyed_inv_cong: "dstate a = dstate b \<Longrightarrow> keyed_inv a = keyed_inv b"
  using record_ok_cong [of a b]
  by (simp add: dstate_def keyed_inv_def dedupe_inv_def dedupeWindow_def frontier_ok_def)

lemma validate_cong:
  assumes "dstate a = dstate b"
  shows "validateKeyedRecord a r = validateKeyedRecord b r" "validateKeyedApply a r = validateKeyedApply b r"
proof -
  have o: "options a = options b" "format a = format b" "records a = records b"
    using assms by (auto simp: dstate_def)
  have "validateMutations a ms seen t = validateMutations b ms seen t" for ms seen t
    by (induction ms arbitrary: seen t) (simp_all add: o maxStoredKeyBytes_def)
  then show "validateKeyedRecord a r = validateKeyedRecord b r" "validateKeyedApply a r = validateKeyedApply b r"
    by (simp_all only: o validateKeyedRecord_def validateKeyedApply_def)
qed

lemma dstate_applyPlain: "dstate a = dstate b \<Longrightarrow> dstate (applyPlain r a) = dstate (applyPlain r b)"
  by (auto simp: dstate_def applyKeyed_def Let_def)

lemma stored_ok_apply:
  assumes "list_all (mutation_ok db) ms"
    and "\<And>k v. fmlookup recs k = Some v \<Longrightarrow> stored_ok db k v"
    and "fmlookup (applyMutations ms recs) k = Some v"
  shows "stored_ok db k v"
  using assms
proof (induction ms arbitrary: recs)
  case (Cons m ms)
  let ?r = "if mDelete m then fmdrop (mKey m) recs else fmupd (mKey m) (mValue m) recs"
  have "stored_ok db k v" if "fmlookup ?r k = Some v" for k v
    using that Cons.prems(1,2) by (auto simp: mutation_ok_def stored_ok_def split: if_splits)
  then show ?case using Cons.IH [of ?r] Cons.prems by simp
qed simp

lemma sorted_wrt_lastn: "sorted_wrt P xs \<Longrightarrow> sorted_wrt P (lastn n xs)"
  by (simp add: lastn_def sorted_wrt_drop)

lemma last_lastn: "xs \<noteq> [] \<Longrightarrow> 0 < n \<Longrightarrow> lastn n xs \<noteq> [] \<and> last (lastn n xs) = last xs"
  by (cases xs) (auto simp: lastn_def)

lemma sorted_wrt_snoc: "sorted_wrt (<) (xs @ [x :: 'b :: linorder]) \<longleftrightarrow> sorted_wrt (<) xs \<and> (xs = [] \<or> last xs < x)"
proof (cases xs rule: rev_cases)
  case (snoc ys y)
  then show ?thesis by (auto simp: sorted_wrt_append intro: less_trans)
qed simp

lemma u64_succ_less: "(s :: u64) + 1 \<noteq> 0 \<Longrightarrow> s < s + 1"
  by (simp add: word_less_nat_alt unatSuc add.commute)

text \<open>Applying a record that recovery accepts preserves the invariant.\<close>

lemma keyed_inv_apply:
  assumes inv: "keyed_inv db" and ok: "record_ok db r" "validateKeyedApply db r = None"
    and fresh: "fmlookup (dedupe db) (rCommandID r) = None"
    and seq: "rSequence r = sequence db + 1" "rSequence r \<noteq> 0"
  shows "keyed_inv (applyPlain r db)"
proof -
  let ?db = "applyPlain r db" and ?e = "(rCommandID r, retainedOf r)"
  have d: "dedupe_inv db" using inv by (simp add: keyed_inv_def)
  have win: "dedupeWindow ?db = lastn (dedupeHorizon db) (dedupeWindow db @ [?e])"
    by (rule dedupeWindow_apply [OF d fresh])
  have hpos: "0 < dedupeHorizon db" using d by (simp add: dedupe_inv_def dedupeHorizon_def)
  have cong: "entry_ok ?db = entry_ok db" "stored_ok ?db = stored_ok db"
    using record_ok_cong [of ?db db] by simp_all
  have "entry_ok db ?e"
    using ok(1) seq(2) by (auto simp: entry_ok_def retainedOf_def record_ok_def)
  then have "list_all (entry_ok db) (dedupeWindow db @ [?e])" using inv by (simp add: keyed_inv_def)
  then have "list_all (entry_ok ?db) (dedupeWindow ?db)"
    unfolding cong win using set_lastn [of "dedupeHorizon db" "dedupeWindow db @ [?e]"] by (auto simp: list_all_iff)
  moreover have "frontier_ok ?db"
  proof -
    have "sequence db < rSequence r" using seq u64_succ_less by simp
    then have "sorted_wrt (<) (map (rSequence \<circ> snd) (dedupeWindow db @ [?e]))"
      using inv by (auto simp: keyed_inv_def frontier_ok_def sorted_wrt_snoc last_map retainedOf_def)
    then show ?thesis
      using last_lastn [OF _ hpos, of "dedupeWindow db @ [?e]"] seq(2) sorted_wrt_lastn
      by (auto simp: frontier_ok_def win retainedOf_def simp flip: lastn_map)
  qed
  moreover have "int (fmsize (records ?db)) \<le> MaxRecords (options db)"
    using inv ok by (auto simp: keyed_inv_def validateKeyedApply_iff record_ok_def)
  moreover have "stored_ok ?db k v" if "fmlookup (records ?db) k = Some v" for k v
    using that inv ok stored_ok_apply [of db "rMutations r" "records db" k v]
    by (auto simp: cong keyed_inv_def record_ok_def split: if_splits)
  ultimately show ?thesis
    using inv applyKeyed_dedupe(3) [OF d fresh] by (simp add: keyed_inv_def)
qed

end
