(* ===== verification/Keyed_Recovery.thy ===== *)
theory Keyed_Recovery
  imports Keyed_Laws
begin

text \<open>
  Durability of the keyed database. \<open>logged base rs db\<close> says that replaying the records \<open>rs\<close> over the
  state \<open>base\<close> gives the durable state of \<open>db\<close>; group commit keeps this relation between the log file
  and the live state under every sequence of faults, opening a directory inverts it, and a power loss
  leaves a prefix of the log that still contains every acknowledged record.
\<close>

section \<open>The log as a sequence of records\<close>

interpretation keyed_log: log_replayer "Suc 0" replayPayload
  "\<lambda>_. corrupt ''invalid WAL frame length''" "\<lambda>_. corrupt ''WAL checksum mismatch''" replayFrames
  by unfold_locales (subst replayFrames.simps, simp)

definition walImage :: "keyedWALRecord list \<Rightarrow> bytes" where
  "walImage rs = concat (map frame (map marshalRecord rs))"

definition storable :: "keyedWALRecord \<Rightarrow> bool" where
  "storable r \<longleftrightarrow> utf8Record r \<and> length (marshalRecord r) \<le> maxFrameBytes"

definition torn :: "bytes \<Rightarrow> bool" where
  "torn t \<longleftrightarrow> (\<exists>p. keyed_log.admissible p \<and> strict_prefix t (frame p))"

definition logged :: "'a KeyedDB_scheme \<Rightarrow> keyedWALRecord list \<Rightarrow> 'b KeyedDB_scheme \<Rightarrow> bool" where
  "logged base rs db \<longleftrightarrow>
     list_all storable rs
     \<and> (\<exists>db1 lastSeq. fold_res replayRecord (base, 0) rs = Inr (db1, lastSeq) \<and> dstate db1 = dstate db
          \<and> (lastSeq = 0 \<or> lastSeq = sequence db))"

lemma walImage_simps [simp]:
  "walImage [] = []" "walImage (r # rs) = frame (marshalRecord r) @ walImage rs"
  "walImage (rs @ rs') = walImage rs @ walImage rs'"
  by (simp_all add: walImage_def)

lemma marshalRecord_nonempty: "0 < length (marshalRecord r)"
  by (simp add: marshalRecord_def jobj_def)

lemma admissible_record: "length (marshalRecord r) \<le> maxFrameBytes \<Longrightarrow> keyed_log.admissible (marshalRecord r)"
  using marshalRecord_nonempty [of r] by (simp add: keyed_log.admissible_def Suc_le_eq)

lemma torn_Nil [simp]: "torn []"
proof -
  have "keyed_log.admissible [0]" by (simp add: keyed_log.admissible_def maxFrameBytes_def)
  moreover have "strict_prefix [] (frame [0])" by (simp add: frame_def strict_prefix_def)
  ultimately show ?thesis unfolding torn_def by blast
qed

lemma torn_record: "storable r \<Longrightarrow> strict_prefix t (frame (marshalRecord r)) \<Longrightarrow> torn t"
  unfolding torn_def storable_def using admissible_record by blast

lemma replayPayload_marshal:
  "utf8Record r \<Longrightarrow> replayPayload st (marshalRecord r) = replayRecord st r"
  by (simp add: replayPayload_def unmarshal_marshalRecord sanRecord_utf8)

lemma fold_replayPayload:
  "list_all storable rs \<Longrightarrow> fold_res replayPayload st (map marshalRecord rs) = fold_res replayRecord st rs"
  by (induction rs arbitrary: st) (auto simp: storable_def replayPayload_marshal split: sum.split)

text \<open>The recovery loop on a log with a torn tail: the whole records are replayed, nothing else.\<close>

lemma replayFrames_logged:
  assumes "list_all storable rs" "torn t" "fold_res replayRecord (base, 0) rs = Inr st"
  shows "replayFrames (base, 0) 0 (walImage rs @ t) = Inr (st, length (walImage rs))"
proof -
  obtain p where p: "keyed_log.admissible p" "strict_prefix t (frame p)"
    using assms(2) by (auto simp: torn_def)
  have "list_all keyed_log.admissible (map marshalRecord rs)"
    using assms(1) by (auto simp: list_all_iff storable_def intro: admissible_record)
  from keyed_log.replay_log [OF this p, of "(base, 0)" st 0]
  show ?thesis using assms by (simp add: fold_replayPayload walImage_def)
qed

lemma logged_Nil: "dstate base = dstate db \<Longrightarrow> logged base [] db"
  by (simp add: logged_def)

lemma logged_cong: "logged base rs a \<Longrightarrow> dstate a = dstate b \<Longrightarrow> logged base rs b"
  by (auto simp: logged_def dstate_def)

text \<open>A record that continues the state continues the log.\<close>

lemma logged_snoc:
  assumes "logged base rs db" "storable r"
    and "validateKeyedRecord db r = None" "validateKeyedApply db r = None"
    and "fmlookup (dedupe db) (rCommandID r) = None"
    and seq: "rSequence r = sequence db + 1" "rSequence r \<noteq> 0"
  shows "logged base (rs @ [r]) (applyPlain r db)"
proof -
  obtain db1 l where r1: "fold_res replayRecord (base, 0) rs = Inr (db1, l)" "dstate db1 = dstate db"
    "l = 0 \<or> l = sequence db" using assms(1) by (auto simp: logged_def)
  note cong = dstateD [OF r1(2)] validate_cong [OF r1(2)]
  have "sequence db < sequence db + 1" using seq u64_succ_less by simp
  then have "replayRecord (db1, l) r = Inr (applyPlain r db1, rSequence r)"
    using assms(3-5) r1(3) seq cong by (auto simp: replayRecord_def)
  then have "fold_res replayRecord (base, 0) (rs @ [r]) = Inr (applyPlain r db1, rSequence r)"
    by (simp add: fold_res_append r1(1))
  moreover have "list_all storable (rs @ [r])" using assms(1,2) by (simp add: logged_def)
  ultimately show ?thesis
    unfolding logged_def using dstate_applyPlain [OF r1(2), of r] by (intro conjI exI [of _ "applyPlain r db1"] exI [of _ "rSequence r"]) simp_all
qed

text \<open>Cutting a log anywhere leaves whole records and a torn one.\<close>

lemma prefix_walImage:
  assumes "prefix c (walImage rs @ t)" "torn t" "list_all storable rs"
  shows "\<exists>k t'. k \<le> length rs \<and> c = walImage (take k rs) @ t' \<and> torn t'"
  using assms
proof (induction rs arbitrary: c)
  case Nil
  then have "torn c" by (auto simp: torn_def intro: prefix_order.le_less_trans)
  then show ?case by (intro exI [of _ 0]) simp
next
  case (Cons r rs)
  let ?f = "frame (marshalRecord r)"
  show ?case
  proof (cases "prefix ?f c")
    case True
    then obtain c' where c': "c = ?f @ c'" by (auto simp: prefix_def)
    then have "prefix c' (walImage rs @ t)" using Cons.prems(1) by simp
    from Cons.IH [OF this Cons.prems(2)] Cons.prems(3)
    obtain k t' where "k \<le> length rs" "c' = walImage (take k rs) @ t'" "torn t'" by auto
    then show ?thesis using c' by (intro exI [of _ "Suc k"] exI [of _ t']) simp
  next
    case False
    then have "strict_prefix c ?f"
      using Cons.prems(1) by (auto simp: strict_prefix_def prefix_append)
    then have "torn c" using Cons.prems(3) torn_record by auto
    then show ?thesis by (intro exI [of _ 0]) simp
  qed
qed

section \<open>Appending\<close>

text \<open>A call that touches nothing but the visible contents of the log.\<close>

definition wal_only :: "world \<Rightarrow> world \<Rightarrow> bool" where
  "wal_only w w' \<longleftrightarrow>
     durable w' = durable w \<and> pend w' = pend w \<and> windows w' = windows w
     \<and> (\<forall>n. n \<noteq> WAL_file \<longrightarrow> fmlookup (files w') n = fmlookup (files w) n)"

lemma wal_only_refl [simp]: "wal_only w w"
  by (simp add: wal_only_def)

lemma wal_only_trans: "wal_only a b \<Longrightarrow> wal_only b c \<Longrightarrow> wal_only a c"
  by (simp add: wal_only_def)

lemma walOffset_same: "walOffset db = n \<Longrightarrow> db\<lparr>walOffset := n\<rparr> = db"
  by (cases db) simp

lemma appendKeyedFrame_contents:
  assumes "appendKeyedFrame hooks r db w = (e, db', w')" "walOffset db = length (contents WAL_file w)"
  shows "wal_only w w'"
    and "\<exists>t. contents WAL_file w' = contents WAL_file w @ t \<and> prefix t (frame (marshalRecord r))
      \<and> db' = db\<lparr>walOffset := length (contents WAL_file w')\<rparr>
      \<and> (e = None \<longrightarrow> t = frame (marshalRecord r) \<and> length (marshalRecord r) \<le> maxFrameBytes)
      \<and> (maxFrameBytes < length (marshalRecord r) \<longrightarrow> t = [])"
proof -
  note noop = walOffset_same [OF assms(2)]
  show "wal_only w w'"
    using assms(1)
    by (auto simp: appendKeyedFrame_def file_Write_def wal_only_def Let_def
        split: option.splits if_splits outcome.splits)
  show "\<exists>t. contents WAL_file w' = contents WAL_file w @ t \<and> prefix t (frame (marshalRecord r))
      \<and> db' = db\<lparr>walOffset := length (contents WAL_file w')\<rparr>
      \<and> (e = None \<longrightarrow> t = frame (marshalRecord r) \<and> length (marshalRecord r) \<le> maxFrameBytes)
      \<and> (maxFrameBytes < length (marshalRecord r) \<longrightarrow> t = [])"
  proof (cases "beforeAppend hooks r = None \<and> length (marshalRecord r) \<le> maxFrameBytes")
    case False
    then have "db' = db \<and> w' = w \<and> e \<noteq> None"
      using assms(1) by (auto simp: appendKeyedFrame_def Let_def split: option.splits if_splits)
    then show ?thesis by (intro exI [of _ "[]"]) (auto simp: noop)
  next
    case True
    show ?thesis
    proof (cases "next_outcome w")
      case OpOk
      then show ?thesis using assms True
        by (intro exI [of _ "frame (marshalRecord r)"])
          (auto simp: appendKeyedFrame_def file_Write_def write_at_end Let_def)
    next
      case (OpFail k)
      then show ?thesis using assms True
        by (intro exI [of _ "take k (frame (marshalRecord r))"])
          (auto simp: appendKeyedFrame_def file_Write_def write_at_end Let_def take_is_prefix)
    qed
  qed
qed

section \<open>Group commit\<close>

definition hook_ok :: "'a KeyedDB_scheme keyedHooks \<Rightarrow> bool" where
  "hook_ok hooks \<longleftrightarrow> (\<forall>r db. KeyedDB.truncate (afterApply hooks r db) = KeyedDB.truncate db)"

lemma hook_ok_noHooks [simp]: "hook_ok noHooks"
  by (simp add: hook_ok_def noHooks_def)

lemma truncateD:
  assumes "KeyedDB.truncate a = KeyedDB.truncate b"
  shows "dstate a = dstate b" "walOffset a = walOffset b" "poisoned a = poisoned b" "walOpen a = walOpen b"
    "closed a = closed b" "commitStats a = commitStats b"
  using assms by (auto simp: KeyedDB.truncate_def dstate_def)

lemma applyKeyed_after: "applyKeyed after r db = after r (applyPlain r db)"
  by (simp add: applyKeyed_def Let_def)

lemma applyKeyed_hook:
  assumes "hook_ok hooks"
  shows "dstate (applyKeyed (afterApply hooks) r db) = dstate (applyPlain r db)"
    "walOffset (applyKeyed (afterApply hooks) r db) = walOffset db"
    "poisoned (applyKeyed (afterApply hooks) r db) = poisoned db"
    "walOpen (applyKeyed (afterApply hooks) r db) = walOpen db"
    "closed (applyKeyed (afterApply hooks) r db) = closed db"
proof -
  have "KeyedDB.truncate (afterApply hooks r (applyPlain r db)) = KeyedDB.truncate (applyPlain r db)"
    using assms by (simp add: hook_ok_def)
  from truncateD [OF this] show "dstate (applyKeyed (afterApply hooks) r db) = dstate (applyPlain r db)"
    "walOffset (applyKeyed (afterApply hooks) r db) = walOffset db"
    "poisoned (applyKeyed (afterApply hooks) r db) = poisoned db"
    "walOpen (applyKeyed (afterApply hooks) r db) = walOpen db"
    "closed (applyKeyed (afterApply hooks) r db) = closed db"
    by (simp_all add: applyKeyed_after [of "afterApply hooks"])
qed

text \<open>The record a request tries to append, and the records a group tries to append.\<close>

definition attempt :: "'a KeyedDB_scheme \<Rightarrow> 'a KeyedDB_scheme keyedCommitRequest \<Rightarrow> keyedWALRecord option" where
  "attempt db q =
     (if poisoned db then None
      else case qCtx q of
          CtxDone e \<Rightarrow> None
        | _ \<Rightarrow> (case executeKeyed db q of ExecPersist r \<Rightarrow> Some r | _ \<Rightarrow> None))"

fun attempts ::
  "'a KeyedDB_scheme keyedHooks \<Rightarrow> 'a KeyedDB_scheme keyedCommitRequest list \<Rightarrow> 'a KeyedDB_scheme groupState
    \<Rightarrow> keyedWALRecord list" where
  "attempts hooks [] g = []"
| "attempts hooks (q # qs) g =
     (case attempt (gDB g) q of None \<Rightarrow> [] | Some r \<Rightarrow> [r]) @ attempts hooks qs (commitOne hooks q g)"

text \<open>The records that were appended and applied.\<close>

definition appliedOne ::
  "'a KeyedDB_scheme keyedHooks \<Rightarrow> 'a KeyedDB_scheme keyedCommitRequest \<Rightarrow> 'a KeyedDB_scheme groupState
    \<Rightarrow> keyedWALRecord list" where
  "appliedOne hooks q g =
     (case attempt (gDB g) q of
        None \<Rightarrow> []
      | Some r \<Rightarrow> if fst (appendKeyedFrame hooks r (gDB g) (gWorld g)) = None then [r] else [])"

fun applied ::
  "'a KeyedDB_scheme keyedHooks \<Rightarrow> 'a KeyedDB_scheme keyedCommitRequest list \<Rightarrow> 'a KeyedDB_scheme groupState
    \<Rightarrow> keyedWALRecord list" where
  "applied hooks [] g = []"
| "applied hooks (q # qs) g = appliedOne hooks q g @ applied hooks qs (commitOne hooks q g)"

lemma answer_fields [simp]:
  "gDB (answer res d g) = gDB g" "gWorld (answer res d g) = gWorld g" "gStaged (answer res d g) = gStaged g"
  "gFrames (answer res d g) = gFrames g" "gStorageErr (answer res d g) = gStorageErr g"
  "gResults (answer res d g) = gResults g @ [res]" "gDurable (answer res d g) = gDurable g @ [d]"
  by (simp_all add: answer_def)

lemma executeKeyed_retained: "fmlookup (dedupe db) (qCommand q) \<noteq> None \<Longrightarrow> executeKeyed db q \<noteq> ExecPersist r"
  by (auto elim: executeKeyed_run)

lemma commitOne_no_attempt:
  assumes "attempt (gDB g) q = None"
  shows "gDB (commitOne hooks q g) = gDB g" "gWorld (commitOne hooks q g) = gWorld g"
    "gFrames (commitOne hooks q g) = gFrames g" "gStorageErr (commitOne hooks q g) = gStorageErr g"
    "gStaged (commitOne hooks q g) = gStaged g"
  using assms
  by (auto simp: commitOne_def attempt_def safelyExecuteKeyed_def Let_def
      split: option.splits ctx.splits exec_outcome.splits)

lemma commitOne_attempt:
  assumes "attempt (gDB g) q = Some r"
  shows "executeKeyed (gDB g) q = ExecPersist r" "\<not> poisoned (gDB g)"
    and "commitOne hooks q g =
      (let res = zeroResult\<lparr>crDecision := decision r\<rparr> in
       case appendKeyedFrame hooks r (gDB g) (gWorld g) of
         (Some e, db', w') \<Rightarrow>
           (answer (res\<lparr>crErr := Some e\<rparr>) False g)\<lparr>gDB := db'\<lparr>poisoned := True\<rparr>, gWorld := w', gStorageErr := Some e\<rparr>
       | (None, db', w') \<Rightarrow>
           (answer res True g)\<lparr>gDB := applyKeyed (afterApply hooks) r db', gWorld := w',
              gStaged := map_option (fmupd (rCommandID r) (length (gResults g))) (gStaged g),
              gFrames := gFrames g + 1\<rparr>)"
proof -
  show e: "executeKeyed (gDB g) q = ExecPersist r" and np: "\<not> poisoned (gDB g)"
    using assms by (auto simp: attempt_def split: if_splits ctx.splits exec_outcome.splits)
  have "fmlookup (dedupe (gDB g)) (qCommand q) = None" using e executeKeyed_retained by metis
  then show "commitOne hooks q g =
      (let res = zeroResult\<lparr>crDecision := decision r\<rparr> in
       case appendKeyedFrame hooks r (gDB g) (gWorld g) of
         (Some e, db', w') \<Rightarrow>
           (answer (res\<lparr>crErr := Some e\<rparr>) False g)\<lparr>gDB := db'\<lparr>poisoned := True\<rparr>, gWorld := w', gStorageErr := Some e\<rparr>
       | (None, db', w') \<Rightarrow>
           (answer res True g)\<lparr>gDB := applyKeyed (afterApply hooks) r db', gWorld := w',
              gStaged := map_option (fmupd (rCommandID r) (length (gResults g))) (gStaged g),
              gFrames := gFrames g + 1\<rparr>)"
    using assms e np by (simp add: commitOne_def safelyExecuteKeyed_def attempt_def Let_def split: ctx.splits)
qed

text \<open>
  What a record needs beyond the checks of \<open>executeKeyed\<close> to be read back: strings in UTF-8, the
  transaction bound with the keys of deletes counted, and a sequence number that has not wrapped.
\<close>

definition recoverable :: "KeyedOptions \<Rightarrow> keyedWALRecord \<Rightarrow> bool" where
  "recoverable opts r \<longleftrightarrow>
     utf8Record r \<and> int (mutBytes (rMutations r)) \<le> MaxTransactionBytes opts \<and> rSequence r \<noteq> 0"

lemma attempt_accepted:
  assumes "attempt db q = Some r" "request_ok (config db) q" "keyed_inv db" "recoverable (options db) r"
  shows "validateKeyedRecord db r = None" "validateKeyedApply db r = None"
    "fmlookup (dedupe db) (rCommandID r) = None" "rSequence r = sequence db + 1" "rSequence r \<noteq> 0"
    "keyed_inv (applyPlain r db)"
proof -
  have e: "executeKeyed db q = ExecPersist r"
    using assms(1) by (auto simp: attempt_def split: if_splits ctx.splits exec_outcome.splits)
  have nn: "0 \<le> MaxValueBytes (options db)" using assms(3) by (simp add: keyed_inv_def options_ok_def)
  note p = executeKeyed_persist [OF e assms(2) nn]
  show "validateKeyedRecord db r = None" "rSequence r \<noteq> 0"
    using p(1) assms(4) by (auto simp: validateKeyedRecord_iff recoverable_def)
  show "validateKeyedApply db r = None" "rSequence r = sequence db + 1" by (rule p)+
  show "fmlookup (dedupe db) (rCommandID r) = None" using p(4,5) by simp
  show "keyed_inv (applyPlain r db)"
    using p assms(3,4) by (intro keyed_inv_apply) (auto simp: recoverable_def)
qed

text \<open>
  The log file and the state inside a group: the records \<open>rs\<close> are in the log and applied; a failed
  append may leave a torn frame or, when the failure was reported after the last byte, the whole
  record \<open>D\<close> whose outcome is in doubt.
\<close>

definition tracks ::
  "'b KeyedDB_scheme \<Rightarrow> keyedWALRecord list \<Rightarrow> keyedWALRecord list \<Rightarrow> 'a KeyedDB_scheme \<Rightarrow> world \<Rightarrow> bool" where
  "tracks base rs D db w \<longleftrightarrow>
     keyed_inv db \<and> logged base rs db
     \<and> (\<exists>t. contents WAL_file w = walImage (rs @ D) @ t \<and> torn t
          \<and> (\<not> poisoned db \<longrightarrow> t = [] \<and> D = [] \<and> walOffset db = length (contents WAL_file w)))
     \<and> (D = [] \<or> (\<exists>r. D = [r] \<and> logged base (rs @ [r]) (applyPlain r db)))"

lemma tracks_cong:
  assumes "tracks base rs D db w" "dstate db' = dstate db" "poisoned db \<longrightarrow> poisoned db'"
    "walOffset db' = walOffset db" "contents WAL_file w' = contents WAL_file w"
  shows "tracks base rs D db' w'"
proof -
  have "logged base rs db'" using assms by (auto simp: tracks_def intro: logged_cong)
  moreover have "keyed_inv db'" using assms keyed_inv_cong [OF assms(2)] by (simp add: tracks_def)
  moreover have "logged base (rs @ [r]) (applyPlain r db')" if "logged base (rs @ [r]) (applyPlain r db)" for r
    using that dstate_applyPlain [OF assms(2), of r] by (auto intro: logged_cong)
  ultimately show ?thesis using assms by (auto simp: tracks_def)
qed

lemma prefix_frame_cases: "storable r \<Longrightarrow> prefix t (frame (marshalRecord r)) \<Longrightarrow> torn t \<or> t = frame (marshalRecord r)"
  using torn_record by (auto simp: strict_prefix_def)

text \<open>One request: nothing happened, the record was appended and applied, or the append failed.\<close>

lemma tracks_attempt:
  assumes tr: "tracks base rs D (gDB g) (gWorld g)" and q: "request_ok (config (gDB g)) q" "hook_ok hooks"
    and at: "attempt (gDB g) q = Some r" and rec: "recoverable (options (gDB g)) r"
    and g': "g' = commitOne hooks q g"
  shows "wal_only (gWorld g) (gWorld g')"
    and "(appliedOne hooks q g = [r] \<and> \<not> poisoned (gDB g') \<and> tracks base (rs @ [r]) [] (gDB g') (gWorld g')
           \<and> gFrames g' = gFrames g + 1 \<and> gStorageErr g' = gStorageErr g)
      \<or> (appliedOne hooks q g = [] \<and> poisoned (gDB g') \<and> (\<exists>D'. tracks base rs D' (gDB g') (gWorld g'))
           \<and> gFrames g' = gFrames g \<and> gStorageErr g' \<noteq> None)"
proof -
  let ?db = "gDB g" and ?w = "gWorld g"
  note c = commitOne_attempt [OF at]
  have inv: "keyed_inv ?db" and lg: "logged base rs ?db" and D: "D = []"
    and w: "contents WAL_file ?w = walImage rs" "walOffset ?db = length (contents WAL_file ?w)"
    using tr c(2) by (auto simp: tracks_def)
  note acc = attempt_accepted [OF at q(1) inv rec]
  obtain e db1 w1 where ap: "appendKeyedFrame hooks r ?db ?w = (e, db1, w1)" by (metis prod_cases3)
  note wo = appendKeyedFrame_contents(1) [OF ap w(2)]
  obtain t where t: "contents WAL_file w1 = walImage rs @ t" "prefix t (frame (marshalRecord r))"
    "db1 = ?db\<lparr>walOffset := length (contents WAL_file w1)\<rparr>"
    "e = None \<Longrightarrow> t = frame (marshalRecord r) \<and> length (marshalRecord r) \<le> maxFrameBytes"
    "maxFrameBytes < length (marshalRecord r) \<Longrightarrow> t = []"
    using appendKeyedFrame_contents(2) [OF ap w(2)] w(1) by auto
  have ds: "dstate db1 = dstate ?db" by (simp add: t(3) dstate_def)
  have sn: "storable r \<Longrightarrow> logged base (rs @ [r]) (applyPlain r ?db)"
    using acc by (intro logged_snoc [OF lg])
  show "wal_only ?w (gWorld g')" using wo by (cases e) (simp_all add: g' c(3) ap)
  show "(appliedOne hooks q g = [r] \<and> \<not> poisoned (gDB g') \<and> tracks base (rs @ [r]) [] (gDB g') (gWorld g')
           \<and> gFrames g' = gFrames g + 1 \<and> gStorageErr g' = gStorageErr g)
      \<or> (appliedOne hooks q g = [] \<and> poisoned (gDB g') \<and> (\<exists>D'. tracks base rs D' (gDB g') (gWorld g'))
           \<and> gFrames g' = gFrames g \<and> gStorageErr g' \<noteq> None)"
  proof (cases e)
    case None
    then have st: "storable r" using t(4) rec by (simp add: storable_def recoverable_def)
    let ?db' = "applyKeyed (afterApply hooks) r db1"
    note h = applyKeyed_hook [OF q(2), of r db1]
    note d = dstate_applyPlain [OF ds, of r]
    have "logged base (rs @ [r]) (applyPlain r db1)" using d by (intro logged_cong [OF sn [OF st]]) simp
    moreover have "keyed_inv (applyPlain r db1)" using acc(6) keyed_inv_cong [OF d] by simp
    moreover have "contents WAL_file w1 = walImage (rs @ [r])" "walOffset db1 = length (contents WAL_file w1)"
      using t(1,4) None by (simp, simp add: t(3))
    ultimately have "tracks base (rs @ [r]) [] (applyPlain r db1) w1" by (simp add: tracks_def)
    then have "tracks base (rs @ [r]) [] ?db' w1"
      by (rule tracks_cong) (use h in simp_all)
    then show ?thesis using h c(2) by (simp add: g' c(3) ap None t(3) appliedOne_def at)
  next
    case (Some e')
    let ?db' = "db1\<lparr>poisoned := True\<rparr>"
    have d: "dstate ?db' = dstate ?db" using ds by (simp add: dstate_def)
    note k = keyed_inv_cong [OF d] logged_cong [OF lg d [symmetric]] dstate_applyPlain [OF d, of r]
    consider "torn t" | "storable r" "t = frame (marshalRecord r)"
      using t(2,5) rec prefix_frame_cases [of r t]
      by (cases "length (marshalRecord r) \<le> maxFrameBytes") (auto simp: storable_def recoverable_def)
    then have "\<exists>D'. tracks base rs D' ?db' w1"
    proof cases
      case 1
      then have "tracks base rs [] ?db' w1" using k inv t(1) by (simp add: tracks_def)
      then show ?thesis by blast
    next
      case 2
      have "logged base (rs @ [r]) (applyPlain r ?db')"
        using sn [OF 2(1)] k(3) by (auto intro: logged_cong)
      then have "tracks base rs [r] ?db' w1" using k inv t(1) 2(2) by (simp add: tracks_def)
      then show ?thesis by blast
    qed
    then show ?thesis by (simp add: g' c(3) ap Some appliedOne_def at)
  qed
qed

text \<open>What a run of requests that appended and applied the records \<open>L\<close> does to log and state.\<close>

definition grouped ::
  "'b KeyedDB_scheme \<Rightarrow> keyedWALRecord list \<Rightarrow> keyedWALRecord list \<Rightarrow> 'a KeyedDB_scheme groupState
    \<Rightarrow> 'a KeyedDB_scheme groupState \<Rightarrow> bool" where
  "grouped base rs L g g' \<longleftrightarrow>
     (\<exists>D. tracks base (rs @ L) D (gDB g') (gWorld g')) \<and> gFrames g' = gFrames g + of_nat (length L)
     \<and> wal_only (gWorld g) (gWorld g') \<and> config (gDB g') = config (gDB g)
     \<and> ((gStorageErr g = None) = (\<not> poisoned (gDB g)) \<longrightarrow> (gStorageErr g' = None) = (\<not> poisoned (gDB g')))"

lemma config_attempt:
  assumes "attempt (gDB g) q = Some r" "hook_ok hooks"
  shows "config (gDB (commitOne hooks q g)) = config (gDB g)"
proof -
  obtain e db1 w1 where ap: "appendKeyedFrame hooks r (gDB g) (gWorld g) = (e, db1, w1)" by (metis prod_cases3)
  then have "config db1 = config (gDB g)"
    by (auto simp: config_def appendKeyedFrame_def Let_def split: option.splits if_splits prod.splits)
  moreover have "config (applyKeyed (afterApply hooks) r db1) = config db1"
    using dstateD [OF applyKeyed_hook(1) [OF assms(2), of r db1]] by (simp add: config_def)
  ultimately show ?thesis by (cases e) (simp_all add: commitOne_attempt(3) [OF assms(1)] ap, simp add: config_def)
qed

lemma grouped_refl: "tracks base rs D (gDB g) (gWorld g) \<Longrightarrow> grouped base rs [] g g"
  by (auto simp: grouped_def)

lemma grouped_one:
  assumes "tracks base rs D (gDB g) (gWorld g)" "request_ok (config (gDB g)) q" "hook_ok hooks"
    and "\<And>r. attempt (gDB g) q = Some r \<Longrightarrow> recoverable (options (gDB g)) r"
  shows "grouped base rs (appliedOne hooks q g) g (commitOne hooks q g)"
proof (cases "attempt (gDB g) q")
  case None
  then show ?thesis
    using commitOne_no_attempt [OF None, of hooks] grouped_refl [OF assms(1)]
    by (simp add: grouped_def appliedOne_def)
next
  case (Some r)
  let ?g = "commitOne hooks q g"
  note ta = tracks_attempt [OF assms(1-3) Some assms(4) [OF Some] refl]
  have np: "\<not> poisoned (gDB g)" using Some by (auto simp: attempt_def split: if_splits)
  from ta(2) show ?thesis
    unfolding grouped_def using ta(1) np config_attempt [OF Some assms(3)] by fastforce
qed

lemma grouped_trans:
  assumes "grouped base rs L g g1" "\<And>D. tracks base (rs @ L) D (gDB g1) (gWorld g1) \<Longrightarrow> grouped base (rs @ L) L' g1 g2"
  shows "grouped base rs (L @ L') g g2"
proof -
  have g2: "grouped base (rs @ L) L' g1 g2" using assms by (auto simp: grouped_def)
  then have "wal_only (gWorld g) (gWorld g2)"
    using assms(1) by (auto simp: grouped_def intro: wal_only_trans)
  then show ?thesis using assms(1) g2 unfolding grouped_def by simp
qed

lemma grouped_fold:
  assumes "tracks base rs D (gDB g) (gWorld g)" "list_all (request_ok (config (gDB g))) qs" "hook_ok hooks"
    and "list_all (recoverable (options (gDB g))) (attempts hooks qs g)"
  shows "grouped base rs (applied hooks qs g) g (fold (commitOne hooks) qs g)"
  using assms
proof (induction qs arbitrary: g rs D)
  case Nil
  then show ?case using grouped_refl by simp
next
  case (Cons q qs)
  let ?g = "commitOne hooks q g"
  have one: "grouped base rs (appliedOne hooks q g) g ?g"
    using Cons.prems by (intro grouped_one) auto
  then have "config (gDB ?g) = config (gDB g)" by (simp add: grouped_def)
  then have "config (gDB ?g) = config (gDB g)" "options (gDB ?g) = options (gDB g)" by (simp_all add: config_def)
  then have "grouped base rs' (applied hooks qs ?g) ?g (fold (commitOne hooks) qs ?g)"
    if "tracks base rs' D' (gDB ?g) (gWorld ?g)" for rs' D'
    using that Cons.prems by (intro Cons.IH) auto
  from grouped_trans [OF one this] show ?case by simp
qed

lemma length_applied: "length (applied hooks qs g) \<le> length qs"
proof (induction qs arbitrary: g)
  case (Cons q qs)
  have "length (appliedOne hooks q g) \<le> 1" by (simp add: appliedOne_def split: option.split)
  then show ?case using Cons [of "commitOne hooks q g"] by simp
qed simp

text \<open>The shared synchronisation.\<close>

lemma syncKeyed_world:
  "syncKeyed hooks w = (e, w') \<Longrightarrow>
     files w' = files w \<and> set (pend w') \<subseteq> set (pend w) \<and> windows w' = windows w
     \<and> (\<forall>n. n \<noteq> WAL_file \<longrightarrow> fmlookup (durable w') n = fmlookup (durable w) n)
     \<and> (e = None \<longrightarrow> fmlookup (durable w') WAL_file = Some (contents WAL_file w))
     \<and> (e \<noteq> None \<longrightarrow> durable w' = durable w)"
  by (auto simp: syncKeyed_def file_Sync_def split: option.splits if_splits)

definition others_same :: "world \<Rightarrow> world \<Rightarrow> bool" where
  "others_same w w' \<longleftrightarrow>
     set (pend w') \<subseteq> set (pend w) \<and> windows w' = windows w
     \<and> (\<forall>n. n \<noteq> WAL_file \<longrightarrow> fmlookup (files w') n = fmlookup (files w) n
                           \<and> fmlookup (durable w') n = fmlookup (durable w) n)"

lemma processCommitGroup_tracks:
  assumes tr: "tracks base rs D db w" and q: "list_all (request_ok (config db)) qs" "hook_ok hooks" "length qs \<le> keyedMaxCommitGroup"
    and rec: "list_all (recoverable (options db)) (attempts hooks qs (groupStart db w qs))"
    and np: "\<not> poisoned db"
    and run: "processCommitGroup hooks qs db w = (results, db', w')"
    and L: "L = applied hooks qs (groupStart db w qs)"
  shows "\<exists>D'. tracks base (rs @ L) D' db' w'" and "others_same w w'"
    and "\<not> poisoned db' \<Longrightarrow>
      if L = [] then durable w' = durable w else fmlookup (durable w') WAL_file = Some (contents WAL_file w')"
    and "poisoned db' \<Longrightarrow> durable w' = durable w"
    and "0 < gFrames (fold (commitOne hooks) qs (groupStart db w qs)) \<longleftrightarrow> L \<noteq> []"
    and "(gStorageErr (fold (commitOne hooks) qs (groupStart db w qs)) = None)
      = (\<not> poisoned (gDB (fold (commitOne hooks) qs (groupStart db w qs))))"
proof -
  let ?st = "groupStart db w qs"
  let ?g = "fold (commitOne hooks) qs ?st"
  have "grouped base rs L ?st ?g"
    unfolding L using assms by (intro grouped_fold) (simp_all add: groupStart_def)
  then obtain D1 where g: "tracks base (rs @ L) D1 (gDB ?g) (gWorld ?g)" "wal_only w (gWorld ?g)"
    "gFrames ?g = of_nat (length L)" "(gStorageErr ?g = None) = (\<not> poisoned (gDB ?g))"
    using np by (auto simp: grouped_def groupStart_def)
  have "length L \<le> 64" using length_applied [of hooks qs ?st] q(3) L by (simp add: keyedMaxCommitGroup_def)
  then have fr: "0 < gFrames ?g \<longleftrightarrow> L \<noteq> []"
    using g(3) by (auto simp: word_less_nat_alt unat_of_nat)
  obtain se w1 where sy: "syncKeyed hooks (gWorld ?g) = (se, w1)" by fastforce
  note sw = syncKeyed_world [OF sy]
  have co: "contents WAL_file w1 = contents WAL_file (gWorld ?g)" using sw by (simp add: contents_def)
  have "db' = (if L \<noteq> [] \<and> \<not> poisoned (gDB ?g) then
          (if se = None then (gDB ?g)\<lparr>commitStats := countCommit (gFrames ?g) (commitStats (gDB ?g))\<rparr>
           else (gDB ?g)\<lparr>poisoned := True\<rparr>)
        else if poisoned (gDB ?g) \<or> L = [] then gDB ?g else db')
      \<and> w' = (if L \<noteq> [] \<and> \<not> poisoned (gDB ?g) then w1 else gWorld ?g)"
    using run g(4) fr sy
    by (cases se) (auto simp: processCommitGroup_def groupFinish_def split: option.splits if_splits)
  then have d: "db' = (if L \<noteq> [] \<and> \<not> poisoned (gDB ?g) then
          (if se = None then (gDB ?g)\<lparr>commitStats := countCommit (gFrames ?g) (commitStats (gDB ?g))\<rparr>
           else (gDB ?g)\<lparr>poisoned := True\<rparr>) else gDB ?g)"
    and w': "w' = (if L \<noteq> [] \<and> \<not> poisoned (gDB ?g) then w1 else gWorld ?g)" by auto
  have "dstate db' = dstate (gDB ?g)" "walOffset db' = walOffset (gDB ?g)"
    "contents WAL_file w' = contents WAL_file (gWorld ?g)" "poisoned (gDB ?g) \<longrightarrow> poisoned db'"
    by (auto simp: d w' dstate_def co)
  then have "tracks base (rs @ L) D1 db' w'" by (intro tracks_cong [OF g(1)])
  then show "\<exists>D'. tracks base (rs @ L) D' db' w'" ..
  show "others_same w w'" using g(2) sw by (auto simp: others_same_def wal_only_def w')
  show "if L = [] then durable w' = durable w else fmlookup (durable w') WAL_file = Some (contents WAL_file w')"
    if "\<not> poisoned db'"
    using that g(2) sw co by (auto simp: w' d wal_only_def)
  show "durable w' = durable w" if "poisoned db'"
    using that g(2) sw by (auto simp: w' d wal_only_def split: if_splits)
  show "0 < gFrames ?g \<longleftrightarrow> L \<noteq> []" by (rule fr)
  show "(gStorageErr ?g = None) = (\<not> poisoned (gDB ?g))" by (rule g(4))
qed

end
