(* ===== verification/Keyed_Reopen.thy ===== *)
theory Keyed_Reopen
  imports Keyed_Recovery
begin

text \<open>
  Opening a directory inverts the log: loading the snapshot of a database reproduces its durable
  state, and replaying the log over it reproduces what was committed since. A power loss anywhere,
  in particular between the steps of a snapshot, loses no acknowledged command.
\<close>

section \<open>Replaying over equal states\<close>

text \<open>What an opened handle carries besides the durable state.\<close>

definition handle :: "'a KeyedDB_scheme \<Rightarrow> bool \<times> nat \<times> bool \<times> bool \<times> keyedCommitStats \<times> 'a" where
  "handle db = (walOpen db, walOffset db, closed db, poisoned db, commitStats db, KeyedDB.more db)"

lemma handle_applyPlain: "handle (applyPlain r db) = handle db"
  by (simp add: handle_def applyKeyed_def Let_def)

lemma replayRecord_handle: "replayRecord (a, l) r = Inr (x, l') \<Longrightarrow> handle x = handle a"
  by (auto simp: replayRecord_def Let_def handle_applyPlain split: if_splits option.splits)

lemma replayRecord_cong:
  assumes "dstate a = dstate b" "replayRecord (a, l) r = Inr (x, l')"
  shows "\<exists>y. replayRecord (b, l) r = Inr (y, l') \<and> dstate y = dstate x"
  using assms(2) dstateD [OF assms(1)] validate_cong [OF assms(1), of r] dstate_applyPlain [OF assms(1), of r] assms(1)
  by (auto simp: replayRecord_def Let_def split: if_splits option.splits)

lemma fold_replay_handle: "fold_res replayRecord (a, l) rs = Inr (x, l') \<Longrightarrow> handle x = handle a"
proof (induction rs arbitrary: a l)
  case (Cons r rs)
  then obtain y m where "replayRecord (a, l) r = Inr (y, m)" "fold_res replayRecord (y, m) rs = Inr (x, l')"
    by (auto split: sum.splits)
  then show ?case using Cons.IH [of y m] replayRecord_handle by metis
qed simp

lemma fold_replay_cong:
  "dstate a = dstate b \<Longrightarrow> fold_res replayRecord (a, l) rs = Inr (x, l') \<Longrightarrow>
   \<exists>y. fold_res replayRecord (b, l) rs = Inr (y, l') \<and> dstate y = dstate x"
proof (induction rs arbitrary: a b l)
  case (Cons r rs)
  from Cons.prems(2) obtain a1 m where a1: "replayRecord (a, l) r = Inr (a1, m)"
    "fold_res replayRecord (a1, m) rs = Inr (x, l')" by (auto split: sum.splits)
  obtain b1 where b1: "replayRecord (b, l) r = Inr (b1, m)" "dstate b1 = dstate a1"
    using replayRecord_cong [OF Cons.prems(1) a1(1)] by blast
  then show ?case using Cons.IH [OF b1(2) [symmetric] a1(2)] by simp
qed auto

text \<open>The part of \<open>logged\<close> that opening needs; it passes to every prefix of the log.\<close>

definition replays :: "'a KeyedDB_scheme \<Rightarrow> keyedWALRecord list \<Rightarrow> 'b KeyedDB_scheme \<Rightarrow> bool" where
  "replays base rs db \<longleftrightarrow>
     list_all storable rs \<and> (\<exists>db1 l. fold_res replayRecord (base, 0) rs = Inr (db1, l) \<and> dstate db1 = dstate db)"

lemma logged_replays: "logged base rs db \<Longrightarrow> replays base rs db"
  by (auto simp: logged_def replays_def)

lemma replays_base: "replays base rs db \<Longrightarrow> dstate base' = dstate base \<Longrightarrow> replays base' rs db"
  using fold_replay_cong [of base base'] by (fastforce simp: replays_def)

lemma replays_prefix:
  fixes base :: "'a KeyedDB_scheme"
  assumes "replays base rs db" "prefix rs' rs"
  shows "\<exists>db' :: 'a KeyedDB_scheme. replays base rs' db'"
  using assms by (fastforce simp: replays_def prefix_def fold_res_append split: sum.splits)

section \<open>Loading a snapshot\<close>

lemma snapshotOf_window:
  "dedupe_inv db \<Longrightarrow> snapshotOf db =
     \<lparr>sSequence = sequence db, sRecords = records db, sDedupe = map snd (dedupeWindow db)\<rparr>"
  by (simp add: snapshotOf_def dedupeWindow_def) (metis (no_types, lifting) dedupe_inv_lookup option.case_eq_if)

lemma checkSnapshotRecords_ok:
  "(\<And>k v. (k, v) \<in> set kvs \<Longrightarrow> stored_ok db k v) \<Longrightarrow> checkSnapshotRecords db kvs = None"
  by (induction db kvs rule: checkSnapshotRecords.induct) (auto simp: stored_ok_def not_less)

lemma loadDedupe_ok:
  assumes "\<forall>r \<in> set rs. record_ok db r \<and> rMutations r = [] \<and> rSequence r \<noteq> 0 \<and> rSequence r \<le> frontier"
    and "sorted_wrt (<) (map rSequence rs)" "\<forall>r \<in> set rs. l < rSequence r"
    and "distinct (map rCommandID rs)" "\<forall>r \<in> set rs. fmlookup (dedupe db) (rCommandID r) = None"
    and "0 \<le> MaxTransactionBytes (options db)"
  shows "loadDedupe frontier (db, l) rs =
    Inr (db\<lparr>dedupe := fold (\<lambda>r. fmupd (rCommandID r) r) rs (dedupe db), dedupeIDs := dedupeIDs db @ map rCommandID rs\<rparr>,
         if rs = [] then l else rSequence (last rs))"
  using assms
proof (induction rs arbitrary: db l)
  case (Cons r rs)
  let ?db = "db\<lparr>dedupe := fmupd (rCommandID r) r (dedupe db), dedupeIDs := dedupeIDs db @ [rCommandID r]\<rparr>"
  have cong: "record_ok ?db = record_ok db" using record_ok_cong [of ?db db] by simp
  have "validateKeyedRecord db r = None"
    using Cons.prems by (simp add: validateKeyedRecord_iff mutBytes_def)
  moreover have "rCommandID r \<noteq> []" using Cons.prems(1) by (simp add: record_ok_def)
  ultimately have "loadDedupe frontier (db, l) (r # rs) = loadDedupe frontier (?db, rSequence r) rs"
    using Cons.prems by (auto simp: not_le not_less)
  also have "\<dots> = Inr (?db\<lparr>dedupe := fold (\<lambda>r. fmupd (rCommandID r) r) rs (dedupe ?db),
      dedupeIDs := dedupeIDs ?db @ map rCommandID rs\<rparr>, if rs = [] then rSequence r else rSequence (last rs))"
    using Cons.prems cong by (intro Cons.IH) auto
  finally show ?case by simp
qed simp

lemma fold_fmupd_window:
  "fold (\<lambda>r. fmupd (rCommandID r) r) rs m = fold (\<lambda>(k, v). fmupd k v) (map (\<lambda>r. (rCommandID r, r)) rs) m"
  by (induction rs arbitrary: m) auto

text \<open>Installing the snapshot of a database reproduces its durable state in a fresh handle.\<close>

lemma installSnapshot_ok:
  assumes inv: "keyed_inv db"
    and fresh: "options base = options db" "format base = format db" "dedupe base = fmempty" "dedupeIDs base = []"
  shows "\<exists>db'. installSnapshot base (snapshotOf db) = Inr db' \<and> dstate db' = dstate db \<and> handle db' = handle base"
proof -
  have d: "dedupe_inv db" and e: "list_all (entry_ok db) (dedupeWindow db)" and f: "frontier_ok db"
    and o: "options_ok (options db)" using inv by (auto simp: keyed_inv_def)
  let ?rs = "map snd (dedupeWindow db)"
  let ?b = "base\<lparr>records := records db, sequence := sequence db\<rparr>"
  have cong: "stored_ok base = stored_ok db" "record_ok ?b = record_ok db"
    using record_ok_cong [of base db] record_ok_cong [of ?b db] fresh by simp_all
  have ids: "map rCommandID ?rs = dedupeIDs db" "map (\<lambda>r. (rCommandID r, r)) ?rs = dedupeWindow db"
    using e by (auto simp: list_all_iff entry_ok_def dedupeWindow_def intro!: map_idI nth_equalityI)
  have srt: "sorted_wrt (<) (map rSequence ?rs)" using f by (simp add: frontier_ok_def)
  have last: "?rs \<noteq> [] \<Longrightarrow> rSequence (last ?rs) = sequence db" using f by (auto simp: frontier_ok_def last_map)
  have "rSequence r \<le> sequence db" if "r \<in> set ?rs" for r
  proof (cases ?rs rule: rev_cases)
    case (snoc xs x)
    then show ?thesis using that srt last by (auto simp: sorted_wrt_append)
  qed (use that in simp)
  then have each: "\<forall>r \<in> set ?rs. record_ok ?b r \<and> rMutations r = [] \<and> rSequence r \<noteq> 0 \<and> rSequence r \<le> sequence db"
    unfolding cong using e by (auto simp: list_all_iff entry_ok_def)
  have ld: "loadDedupe (sequence db) (?b, 0) ?rs =
      Inr (?b\<lparr>dedupe := fold (\<lambda>r. fmupd (rCommandID r) r) ?rs (dedupe ?b), dedupeIDs := dedupeIDs ?b @ map rCommandID ?rs\<rparr>,
           if ?rs = [] then 0 else rSequence (last ?rs))"
    using each srt d o fresh ids(1)
    by (intro loadDedupe_ok) (auto simp: word_neq_0_conv dedupe_inv_def options_ok_def)
  have dd: "fold (\<lambda>r. fmupd (rCommandID r) r) ?rs fmempty = dedupe db"
  proof (rule fmap_ext)
    fix i
    have "distinct (map fst (dedupeWindow db))" using d by (simp add: keyed_dedupe.window_distinct)
    then show "fmlookup (fold (\<lambda>r. fmupd (rCommandID r) r) ?rs fmempty) i = fmlookup (dedupe db) i"
      unfolding fold_fmupd_window ids(2) using map_of_dedupeWindow [OF d, of i]
      by (simp add: fmlookup_fold_fmupd split: option.split)
  qed
  have "checkSnapshotRecords base (sorted_list_of_fmap (records db)) = None"
  proof (rule checkSnapshotRecords_ok)
    fix k v assume "(k, v) \<in> set (sorted_list_of_fmap (records db))"
    then have "map_of (sorted_list_of_fmap (records db)) k = Some v"
      using distinct_sorted_list_of_fmap by (intro map_of_is_SomeI) auto
    then show "stored_ok base k v" using inv cong(1) by (simp add: keyed_inv_def)
  qed
  moreover have "length (dedupeWindow db) = length (dedupeIDs db)" by (simp add: dedupeWindow_def)
  moreover have "sequence db \<noteq> 0 \<longrightarrow> ?rs \<noteq> []" using f by (auto simp: frontier_ok_def)
  ultimately show ?thesis
    using inv d ld dd last fresh ids(1)
    by (auto simp: installSnapshot_def snapshotOf_window keyed_inv_def dedupe_inv_def dstate_def handle_def)
qed

section \<open>Opening\<close>

text \<open>A world in which no call fails, and calls that change nothing.\<close>

definition calm :: "world \<Rightarrow> bool" where
  "calm w \<longleftrightarrow> (\<forall>n. faults w n = OpOk)"

definition quiet :: "world \<Rightarrow> world \<Rightarrow> bool" where
  "quiet w w' \<longleftrightarrow> files w' = files w \<and> durable w' = durable w \<and> pend w' = pend w \<and> windows w' = windows w \<and> calm w'"

lemma calm_next [simp]: "calm w \<Longrightarrow> next_outcome w = OpOk"
  by (simp add: calm_def next_outcome_def)

lemma calm_updates [simp]:
  "calm (ticked w) = calm w" "calm (w\<lparr>files := f\<rparr>) = calm w" "calm (w\<lparr>durable := d\<rparr>) = calm w" "calm (w\<lparr>pend := p\<rparr>) = calm w"
  by (simp_all add: calm_def)

lemma quiet_ticked [simp]: "calm w \<Longrightarrow> quiet w (ticked w)"
  by (simp add: quiet_def)

lemma quiet_trans: "quiet a b \<Longrightarrow> quiet b c \<Longrightarrow> quiet a c"
  by (simp add: quiet_def)

text \<open>What a directory holds: the marker, a snapshot that loads as \<open>base\<close>, and the log.\<close>

definition snapshot_loads :: "(fname, bytes) fmap \<Rightarrow> 'a KeyedDB_scheme \<Rightarrow> 'a KeyedDB_scheme \<Rightarrow> bool" where
  "snapshot_loads m db base \<longleftrightarrow>
     (case fmlookup m SNAPSHOT_file of
        None \<Rightarrow> base = db
      | Some data \<Rightarrow> (case decodeSnapshotImage data of Inl e \<Rightarrow> False | Inr snap \<Rightarrow> installSnapshot db snap = Inr base))"

definition wal_of :: "(fname, bytes) fmap \<Rightarrow> bytes" where
  "wal_of m = (case fmlookup m WAL_file of None \<Rightarrow> [] | Some c \<Rightarrow> c)"

lemma contents_wal_of: "contents WAL_file w = wal_of (files w)"
  by (simp add: contents_def wal_of_def)

lemma ensureKeyedFormat_present:
  "calm w \<Longrightarrow> fmlookup (files w) FORMAT = Some fmt \<Longrightarrow> \<exists>w'. ensureKeyedFormat fmt w = (None, w') \<and> quiet w w'"
  by (simp add: ensureKeyedFormat_def os_MkdirAll_def io_check_def os_ReadFile_def quiet_def)

lemma loadKeyedSnapshot_ok:
  "calm w \<Longrightarrow> snapshot_loads (files w) db base \<Longrightarrow>
   \<exists>w'. loadKeyedSnapshot db w = (Inr base, w') \<and> quiet w w'"
  by (auto simp: loadKeyedSnapshot_def os_ReadFile_def snapshot_loads_def quiet_def
      split: option.splits sum.splits)

lemma os_OpenRdwr_ok:
  "calm w \<Longrightarrow> \<exists>w'. os_OpenRdwr n w = (None, w') \<and> calm w' \<and> contents n w' = contents n w
     \<and> (\<forall>m. m \<noteq> n \<longrightarrow> fmlookup (files w') m = fmlookup (files w) m) \<and> durable w' = durable w \<and> pend w' = pend w
     \<and> windows w' = windows w \<and> fmlookup (files w') n \<noteq> None"
  by (auto simp: os_OpenRdwr_def contents_def in_fmdom_iff)

lemma replayKeyedWAL_ok:
  assumes "calm w" "contents WAL_file w = walImage rs @ t" "torn t" "list_all storable rs"
    and "fold_res replayRecord (base, 0) rs = Inr (db, l)"
  shows "\<exists>w'. replayKeyedWAL base w = (Inr db, w') \<and> calm w' \<and> contents WAL_file w' = walImage rs \<and> others_same w w'
    \<and> (fmlookup (durable w) WAL_file = Some (contents WAL_file w) \<longrightarrow> fmlookup (durable w') WAL_file = Some (walImage rs))
    \<and> (fmlookup (files w) WAL_file \<noteq> None \<longrightarrow> fmlookup (files w') WAL_file = Some (walImage rs))"
proof -
  have r: "replayFrames (base, 0) 0 (walImage rs @ t) = Inr ((db, l), length (walImage rs))"
    using assms by (intro replayFrames_logged)
  show ?thesis
  proof (cases "t = []")
    case True
    then show ?thesis using assms r
      by (auto simp: replayKeyedWAL_def file_Seek_def io_check_def Let_def others_same_def contents_def)
  next
    case False
    then show ?thesis using assms r
      by (auto simp: replayKeyedWAL_def file_Seek_def io_check_def Let_def others_same_def truncateKeyedTail_def
          file_Truncate_def file_Sync_def)
  qed
qed

text \<open>
  The recovery theorem: a directory whose log replays to the durable state of \<open>db\<close>, with a torn tail
  or without, opens, the opened handle has that durable state, and the tail is gone.
\<close>

lemma openStorage_recovers:
  assumes calm: "calm w" and fmt: "fmlookup (files w) FORMAT = Some (format db0)"
    and snap: "snapshot_loads (files w) db0 base"
    and wal: "contents WAL_file w = walImage rs @ t" "torn t" and lg: "replays base rs db"
  shows "\<exists>db' w'. openStorage db0 w = (Inr db', w') \<and> dstate db' = dstate db \<and> walOpen db'
    \<and> closed db' = closed base \<and> poisoned db' = poisoned base
    \<and> contents WAL_file w' = walImage rs \<and> walOffset db' = length (walImage rs) \<and> calm w' \<and> others_same w w'
    \<and> (fmlookup (durable w) WAL_file = Some (contents WAL_file w) \<longrightarrow> fmlookup (durable w') WAL_file = Some (walImage rs))
    \<and> fmlookup (files w') WAL_file = Some (walImage rs)"
proof -
  obtain w1 where w1: "ensureKeyedFormat (format db0) w = (None, w1)" "quiet w w1"
    using ensureKeyedFormat_present [OF calm fmt] by blast
  then have c1: "calm w1" "snapshot_loads (files w1) db0 base" using snap by (auto simp: quiet_def)
  obtain w2 where w2: "loadKeyedSnapshot db0 w1 = (Inr base, w2)" "quiet w1 w2"
    using loadKeyedSnapshot_ok [OF c1] by blast
  obtain w3 where w3: "os_OpenRdwr WAL_file w2 = (None, w3)" "calm w3" "contents WAL_file w3 = contents WAL_file w2"
    "\<forall>m. m \<noteq> WAL_file \<longrightarrow> fmlookup (files w3) m = fmlookup (files w2) m" "durable w3 = durable w2" "pend w3 = pend w2"
    "windows w3 = windows w2" "fmlookup (files w3) WAL_file \<noteq> None"
    using os_OpenRdwr_ok [of w2 WAL_file] w2(2) by (auto simp: quiet_def)
  have c3: "contents WAL_file w3 = walImage rs @ t"
    using w3(3) w2(2) w1(2) wal(1) by (simp add: contents_def quiet_def)
  have "dstate (base\<lparr>walOpen := True\<rparr>) = dstate base" by (simp add: dstate_def)
  from replays_base [OF lg this] obtain db1 l where db1:
    "fold_res replayRecord (base\<lparr>walOpen := True\<rparr>, 0) rs = Inr (db1, l)" "dstate db1 = dstate db" "list_all storable rs"
    by (auto simp: replays_def)
  obtain w4 where w4: "replayKeyedWAL (base\<lparr>walOpen := True\<rparr>) w3 = (Inr db1, w4)" "calm w4"
    "contents WAL_file w4 = walImage rs" "others_same w3 w4"
    "fmlookup (durable w3) WAL_file = Some (contents WAL_file w3) \<longrightarrow> fmlookup (durable w4) WAL_file = Some (walImage rs)"
    "fmlookup (files w4) WAL_file = Some (walImage rs)"
    using replayKeyedWAL_ok [OF w3(2) c3 wal(2) db1(3,1)] w3(8) by blast
  have h: "handle db1 = handle (base\<lparr>walOpen := True\<rparr>)" by (rule fold_replay_handle [OF db1(1)])
  let ?db = "db1\<lparr>walOffset := length (contents WAL_file (ticked w4))\<rparr>"
  have "openStorage db0 w = (Inr ?db, ticked w4)"
    using w1 w2 w3(1) w4(1,2) by (simp add: openStorage_def file_Seek_def io_check_def)
  moreover have "contents WAL_file (ticked w4) = walImage rs" using w4(3) by simp
  moreover have "others_same w (ticked w4)"
    using w1(2) w2(2) w3 w4(4) by (auto simp: others_same_def quiet_def)
  moreover have "fmlookup (durable w) WAL_file = Some (contents WAL_file w) \<longrightarrow>
      fmlookup (durable (ticked w4)) WAL_file = Some (walImage rs)"
    using w4(5) w3(3,5) w2(2) w1(2) by (simp add: contents_def quiet_def)
  ultimately show ?thesis using db1(2) h w4(2,6) by (simp add: dstate_def handle_def)
qed

section \<open>Power loss\<close>

text \<open>
  \<open>restorable db0 base rs m\<close>: the directory \<open>m\<close> carries the format marker, a snapshot that installs
  \<open>base\<close> in the fresh handle \<open>db0\<close>, and a log of the records \<open>rs\<close>, possibly with a torn tail.
\<close>

definition restorable :: "'a KeyedDB_scheme \<Rightarrow> 'a KeyedDB_scheme \<Rightarrow> keyedWALRecord list \<Rightarrow> (fname, bytes) fmap \<Rightarrow> bool" where
  "restorable db0 base rs m \<longleftrightarrow>
     fmlookup m FORMAT = Some (format db0) \<and> snapshot_loads m db0 base
     \<and> (\<exists>t. fmlookup m WAL_file = Some (walImage rs @ t) \<and> torn t)"

lemma apply_rename_other: "n \<noteq> a \<Longrightarrow> n \<noteq> b \<Longrightarrow> fmlookup (apply_rename a b m) n = fmlookup m n"
  by (simp add: apply_rename_def split: option.split)

lemma apply_pend_other:
  "\<forall>op \<in> set ops. \<not> touches op n \<Longrightarrow> fmlookup (apply_pend ops m) n = fmlookup m n"
  by (induction ops m rule: apply_pend.induct) (auto simp: apply_rename_other)

lemma crash_untouched:
  assumes "crash w m" "\<And>op. op \<in> set (pend w) \<Longrightarrow> \<not> touches op n"
  shows "case fmlookup (durable w) n of
      Some d \<Rightarrow> (\<exists>c. fmlookup m n = Some c \<and> survives d (contents n w) c)
    | None \<Rightarrow> (case fmlookup m n of None \<Rightarrow> True | Some c \<Rightarrow> n |\<in>| fmdom (files w) \<and> prefix c (contents n w))"
proof -
  obtain k where k: "case fmlookup (apply_pend (take k (pend w)) (durable w)) n of
      Some d \<Rightarrow> (case fmlookup m n of None \<Rightarrow> False
        | Some c \<Rightarrow> survives d (if list_ex (\<lambda>op. touches op n) (drop k (pend w)) then d else contents n w) c)
    | None \<Rightarrow> (case fmlookup m n of None \<Rightarrow> True
        | Some c \<Rightarrow> \<not> list_ex (\<lambda>op. touches op n) (drop k (pend w)) \<and> n |\<in>| fmdom (files w) \<and> prefix c (contents n w))"
    using assms(1) unfolding crash_def Let_def by blast
  moreover have "fmlookup (apply_pend (take k (pend w)) (durable w)) n = fmlookup (durable w) n"
    using assms(2) by (intro apply_pend_other) (auto dest: in_set_takeD)
  moreover have "\<not> list_ex (\<lambda>op. touches op n) (drop k (pend w))"
    using assms(2) by (auto simp: list_ex_iff dest: in_set_dropD)
  ultimately show ?thesis by (auto split: option.splits)
qed

definition untouched :: "world \<Rightarrow> fname set \<Rightarrow> bool" where
  "untouched w N \<longleftrightarrow> (\<forall>op \<in> set (pend w). \<forall>n \<in> N. \<not> touches op n)"

text \<open>A file whose persistent and visible contents agree survives as it is.\<close>

lemma crash_settled:
  assumes "crash w m" "untouched w {n}" "fmlookup (durable w) n = fmlookup (files w) n"
  shows "fmlookup m n = fmlookup (files w) n"
  using crash_untouched [of w m n] assms
  by (cases "fmlookup (files w) n")
    (auto simp: untouched_def contents_def survives_def in_fmdom_iff prefix_order.antisym split: option.splits)

text \<open>
  The loss theorem for commits: whatever the faults were, a power loss leaves a log from which a
  prefix of the appended records is recovered, and the prefix contains everything synchronised.
\<close>

lemma crash_commit:
  fixes base :: "'a KeyedDB_scheme"
  assumes tr: "tracks base rs D db w" and cr: "crash w m"
    and un: "untouched w {FORMAT, SNAPSHOT_file, WAL_file}"
    and fmt: "fmlookup (files w) FORMAT = Some (format db0)" "fmlookup (durable w) FORMAT = Some (format db0)"
    and snap: "fmlookup (durable w) SNAPSHOT_file = fmlookup (files w) SNAPSHOT_file" "snapshot_loads (files w) db0 base"
    and dur: "fmlookup (durable w) WAL_file = Some (walImage synced)" and pre: "prefix synced rs"
  shows "\<exists>rs'. prefix synced rs' \<and> prefix rs' (rs @ D) \<and> restorable db0 base rs' m"
proof -
  have un1: "untouched w {n}" if "n \<in> {FORMAT, SNAPSHOT_file, WAL_file}" for n
    using un that by (auto simp: untouched_def)
  have mf: "fmlookup m FORMAT = Some (format db0)"
    using crash_settled [OF cr un1, of FORMAT] fmt by simp
  have ms: "snapshot_loads m db0 base"
    using crash_settled [OF cr un1, of SNAPSHOT_file] snap by (simp add: snapshot_loads_def)
  have st: "list_all storable (rs @ D)" using tr by (auto simp: tracks_def logged_def)
  obtain t where t: "contents WAL_file w = walImage (rs @ D) @ t" "torn t" using tr by (auto simp: tracks_def)
  have pre': "prefix (walImage synced) (contents WAL_file w)" using pre t by (auto simp: prefix_def)
  obtain c where c: "fmlookup m WAL_file = Some c" "prefix (walImage synced) c" "prefix c (walImage (rs @ D) @ t)"
    using crash_untouched [OF cr, of WAL_file] un dur pre' t
    by (auto simp: untouched_def survives_def)
  obtain us where us: "rs @ D = synced @ us" using pre by (auto simp: prefix_def)
  obtain c' where c': "c = walImage synced @ c'" using c(2) by (auto simp: prefix_def)
  have "prefix c' (walImage us @ t)" using c(3) c' us by (simp add: walImage_simps(3) [symmetric] del: walImage_simps(3)) simp
  from prefix_walImage [OF this t(2)] st us obtain k t' where k: "c' = walImage (take k us) @ t'" "torn t'" by auto
  let ?rs = "synced @ take k us"
  have "prefix ?rs (rs @ D)" using us take_is_prefix [of k us] by simp
  moreover have "c = walImage ?rs @ t'" using c' k(1) by simp
  ultimately show ?thesis using mf ms k(2) c(1) unfolding restorable_def
    by (intro exI [of _ ?rs]) auto
qed

lemma crash_same: "durable w = files w \<Longrightarrow> pend w = [] \<Longrightarrow> crash w (files w)"
  by (auto simp: crash_def survives_def contents_def split: option.splits)

end
