(* ===== verification/Keyed_Snapshot.thy ===== *)
theory Keyed_Snapshot
  imports Keyed_Reopen
begin

text \<open>
  Snapshots under power loss. The snapshot is written to a temporary file, synchronised, renamed, the
  directory synchronised, and only then is the log truncated; at every point of that sequence, and
  whichever of its calls fails, the directory recovers to the state that was being saved.
\<close>

section \<open>Logs behind a snapshot\<close>

text \<open>Every record of a log is at most as new as its end, and is valid in the final state.\<close>

lemma replayRecord_step:
  assumes "replayRecord (a, l) r = Inr (x, l')"
  shows "l' = rSequence r" "rSequence r \<noteq> 0" "l \<noteq> 0 \<longrightarrow> rSequence r = l + 1" "validateKeyedRecord a r = None"
    "options x = options a" "format x = format a"
  using assms by (auto simp: replayRecord_def Let_def split: if_splits option.splits)

lemma validateKeyedRecord_options:
  "options a = options b \<Longrightarrow> format a = format b \<Longrightarrow> validateKeyedRecord a r = None \<longleftrightarrow> validateKeyedRecord b r = None"
  using record_ok_cong(2) [of a b] by (simp add: validateKeyedRecord_iff)

lemma fold_replay_bounds:
  "fold_res replayRecord (a, l) rs = Inr (x, l') \<Longrightarrow>
     l \<le> l' \<and> options x = options a \<and> format x = format a
     \<and> (\<forall>r \<in> set rs. rSequence r \<noteq> 0 \<and> rSequence r \<le> l' \<and> validateKeyedRecord a r = None)"
proof (induction rs arbitrary: a l)
  case (Cons r rs)
  then obtain a1 where a1: "replayRecord (a, l) r = Inr (a1, rSequence r)"
    "fold_res replayRecord (a1, rSequence r) rs = Inr (x, l')"
    using replayRecord_step(1) by (fastforce split: sum.splits)
  note st = replayRecord_step [OF a1(1)]
  have "l \<le> rSequence r"
    using st(2,3) u64_succ_less [of l] by (cases "l = 0") (auto intro: less_imp_le)
  then show ?case
    using Cons.IH [OF a1(2)] st(2,4-6) validateKeyedRecord_options [of a a1] by auto
qed simp

lemma fold_replay_skip:
  "fold_res replayRecord (a, l) rs = Inr (x, l') \<Longrightarrow>
   \<forall>r \<in> set rs. validateKeyedRecord b r = None \<and> rSequence r \<le> sequence b \<Longrightarrow>
   fold_res replayRecord (b, l) rs = Inr (b, l')"
proof (induction rs arbitrary: a l)
  case (Cons r rs)
  then obtain a1 where a1: "replayRecord (a, l) r = Inr (a1, rSequence r)"
    "fold_res replayRecord (a1, rSequence r) rs = Inr (x, l')"
    using replayRecord_step(1) by (fastforce split: sum.splits)
  have "replayRecord (b, l) r = Inr (b, rSequence r)"
    using replayRecord_step(2,3) [OF a1(1)] Cons.prems(2) by (auto simp: replayRecord_def)
  then show ?case using Cons.IH [OF a1(2)] Cons.prems(2) by simp
qed simp

text \<open>A log whose records a newer snapshot already contains replays to that snapshot.\<close>

lemma logged_skip:
  assumes "logged base rs db" "dstate b = dstate db"
  shows "logged b rs db"
proof -
  obtain db1 l where f: "fold_res replayRecord (base, 0) rs = Inr (db1, l)" "dstate db1 = dstate db"
    "l = 0 \<or> l = sequence db" "list_all storable rs" using assms(1) by (auto simp: logged_def)
  note bd = fold_replay_bounds [OF f(1)]
  have "validateKeyedRecord b r = None \<and> rSequence r \<le> sequence b" if "r \<in> set rs" for r
  proof -
    have "l \<noteq> 0" using bd that by auto
    then have "rSequence r \<le> sequence b" using bd that f(3) dstateD [OF assms(2)] by auto
    moreover have "validateKeyedRecord b r = None"
      using bd that dstateD [OF f(2)] dstateD [OF assms(2)] validateKeyedRecord_options [of b base r] by auto
    ultimately show ?thesis by simp
  qed
  with fold_replay_skip [OF f(1)] show ?thesis using f(3,4) assms(2) by (auto simp: logged_def)
qed

text \<open>
  The states a snapshot passes through. \<open>settled s d v\<close>: nothing is pending for the marker, the
  snapshot and the log; the snapshot is \<open>s\<close>, the log is \<open>d\<close> persistently and \<open>v\<close> visibly. \<open>renaming\<close>:
  the new snapshot has been renamed into place, but the directory has not been synchronised.
\<close>

definition storeFiles :: "fname set" where
  "storeFiles = {FORMAT, SNAPSHOT_file, WAL_file}"

definition settled :: "bytes \<Rightarrow> bytes option \<Rightarrow> bytes \<Rightarrow> bytes \<Rightarrow> world \<Rightarrow> bool" where
  "settled fmt s d v w \<longleftrightarrow>
     \<not> windows w \<and> untouched w storeFiles
     \<and> fmlookup (durable w) FORMAT = Some fmt \<and> fmlookup (files w) FORMAT = Some fmt
     \<and> fmlookup (durable w) SNAPSHOT_file = s \<and> fmlookup (files w) SNAPSHOT_file = s
     \<and> fmlookup (durable w) WAL_file = Some d \<and> fmlookup (files w) WAL_file = Some v
     \<and> (\<forall>op \<in> set (pend w). touches op SNAPSHOT_tmp \<longrightarrow> op = PendRemove SNAPSHOT_tmp)"

definition tmpReady :: "bytes \<Rightarrow> world \<Rightarrow> bool" where
  "tmpReady env w \<longleftrightarrow>
     fmlookup (durable w) SNAPSHOT_tmp = Some env \<and> fmlookup (files w) SNAPSHOT_tmp = Some env
     \<and> PendRemove SNAPSHOT_tmp \<notin> set (pend w)"

definition renaming :: "bytes \<Rightarrow> bytes option \<Rightarrow> bytes \<Rightarrow> bytes \<Rightarrow> world \<Rightarrow> bool" where
  "renaming fmt s env d w \<longleftrightarrow>
     \<not> windows w
     \<and> (\<exists>ops1 ops2. pend w = ops1 @ PendRename SNAPSHOT_tmp SNAPSHOT_file # ops2
          \<and> (\<forall>op \<in> set ops1. \<forall>n \<in> insert SNAPSHOT_tmp storeFiles. \<not> touches op n)
          \<and> set ops2 \<subseteq> {PendRemove SNAPSHOT_tmp})
     \<and> fmlookup (durable w) FORMAT = Some fmt \<and> fmlookup (files w) FORMAT = Some fmt
     \<and> fmlookup (durable w) SNAPSHOT_tmp = Some env
     \<and> fmlookup (durable w) SNAPSHOT_file = s \<and> fmlookup (files w) SNAPSHOT_file = Some env
     \<and> fmlookup (durable w) WAL_file = Some d \<and> fmlookup (files w) WAL_file = Some d"

text \<open>A call that touches nothing but the temporary file.\<close>

definition tmp_only :: "world \<Rightarrow> world \<Rightarrow> bool" where
  "tmp_only w w' \<longleftrightarrow>
     windows w' = windows w \<and> set (pend w') \<subseteq> insert (PendRemove SNAPSHOT_tmp) (set (pend w))
     \<and> (\<forall>n. n \<noteq> SNAPSHOT_tmp \<longrightarrow> fmlookup (files w') n = fmlookup (files w) n
                              \<and> fmlookup (durable w') n = fmlookup (durable w) n)"

lemma settled_tmp_only:
  assumes "settled fmt s d v w" "tmp_only w w'"
  shows "settled fmt s d v w'"
proof -
  have ops: "op = PendRemove SNAPSHOT_tmp \<or> op \<in> set (pend w)" if "op \<in> set (pend w')" for op
    using that assms(2) by (auto simp: tmp_only_def)
  have "untouched w' storeFiles"
    using assms(1) ops by (fastforce simp: settled_def untouched_def storeFiles_def)
  moreover have "\<forall>op \<in> set (pend w'). touches op SNAPSHOT_tmp \<longrightarrow> op = PendRemove SNAPSHOT_tmp"
    using assms(1) ops by (auto simp: settled_def)
  ultimately show ?thesis using assms by (simp add: settled_def tmp_only_def)
qed

lemma tmp_only_trans: "tmp_only a b \<Longrightarrow> tmp_only b c \<Longrightarrow> tmp_only a c"
  unfolding tmp_only_def by (simp, blast)

lemma tmp_only_calls:
  "tmp_only w (ticked w)"
  "tmp_only w (snd (os_Remove SNAPSHOT_tmp w))"
  "tmp_only w (snd (os_OpenExcl SNAPSHOT_tmp w))"
  "tmp_only w (snd (write_all SNAPSHOT_tmp off env w))"
  "tmp_only w (snd (file_Sync SNAPSHOT_tmp w))"
  by (auto simp: tmp_only_def os_Remove_def os_OpenExcl_def write_all_def file_Write_def file_Sync_def
      split: outcome.split prod.split option.split)

lemma tmp_only_close: "tmp_only w (snd r) \<Longrightarrow> tmp_only w (snd (close_after r))"
  using tmp_only_trans [OF _ tmp_only_calls(1)]
  by (auto simp: close_after_def file_Close_def io_check_def split: prod.split)

lemma tmp_only_and_then: "tmp_only w (snd r) \<Longrightarrow> (\<And>v. tmp_only v (snd (call v))) \<Longrightarrow> tmp_only w (snd (and_then r call))"
  by (cases r; cases "fst r") (auto intro: tmp_only_trans)

text \<open>Writing the temporary file.\<close>

lemma write_tmp:
  assumes "os_OpenExcl SNAPSHOT_tmp w = (None, w1)"
    and "close_after (and_then (write_all SNAPSHOT_tmp 0 env w1) (file_Sync SNAPSHOT_tmp)) = (e, w2)"
  shows "tmp_only w w2" "e = None \<Longrightarrow> tmpReady env w2"
proof -
  have "tmp_only w w1" using tmp_only_calls(3) [of w] assms(1) by simp
  moreover have "tmp_only w1 w2"
    using tmp_only_close [OF tmp_only_and_then [OF tmp_only_calls(4) [of w1 0 env] tmp_only_calls(5)]] assms(2) by simp
  ultimately show "tmp_only w w2" by (rule tmp_only_trans)
  have c1: "contents SNAPSHOT_tmp w1 = []"
    using assms(1) by (auto simp: os_OpenExcl_def split: if_splits)
  assume "e = None"
  then show "tmpReady env w2"
    using assms(2) c1
    by (auto simp: close_after_def write_all_def file_Write_def file_Sync_def file_Close_def io_check_def and_then_def
        tmpReady_def write_at_def split: prod.splits option.splits if_splits outcome.splits)
qed

text \<open>Renaming it into place, and synchronising the directory.\<close>

lemma rename_tmp:
  assumes "settled fmt s d d w" "tmpReady env w" "os_Rename SNAPSHOT_tmp SNAPSHOT_file w = (e, w')"
  shows "e = None \<Longrightarrow> renaming fmt s env d w'" "e \<noteq> None \<Longrightarrow> settled fmt s d d w'"
proof -
  have p: "\<forall>op \<in> set (pend w). \<forall>n \<in> insert SNAPSHOT_tmp storeFiles. \<not> touches op n"
    using assms(1,2) by (auto simp: settled_def tmpReady_def untouched_def)
  show "renaming fmt s env d w'" if "e = None"
  proof -
    have w': "w' = (ticked w)\<lparr>files := apply_rename SNAPSHOT_tmp SNAPSHOT_file (files w),
        pend := pend w @ [PendRename SNAPSHOT_tmp SNAPSHOT_file]\<rparr>"
      using that assms(3) by (simp add: os_Rename_def split: if_splits)
    have "\<exists>ops1 ops2. pend w' = ops1 @ PendRename SNAPSHOT_tmp SNAPSHOT_file # ops2
        \<and> (\<forall>op \<in> set ops1. \<forall>n \<in> insert SNAPSHOT_tmp storeFiles. \<not> touches op n)
        \<and> set ops2 \<subseteq> {PendRemove SNAPSHOT_tmp}"
      using p by (intro exI [of _ "pend w"] exI [of _ "[]"]) (simp add: w')
    then show ?thesis
      using assms(1,2) unfolding renaming_def by (simp add: w' settled_def tmpReady_def apply_rename_def)
  qed
  show "settled fmt s d d w'" if "e \<noteq> None"
    using that assms settled_tmp_only [OF assms(1) tmp_only_calls(1)] by (auto simp: os_Rename_def split: if_splits)
qed

lemma renaming_ticked: "renaming fmt s env d (ticked w) = renaming fmt s env d w"
  by (simp add: renaming_def)

lemma settled_ticked: "settled fmt s d v (ticked w) = settled fmt s d v w"
  by (simp add: settled_def untouched_def)

lemma apply_pend_append: "apply_pend (a @ b) m = apply_pend b (apply_pend a m)"
  by (induction a m rule: apply_pend.induct) auto

lemma renaming_synced:
  assumes "renaming fmt s env d w"
  shows "settled fmt (Some env) d d (w\<lparr>durable := apply_pend (pend w) (durable w), pend := []\<rparr>)"
proof -
  obtain ops1 ops2 where p: "pend w = ops1 @ PendRename SNAPSHOT_tmp SNAPSHOT_file # ops2"
    "\<forall>op \<in> set ops1. \<forall>n \<in> insert SNAPSHOT_tmp storeFiles. \<not> touches op n" "set ops2 \<subseteq> {PendRemove SNAPSHOT_tmp}"
    using assms by (auto simp: renaming_def)
  have tmp: "fmlookup (apply_pend ops1 (durable w)) SNAPSHOT_tmp = Some env"
    using p(2) assms by (subst apply_pend_other) (auto simp: renaming_def)
  have o2: "fmlookup (apply_pend ops2 m) n = fmlookup m n" if "n \<noteq> SNAPSHOT_tmp" for m n
    using p(3) that by (intro apply_pend_other) auto
  have o1: "fmlookup (apply_pend ops1 (durable w)) n = fmlookup (durable w) n" if "n \<in> storeFiles" for n
    using p(2) that by (intro apply_pend_other) auto
  show ?thesis
    using assms tmp o1
    by (auto simp: settled_def renaming_def p(1) apply_pend_append o2 apply_rename_def untouched_def storeFiles_def)
qed

lemma syncDirectory_renaming:
  assumes "renaming fmt s env d w" "syncDirectory w = (e, w')"
  shows "if e = None then settled fmt (Some env) d d w'
    else renaming fmt s env d w' \<or> settled fmt (Some env) d d w'"
proof -
  let ?x = "(ticked (ticked w))\<lparr>durable := apply_pend (pend w) (durable w), pend := []\<rparr>"
  have r: "renaming fmt s env d (ticked w)" "renaming fmt s env d (ticked (ticked (ticked w)))"
    using assms(1) by (simp_all add: renaming_ticked)
  have s: "settled fmt (Some env) d d (ticked ?x)"
    using renaming_synced [of fmt s env d "ticked (ticked w)"] assms(1) by (simp add: renaming_ticked settled_ticked)
  have nw: "\<not> windows w" using assms(1) by (simp add: renaming_def)
  have "w' = ticked w \<and> e \<noteq> None \<or> w' = ticked ?x \<or> w' = ticked (ticked (ticked w)) \<and> e \<noteq> None"
  proof (cases "next_outcome w = OpOk")
    case True
    then have "(e, w') = close_after (directory_Sync (ticked w))"
      using assms(2) nw by (simp add: syncDirectory_def io_check_def)
    then show ?thesis
      by (cases "next_outcome (ticked w) = OpOk")
        (simp_all add: directory_Sync_def close_after_def file_Close_def io_check_def)
  qed (use assms(2) nw in \<open>auto simp: syncDirectory_def io_check_def\<close>)
  then show ?thesis using r s by (elim disjE conjE) auto
qed

text \<open>Crashes of these states.\<close>

lemma crash_settled_state:
  assumes "settled fmt s d v w" "crash w m"
  shows "fmlookup m FORMAT = Some fmt" "fmlookup m SNAPSHOT_file = s"
    "\<exists>c. fmlookup m WAL_file = Some c \<and> survives d v c"
proof -
  have u: "untouched w {n}" if "n \<in> storeFiles" for n
    using assms(1) that by (auto simp: settled_def untouched_def)
  show "fmlookup m FORMAT = Some fmt" "fmlookup m SNAPSHOT_file = s"
    using crash_settled [OF assms(2) u, of FORMAT] crash_settled [OF assms(2) u, of SNAPSHOT_file] assms(1)
    by (simp_all add: settled_def storeFiles_def)
  have "\<not> touches op WAL_file" if "op \<in> set (pend w)" for op
    using u [of WAL_file] that by (simp add: storeFiles_def untouched_def)
  from crash_untouched [OF assms(2) this] show "\<exists>c. fmlookup m WAL_file = Some c \<and> survives d v c"
    using assms(1) by (simp add: settled_def contents_def)
qed

lemma crash_renaming:
  assumes "renaming fmt s env d w" "crash w m"
  shows "fmlookup m FORMAT = Some fmt" "fmlookup m WAL_file = Some d"
    "fmlookup m SNAPSHOT_file = s \<or> fmlookup m SNAPSHOT_file = Some env"
proof -
  obtain ops1 ops2 where p: "pend w = ops1 @ PendRename SNAPSHOT_tmp SNAPSHOT_file # ops2"
    "\<forall>op \<in> set ops1. \<forall>n \<in> insert SNAPSHOT_tmp storeFiles. \<not> touches op n" "set ops2 \<subseteq> {PendRemove SNAPSHOT_tmp}"
    using assms(1) by (auto simp: renaming_def)
  have u: "untouched w {FORMAT}" "untouched w {WAL_file}"
    using p by (auto simp: untouched_def storeFiles_def)
  show "fmlookup m FORMAT = Some fmt" "fmlookup m WAL_file = Some d"
    using crash_settled [OF assms(2) u(1)] crash_settled [OF assms(2) u(2)] assms(1) by (auto simp: renaming_def)
  let ?n = SNAPSHOT_file
  obtain k where k: "case fmlookup (apply_pend (take k (pend w)) (durable w)) ?n of
      Some d \<Rightarrow> (case fmlookup m ?n of None \<Rightarrow> False
        | Some c \<Rightarrow> survives d (if list_ex (\<lambda>op. touches op ?n) (drop k (pend w)) then d else contents ?n w) c)
    | None \<Rightarrow> (case fmlookup m ?n of None \<Rightarrow> True
        | Some c \<Rightarrow> \<not> list_ex (\<lambda>op. touches op ?n) (drop k (pend w)) \<and> ?n |\<in>| fmdom (files w) \<and> prefix c (contents ?n w))"
    using assms(2) unfolding crash_def Let_def by blast
  have f: "contents ?n w = env" "fmlookup (durable w) ?n = s"
    using assms(1) by (auto simp: renaming_def contents_def)
  show "fmlookup m ?n = s \<or> fmlookup m ?n = Some env"
  proof (cases "k \<le> length ops1")
    case True
    have "fmlookup (apply_pend (take k (pend w)) (durable w)) ?n = s"
      using p(1,2) True f(2) by (subst apply_pend_other) (auto simp: storeFiles_def dest: in_set_takeD)
    moreover have "list_ex (\<lambda>op. touches op ?n) (drop k (pend w))"
      using True by (simp add: p(1))
    ultimately show ?thesis using k by (auto simp: survives_def prefix_order.antisym split: option.splits)
  next
    case False
    then obtain j where j: "take k (pend w) = ops1 @ PendRename SNAPSHOT_tmp ?n # take j ops2"
      by (cases "k - length ops1") (auto simp: p(1))
    have tmp: "fmlookup (apply_pend ops1 (durable w)) SNAPSHOT_tmp = Some env"
      using p(2) assms(1) by (subst apply_pend_other) (auto simp: renaming_def)
    have "fmlookup (apply_pend (take j ops2) x) ?n = fmlookup x ?n" for x
      using p(3) by (intro apply_pend_other) (auto dest: in_set_takeD)
    then have "fmlookup (apply_pend (take k (pend w)) (durable w)) ?n = Some env"
      using tmp by (simp add: j apply_pend_append apply_rename_def)
    then show ?thesis using k f(1) by (auto simp: survives_def prefix_order.antisym split: option.splits if_splits)
  qed
qed

section \<open>The snapshot operation\<close>

text \<open>
  The states a snapshot of \<open>db\<close> may stop in: the old snapshot with the whole log, the rename pending,
  or the new snapshot with the whole log or none.
\<close>

definition snapSafe :: "'a KeyedDB_scheme \<Rightarrow> bytes option \<Rightarrow> bytes \<Rightarrow> world \<Rightarrow> bool" where
  "snapSafe db s d w \<longleftrightarrow>
     settled (format db) s d d w \<or> renaming (format db) s (snapshotImage db) d w
     \<or> settled (format db) (Some (snapshotImage db)) d d w \<or> settled (format db) (Some (snapshotImage db)) d [] w
     \<or> settled (format db) (Some (snapshotImage db)) [] [] w"

lemma renaming_remove: "renaming fmt s env d w \<Longrightarrow> renaming fmt s env d (snd (os_Remove SNAPSHOT_tmp w))"
proof (cases "next_outcome w = OpOk")
  case True
  assume r: "renaming fmt s env d w"
  then obtain ops1 ops2 where p: "pend w = ops1 @ PendRename SNAPSHOT_tmp SNAPSHOT_file # ops2"
    "\<forall>op \<in> set ops1. \<forall>n \<in> insert SNAPSHOT_tmp storeFiles. \<not> touches op n" "set ops2 \<subseteq> {PendRemove SNAPSHOT_tmp}"
    by (auto simp: renaming_def)
  have "pend w @ [PendRemove SNAPSHOT_tmp]
      = ops1 @ PendRename SNAPSHOT_tmp SNAPSHOT_file # (ops2 @ [PendRemove SNAPSHOT_tmp])"
    "set (ops2 @ [PendRemove SNAPSHOT_tmp]) \<subseteq> {PendRemove SNAPSHOT_tmp}" using p by simp_all
  then have "\<exists>ops1 ops2'. pend w @ [PendRemove SNAPSHOT_tmp] = ops1 @ PendRename SNAPSHOT_tmp SNAPSHOT_file # ops2'
      \<and> (\<forall>op \<in> set ops1. \<forall>n \<in> insert SNAPSHOT_tmp storeFiles. \<not> touches op n)
      \<and> set ops2' \<subseteq> {PendRemove SNAPSHOT_tmp}"
    using p(2) by blast
  then show ?thesis using r True unfolding renaming_def by (simp add: os_Remove_def)
qed (simp add: os_Remove_def renaming_ticked)

lemma snapSafe_remove: "snapSafe db s d w \<Longrightarrow> snapSafe db s d (snd (os_Remove SNAPSHOT_tmp w))"
  unfolding snapSafe_def using renaming_remove settled_tmp_only [OF _ tmp_only_calls(2)] by blast

lemma snapSafe_ticked: "snapSafe db s d (ticked w) = snapSafe db s d w"
  by (simp add: snapSafe_def settled_ticked renaming_ticked)

lemma truncate_settled:
  "settled fmt (Some env) d d w \<Longrightarrow> file_Truncate WAL_file 0 w = (e, w') \<Longrightarrow>
     if e = None then settled fmt (Some env) d [] w' else settled fmt (Some env) d d w'"
  by (cases "next_outcome w = OpOk") (auto simp: file_Truncate_def settled_def untouched_def)

lemma sync_settled:
  "settled fmt (Some env) d [] w \<Longrightarrow> file_Sync WAL_file w = (e, w') \<Longrightarrow>
     if e = None then settled fmt (Some env) [] [] w' else settled fmt (Some env) d [] w'"
  by (cases "next_outcome w = OpOk") (auto simp: file_Sync_def settled_def untouched_def contents_def)

lemma snapshotKeyed_safe:
  assumes "settled (format db) s d d w" "walOpen db" "snapshotKeyed db w = (e, db', w')"
  shows "snapSafe db s d w'" "e = None \<Longrightarrow> settled (format db) (Some (snapshotImage db)) [] [] w'"
    "dstate db' = dstate db"
proof -
  let ?env = "snapshotImage db" and ?fmt = "format db"
  let ?w1 = "snd (os_Remove SNAPSHOT_tmp w)"
  have A: "settled ?fmt s d d ?w1" by (rule settled_tmp_only [OF assms(1) tmp_only_calls(2)])
  obtain e2 w2 where o: "os_OpenExcl SNAPSHOT_tmp ?w1 = (e2, w2)" by fastforce
  have A2: "settled ?fmt s d d w2" using settled_tmp_only [OF A tmp_only_calls(3)] o by simp
  obtain e3 w3 where t: "close_after (and_then (write_all SNAPSHOT_tmp 0 ?env w2) (file_Sync SNAPSHOT_tmp)) = (e3, w3)"
    by fastforce
  obtain e4 w4 where r: "and_then (e3, w3) (os_Rename SNAPSHOT_tmp SNAPSHOT_file) = (e4, w4)" by fastforce
  obtain e5 w5 where y: "and_then (e4, w4) syncDirectory = (e5, w5)" by fastforce
  obtain e6 w6 where u: "and_then (e5, w5) (file_Truncate WAL_file 0) = (e6, w6)" by fastforce
  obtain e7 w7 where k: "file_Seek w6 = (e7, w7)" by fastforce
  obtain e8 w8 where z: "file_Sync WAL_file w7 = (e8, w8)" by fastforce
  have run: "snapshotKeyed db w =
      (if e2 \<noteq> None then (Some (Error ErrorStorage ''snapshot_keyed'' ''open''), db, w2)
       else if e6 \<noteq> None then (Some (Error ErrorStorage ''snapshot_keyed'' ''write''), db, snd (os_Remove SNAPSHOT_tmp w6))
       else if e7 \<noteq> None then (Some (Error ErrorStorage ''snapshot_keyed'' ''write''), db, snd (os_Remove SNAPSHOT_tmp w7))
       else if e8 \<noteq> None then (Some (Error ErrorStorage ''snapshot_keyed'' ''write''), db\<lparr>walOffset := 0\<rparr>,
              snd (os_Remove SNAPSHOT_tmp w8))
       else (None, db\<lparr>walOffset := 0\<rparr>, w8))"
    using assms(2) o t r y u k z
    by (cases e2; cases e6; cases e7; cases e8) (simp_all add: snapshotKeyed_def Let_def)
  show "dstate db' = dstate db" using assms(3) run by (auto simp: dstate_def split: if_splits)
  have S3: "settled ?fmt s d d w3" "e3 = None \<Longrightarrow> tmpReady ?env w3" if "e2 = None"
    using write_tmp [OF _ t, of ?w1] o that settled_tmp_only [OF A, of w3] by simp_all
  have S4: "if e4 = None then renaming ?fmt s ?env d w4 else settled ?fmt s d d w4" if "e2 = None"
    using S3 [OF that] r rename_tmp [of ?fmt s d w3 ?env e4 w4] by (cases e3) auto
  have S5: "if e5 = None then settled ?fmt (Some ?env) d d w5 else snapSafe db s d w5" if "e2 = None"
    using S4 [OF that] y syncDirectory_renaming [of ?fmt s ?env d w4 e5 w5]
    by (cases e4) (auto simp: snapSafe_def split: if_splits)
  have S6: "if e6 = None then settled ?fmt (Some ?env) d [] w6 else snapSafe db s d w6" if "e2 = None"
    using S5 [OF that] u truncate_settled [of ?fmt ?env d w5 e6 w6]
    by (cases e5) (auto simp: snapSafe_def split: if_splits)
  have S7: "w7 = ticked w6" using k by (simp add: file_Seek_def io_check_def)
  have S8: "if e8 = None then settled ?fmt (Some ?env) [] [] w8 else settled ?fmt (Some ?env) d [] w8"
    if "e2 = None" "e6 = None"
    using S6 [OF that(1)] that(2) sync_settled [OF _ z] by (simp add: S7 settled_ticked)
  have "snapSafe db s d w2" using A2 by (simp add: snapSafe_def)
  moreover have "snapSafe db s d w6" if "e2 = None" using S6 [OF that] by (auto simp: snapSafe_def split: if_splits)
  moreover have "snapSafe db s d w8" if "e2 = None" "e6 = None"
    using S8 [OF that] by (auto simp: snapSafe_def split: if_splits)
  moreover have "w' = w2 \<or> e2 = None \<and> (w' = snd (os_Remove SNAPSHOT_tmp w6) \<or> w' = snd (os_Remove SNAPSHOT_tmp w7)
      \<or> e6 = None \<and> (w' = snd (os_Remove SNAPSHOT_tmp w8) \<or> w' = w8))"
    using assms(3) run by (auto split: if_splits)
  ultimately show "snapSafe db s d w'" using snapSafe_remove snapSafe_ticked S7 by metis
  show "settled ?fmt (Some ?env) [] [] w'" if "e = None"
    using that assms(3) run S8 by (auto split: if_splits)
qed

text \<open>
  The snapshot theorem: whichever call fails, and wherever the power is lost afterwards, the directory
  recovers to the state the snapshot was taken of.
\<close>

lemma snapSafe_recovers:
  assumes safe: "snapSafe db s (walImage rs) w" and cr: "crash w m"
    and inv: "keyed_inv db" and utf8: "utf8Snapshot (snapshotOf db)"
    and db0: "options db0 = options db" "format db0 = format db" "dedupe db0 = fmempty" "dedupeIDs db0 = []"
    and old: "\<And>m. fmlookup m SNAPSHOT_file = s \<Longrightarrow> snapshot_loads m db0 base" and lg: "logged base rs db"
  shows "\<exists>b rs'. restorable db0 b rs' m \<and> logged b rs' db \<and> (b = base \<or> dstate b = dstate db)"
proof -
  obtain b where b: "installSnapshot db0 (snapshotOf db) = Inr b" "dstate b = dstate db"
    using installSnapshot_ok [OF inv db0] by blast
  have new: "snapshot_loads m db0 b" if "fmlookup m SNAPSHOT_file = Some (snapshotImage db)"
    using that b(1) utf8 by (simp add: snapshot_loads_def decode_snapshotImage)
  have empty: "logged b [] db" by (rule logged_Nil [OF b(2)])
  note skip = logged_skip [OF lg b(2)]
  have fin: ?thesis
    if f: "fmlookup m FORMAT = Some (format db)" "fmlookup m WAL_file = Some c"
      and "fmlookup m SNAPSHOT_file = s \<and> c = walImage rs
       \<or> fmlookup m SNAPSHOT_file = Some (snapshotImage db) \<and> (c = walImage rs \<or> c = walImage [])" for c
  proof -
    have r: "restorable db0 base' rs' m" if "snapshot_loads m db0 base'" "c = walImage rs'" for base' rs'
      using f that db0(2) torn_Nil unfolding restorable_def by (metis append_Nil2)
    show ?thesis using that(3) old r new lg skip empty b(2) by blast
  qed
  have sv: "survives d v c \<Longrightarrow> v = d \<or> v = [] \<Longrightarrow> c = d \<or> c = v" for d v c
    by (auto simp: survives_def prefix_order.antisym)
  from safe show ?thesis
    unfolding snapSafe_def
  proof (elim disjE)
    assume "renaming (format db) s (snapshotImage db) (walImage rs) w"
    from crash_renaming [OF this cr] show ?thesis by (intro fin) auto
  next
    assume "settled (format db) s (walImage rs) (walImage rs) w"
    from crash_settled_state [OF this cr] sv show ?thesis by (metis fin)
  next
    assume "settled (format db) (Some (snapshotImage db)) (walImage rs) (walImage rs) w"
    from crash_settled_state [OF this cr] sv show ?thesis by (metis fin)
  next
    assume "settled (format db) (Some (snapshotImage db)) (walImage rs) [] w"
    from crash_settled_state [OF this cr] sv show ?thesis by (metis fin walImage_simps(1))
  next
    assume "settled (format db) (Some (snapshotImage db)) [] [] w"
    from crash_settled_state [OF this cr] sv show ?thesis by (metis fin walImage_simps(1))
  qed
qed

end
