(* ===== verification/Keyed_Group.thy ===== *)
theory Keyed_Group
  imports Keyed_Recovery
begin

text \<open>
  The answers of a commit group. Every answer without an error reports the decision of a record that
  the group has appended and synchronised, or one that was retained when the group started; and a
  group gives the answers its requests would get one after the other.
\<close>

section \<open>Acknowledged answers\<close>

definition ack :: "keyedCommitResult \<Rightarrow> bool" where
  "ack res \<longleftrightarrow> crErr res = None \<and> crPanic res = None"

lemma ack_simps [simp]:
  "\<not> ack (res\<lparr>crErr := Some e\<rparr>)" "\<not> ack (res\<lparr>crPanic := Some p\<rparr>)"
  "ack (zeroResult\<lparr>crDecision := d\<rparr>)"
  by (simp_all add: ack_def zeroResult_def)

lemma decision_retainedOf [simp]: "decision (retainedOf r) = decision r"
  by (simp add: decision_def retainedOf_def)

definition answered :: "'a KeyedDB_scheme \<Rightarrow> keyedWALRecord list \<Rightarrow> keyedCommitResult \<Rightarrow> bool \<Rightarrow> bool" where
  "answered db0 L res dur \<longleftrightarrow>
     (if dur then ack res \<and> (\<exists>r \<in> set L. \<exists>b. crDecision res = (decision r)\<lparr>dDuplicate := b\<rparr>)
      else ack res \<longrightarrow> (\<exists>i r. fmlookup (dedupe db0) i = Some r \<and> crDecision res = (decision r)\<lparr>dDuplicate := True\<rparr>))"

definition stagedOf :: "'s groupState \<Rightarrow> (bytes, nat) fmap" where
  "stagedOf g = (case gStaged g of None \<Rightarrow> fmempty | Some m \<Rightarrow> m)"

text \<open>
  The group's bookkeeping: the answers so far, and the staged identities. An identity that is retained
  was retained before the group, or its staged answer carries the retained decision.
\<close>

definition booked :: "'a KeyedDB_scheme \<Rightarrow> keyedWALRecord list \<Rightarrow> 'a KeyedDB_scheme groupState \<Rightarrow> bool" where
  "booked db0 L g \<longleftrightarrow>
     list_all2 (answered db0 L) (gResults g) (gDurable g)
     \<and> (\<forall>i idx. fmlookup (stagedOf g) i = Some idx \<longrightarrow> idx < length (gResults g) \<and> gDurable g ! idx)
     \<and> (\<forall>i r. fmlookup (dedupe (gDB g)) i = Some r \<longrightarrow> fmlookup (stagedOf g) i = None \<longrightarrow>
          fmlookup (dedupe db0) i = Some r)
     \<and> (\<forall>i r idx. fmlookup (dedupe (gDB g)) i = Some r \<longrightarrow> fmlookup (stagedOf g) i = Some idx \<longrightarrow>
          crDecision (gResults g ! idx) = decision r)"

lemma answered_mono: "answered db0 L res dur \<Longrightarrow> answered db0 (L @ L') res dur"
  unfolding answered_def by (cases dur) (simp_all, blast)

lemma dedupe_applyKeyed:
  assumes "hook_ok hooks" "fmlookup (dedupe (applyKeyed (afterApply hooks) r db)) i = Some x"
  shows "if i = rCommandID r then x = retainedOf r else fmlookup (dedupe db) i = Some x"
proof -
  have "fmlookup (dedupe (applyPlain r db)) i = Some x"
    using assms(2) dstateD [OF applyKeyed_hook(1) [OF assms(1), of r db]] by simp
  then show ?thesis by (auto simp: applyKeyed_def Let_def retainedOf_def split: if_splits)
qed

lemma answered_one: "list_all2 (answered db0 L) rs ds \<Longrightarrow> answered db0 (L @ L') res dur \<Longrightarrow>
  list_all2 (answered db0 (L @ L')) (rs @ [res]) (ds @ [dur])"
  by (intro list_all2_appendI) (auto elim!: list_all2_mono intro: answered_mono)

lemma commitOne_quiet:
  assumes "attempt (gDB g) q = None" "booked db0 L g"
  obtains res dur where "commitOne hooks q g = answer res dur g" "answered db0 L res dur"
proof -
  let ?db = "gDB g"
  show ?thesis
  proof (cases "poisoned ?db \<or> (\<exists>e. qCtx q = CtxDone e)")
    case True
    then have "\<exists>e. commitOne hooks q g = answer (zeroResult\<lparr>crErr := Some e\<rparr>) False g"
      by (cases "poisoned ?db") (auto simp: commitOne_def Let_def)
    then obtain e where "commitOne hooks q g = answer (zeroResult\<lparr>crErr := Some e\<rparr>) False g" ..
    then show ?thesis by (rule that) (simp add: answered_def)
  next
    case False
    show ?thesis
    proof (cases "fmlookup (dedupe ?db) (qCommand q) \<noteq> None \<and> stagedIndex g (qCommand q) \<noteq> None")
      case True
      then obtain r idx where r: "fmlookup (dedupe ?db) (qCommand q) = Some r" "stagedIndex g (qCommand q) = Some idx" by auto
      then have st: "fmlookup (stagedOf g) (qCommand q) = Some idx" by (auto simp: stagedIndex_def stagedOf_def split: option.splits)
      have c: "commitOne hooks q g = answer (zeroResult\<lparr>crDecision := (crDecision (gResults g ! idx))\<lparr>dDuplicate := True\<rparr>\<rparr>) True g"
        using False r by (auto simp: commitOne_def Let_def split: ctx.splits)
      have "idx < length (gResults g)" "gDurable g ! idx" using assms(2) st by (auto simp: booked_def)
      then have "answered db0 L (gResults g ! idx) True"
        using assms(2) by (auto simp: booked_def list_all2_conv_all_nth)
      then obtain r' b where r': "r' \<in> set L" "crDecision (gResults g ! idx) = (decision r')\<lparr>dDuplicate := b\<rparr>"
        by (auto simp: answered_def)
      then have "(crDecision (gResults g ! idx))\<lparr>dDuplicate := True\<rparr> = (decision r')\<lparr>dDuplicate := True\<rparr>" by simp
      then have "answered db0 L (zeroResult\<lparr>crDecision := (crDecision (gResults g ! idx))\<lparr>dDuplicate := True\<rparr>\<rparr>) True"
        using r'(1) by (auto simp: answered_def)
      with c show ?thesis by (rule that)
    next
      case no: False
      obtain res where res: "safelyExecuteKeyed ?db q = (res, None)"
        using assms(1) False by (auto simp: attempt_def safelyExecuteKeyed_def split: ctx.splits exec_outcome.splits)
      then have c: "commitOne hooks q g = answer res False g"
        using False no by (auto simp: commitOne_def Let_def split: ctx.splits option.splits)
      have "answered db0 L res False"
      proof (cases "executeKeyed ?db q")
        case (ExecDuplicate d)
        then obtain r where r: "fmlookup (dedupe ?db) (qCommand q) = Some r" "d = (decision r)\<lparr>dDuplicate := True\<rparr>"
          by (auto simp: executeKeyed_def Let_def split: if_splits option.splits prod.splits tx_outcome.splits sum.splits)
        then have "fmlookup (stagedOf g) (qCommand q) = None"
          using no by (auto simp: stagedIndex_def stagedOf_def split: option.splits)
        then have "fmlookup (dedupe db0) (qCommand q) = Some r"
          using assms(2) r(1) by (fastforce simp: booked_def)
        then show ?thesis
          using res ExecDuplicate r(2) by (auto simp: safelyExecuteKeyed_def answered_def zeroResult_def
              intro!: exI [of _ "qCommand q"] exI [of _ r])
      qed (use res in \<open>auto simp: safelyExecuteKeyed_def answered_def\<close>)
      with c show ?thesis by (rule that)
    qed
  qed
qed

lemma booked_answer:
  assumes b: "booked db0 L g" and "answered db0 (L @ L') res dur"
    and "gResults g' = gResults g @ [res]" "gDurable g' = gDurable g @ [dur]" "stagedOf g' = stagedOf g"
      "dedupe (gDB g') = dedupe (gDB g)"
  shows "booked db0 (L @ L') g'"
proof -
  have len: "length (gDurable g) = length (gResults g)" using b by (auto simp: booked_def list_all2_lengthD)
  have "list_all2 (answered db0 (L @ L')) (gResults g') (gDurable g')"
    using assms by (auto simp: booked_def intro: answered_one)
  moreover have "idx < length (gResults g') \<and> gDurable g' ! idx \<and> gResults g' ! idx = gResults g ! idx"
    if "fmlookup (stagedOf g) i = Some idx" for i idx
  proof -
    have "idx < length (gResults g)" "gDurable g ! idx" using b that by (auto simp: booked_def)
    then show ?thesis using assms(3,4) len by (simp add: nth_append)
  qed
  ultimately show ?thesis using b assms(5,6) unfolding booked_def by simp
qed

text \<open>One request keeps the books; the map of staged identities is nil only in a group of one.\<close>

lemma booked_commitOne:
  assumes b: "booked db0 L g" and h: "hook_ok hooks" and st: "gStaged g \<noteq> None"
  shows "booked db0 (L @ appliedOne hooks q g) (commitOne hooks q g) \<and> gStaged (commitOne hooks q g) \<noteq> None"
proof (cases "attempt (gDB g) q")
  case None
  obtain res dur where r: "commitOne hooks q g = answer res dur g" "answered db0 L res dur"
    using commitOne_quiet [OF None b] by blast
  have "booked db0 (L @ []) (commitOne hooks q g)"
    using r by (intro booked_answer [OF b]) (simp_all add: stagedOf_def)
  then show ?thesis using st r(1) None by (simp add: appliedOne_def)
next
  case (Some r)
  let ?res = "zeroResult\<lparr>crDecision := decision r\<rparr>"
  obtain e db1 w1 where ap: "appendKeyedFrame hooks r (gDB g) (gWorld g) = (e, db1, w1)" by (metis prod_cases3)
  have dd: "dedupe db1 = dedupe (gDB g)"
    using ap by (auto simp: appendKeyedFrame_def Let_def split: option.splits if_splits prod.splits)
  have len: "length (gDurable g) = length (gResults g)" using b by (auto simp: booked_def list_all2_lengthD)
  show ?thesis
  proof (cases e)
    case None
    have an: "answered db0 (L @ [r]) ?res True"
      by (auto simp: answered_def ack_def zeroResult_def intro!: exI [of _ "dDuplicate (decision r)"])
    have "list_all2 (answered db0 (L @ [r])) (gResults g @ [?res]) (gDurable g @ [True])"
      using b an by (intro answered_one) (auto simp: booked_def)
    moreover have "(fmlookup (fmupd (rCommandID r) (length (gResults g)) (stagedOf g)) i = None \<longrightarrow>
          fmlookup (dedupe db0) i = Some x)
        \<and> (\<forall>idx. fmlookup (fmupd (rCommandID r) (length (gResults g)) (stagedOf g)) i = Some idx \<longrightarrow>
          crDecision ((gResults g @ [?res]) ! idx) = decision x)"
      if "fmlookup (dedupe (applyKeyed (afterApply hooks) r db1)) i = Some x" for i x
      using dedupe_applyKeyed [OF h that] b dd
      by (auto simp: booked_def zeroResult_def nth_append split: if_splits)
    moreover have "idx < length (gResults g @ [?res]) \<and> (gDurable g @ [True]) ! idx"
      if "fmlookup (fmupd (rCommandID r) (length (gResults g)) (stagedOf g)) i = Some idx" for i idx
      using that b len by (auto simp: booked_def nth_append split: if_splits)
    moreover have "gResults (commitOne hooks q g) = gResults g @ [?res]" "gDurable (commitOne hooks q g) = gDurable g @ [True]"
      "gDB (commitOne hooks q g) = applyKeyed (afterApply hooks) r db1" "appliedOne hooks q g = [r]"
      "stagedOf (commitOne hooks q g) = fmupd (rCommandID r) (length (gResults g)) (stagedOf g)"
      "gStaged (commitOne hooks q g) \<noteq> None"
      using st by (auto simp: commitOne_attempt(3) [OF Some] ap None appliedOne_def Some stagedOf_def)
    ultimately show ?thesis unfolding booked_def by simp
  next
    case (Some e')
    note c = commitOne_attempt(3) [OF \<open>attempt (gDB g) q = Some r\<close>, of hooks]
    have "booked db0 (L @ []) (commitOne hooks q g)"
      by (rule booked_answer [OF b, where res = "?res\<lparr>crErr := Some e'\<rparr>" and dur = False])
        (simp_all add: c ap Some dd stagedOf_def answered_def)
    moreover have "appliedOne hooks q g = []" using \<open>attempt (gDB g) q = Some r\<close> by (simp add: appliedOne_def ap Some)
    moreover have "gStaged (commitOne hooks q g) \<noteq> None" using st by (simp add: c ap Some)
    ultimately show ?thesis by simp
  qed
qed

lemma booked_fold:
  "booked db0 L g \<Longrightarrow> hook_ok hooks \<Longrightarrow> gStaged g \<noteq> None \<Longrightarrow>
   booked db0 (L @ applied hooks qs g) (fold (commitOne hooks) qs g)"
proof (induction qs arbitrary: g L)
  case (Cons q qs)
  then show ?case using booked_commitOne [of db0 L g hooks q] by (metis append_assoc applied.simps(2) fold_simps(2))
qed simp

text \<open>The answers of a whole group, the group of one included.\<close>

lemma group_answered:
  assumes "hook_ok hooks"
  shows "list_all2 (answered db (applied hooks qs (groupStart db w qs)))
    (gResults (fold (commitOne hooks) qs (groupStart db w qs))) (gDurable (fold (commitOne hooks) qs (groupStart db w qs)))"
proof -
  let ?st = "groupStart db w qs"
  have start: "booked db [] ?st" by (auto simp: booked_def groupStart_def stagedOf_def)
  have nil: "gResults ?st = []" "gDurable ?st = []" by (simp_all add: groupStart_def)
  consider "qs = []" | q where "qs = [q]" | "1 < length qs" by (cases qs rule: remdups_adj.cases) auto
  then show ?thesis
  proof cases
    case 2
    show ?thesis
    proof (cases "attempt (gDB ?st) q")
      case None
      from commitOne_quiet [OF None start] obtain res dur where
        "commitOne hooks q ?st = answer res dur ?st" "answered db [] res dur" by blast
      then show ?thesis using 2 None nil by (simp add: appliedOne_def)
    next
      case (Some r)
      have "answered db [r] (zeroResult\<lparr>crDecision := decision r\<rparr>) True"
        by (auto simp: answered_def ack_def zeroResult_def intro!: exI [of _ "dDuplicate (decision r)"])
      moreover obtain e db1 w1 where ap: "appendKeyedFrame hooks r (gDB ?st) (gWorld ?st) = (e, db1, w1)"
        by (metis prod_cases3)
      moreover note c = commitOne_attempt(3) [OF Some, of hooks]
      ultimately show ?thesis
        using 2 nil Some by (cases e) (simp_all add: c ap appliedOne_def, simp add: answered_def)
    qed
  next
    case 3
    then have "gStaged ?st \<noteq> None" by (simp add: groupStart_def)
    from booked_fold [OF start assms this, of qs] show ?thesis by (simp add: booked_def)
  qed (simp add: groupStart_def)
qed

text \<open>
  After the shared synchronisation: an answer without an error belongs to a record of the group, and
  then the group was synchronised, or it repeats a decision that was retained before.
\<close>

lemma groupFinish_answers:
  assumes "groupFinish hooks g = (results, db', w')" "list_all2 (answered db L) (gResults g) (gDurable g)"
    and "0 < gFrames g \<longleftrightarrow> L \<noteq> []" "(gStorageErr g = None) = (\<not> poisoned (gDB g))"
    and "i < length results" "ack (results ! i)"
  shows "(\<not> poisoned db' \<and> (\<exists>r \<in> set L. \<exists>b. crDecision (results ! i) = (decision r)\<lparr>dDuplicate := b\<rparr>))
    \<or> (\<exists>j r. fmlookup (dedupe db) j = Some r \<and> crDecision (results ! i) = (decision r)\<lparr>dDuplicate := True\<rparr>)"
proof -
  have len: "length (gDurable g) = length (gResults g)" using assms(2) by (simp add: list_all2_lengthD)
  have each: "answered db L (gResults g ! k) (gDurable g ! k)" if "k < length (gResults g)" for k
    using assms(2) that by (simp add: list_all2_conv_all_nth)
  consider (fail) e where "results = map2 (\<lambda>res dur. if dur then zeroResult\<lparr>crErr := Some e\<rparr> else res) (gResults g) (gDurable g)"
    | (ok) "results = gResults g" "L = [] \<or> \<not> poisoned db'"
    using assms(1,3,4) by (auto simp: groupFinish_def Let_def split: if_splits prod.splits option.splits)
  then show ?thesis
  proof cases
    case fail
    then show ?thesis using assms(5,6) len each [of i] by (auto simp: answered_def split: if_splits)
  next
    case ok
    then show ?thesis using assms(5,6) each [of i] by (auto simp: answered_def split: if_splits)
  qed
qed

end
