(* ===== verification/Keyed_Life.thy ===== *)
theory Keyed_Life
  imports Keyed_Snapshot Keyed_Group
begin

text \<open>
  The life of a keyed database: any interleaving of commit groups, snapshots, closing, and power
  losses followed by reopening, under any sequence of file-system faults. A power loss in the middle
  of an operation is a fault sequence that fails from some call on, followed by the loss.

  The invariant relates every state to a history, the list of records committed so far: the state is
  what applying the history to the empty database gives, every acknowledged decision is in it, and
  every directory a power loss can leave restores an extension of it.
\<close>

section \<open>Histories\<close>

abbreviation applyAll :: "keyedWALRecord list \<Rightarrow> 'a KeyedDB_scheme \<Rightarrow> 'a KeyedDB_scheme" where
  "applyAll H db \<equiv> fold (applyKeyed (\<lambda>_ d. d)) H db"

definition history :: "'a KeyedDB_scheme \<Rightarrow> keyedWALRecord list \<Rightarrow> 'b KeyedDB_scheme \<Rightarrow> bool" where
  "history db0 H db \<longleftrightarrow> dstate db = dstate (applyAll H db0)"

lemma dstate_fold_apply:
  "dstate a = dstate b \<Longrightarrow> dstate (applyAll L a) = dstate (applyAll L b)"
proof (induction L arbitrary: a b)
  case (Cons r L)
  show ?case using Cons.IH [OF dstate_applyPlain [OF Cons.prems]] by simp
qed simp

lemma history_append:
  "history db0 H db \<Longrightarrow> dstate db' = dstate (applyAll L db) \<Longrightarrow> history db0 (H @ L) db'"
  using dstate_fold_apply [of db "applyAll H db0" L] by (simp add: history_def)

lemma history_cong: "history db0 H a \<Longrightarrow> dstate b = dstate a \<Longrightarrow> history db0 H b"
  by (simp add: history_def)

text \<open>Records that continue the sequence are applied, not skipped, and every prefix of them replays.\<close>

lemma replay_applies:
  assumes "replayRecord (x, l) r = Inr (y, l')" "rSequence r = sequence x + 1"
  shows "y = applyPlain r x" "l' = sequence y" "l' \<noteq> 0"
proof -
  have "rSequence r \<noteq> 0" using replayRecord_step(2) [OF assms(1)] .
  then have "sequence x < rSequence r" using assms(2) u64_succ_less by metis
  then show "y = applyPlain r x" "l' = sequence y" "l' \<noteq> 0"
    using assms(1) \<open>rSequence r \<noteq> 0\<close> by (auto simp: replayRecord_def Let_def split: if_splits option.splits)
qed

lemma fold_replay_applies:
  "fold_res replayRecord (x, l) L = Inr (y, l') \<Longrightarrow> (L \<noteq> [] \<Longrightarrow> rSequence (hd L) = sequence x + 1) \<Longrightarrow>
   y = applyAll L x \<and> (L \<noteq> [] \<longrightarrow> l' = sequence y)"
proof (induction L arbitrary: x l)
  case (Cons r L)
  then obtain z m where z: "replayRecord (x, l) r = Inr (z, m)" "fold_res replayRecord (z, m) L = Inr (y, l')"
    by (auto split: sum.splits)
  note a = replay_applies [OF z(1)]
  have s: "rSequence r = sequence x + 1" using Cons.prems(2) by simp
  have "rSequence (hd L) = sequence z + 1" if L: "L \<noteq> []"
  proof -
    obtain r' L' where "L = r' # L'" using L by (cases L) auto
    with z(2) obtain z' m' where "replayRecord (z, m) r' = Inr (z', m')" by (auto split: sum.splits)
    from replayRecord_step(3) [OF this] show ?thesis using a(2,3) [OF s] \<open>L = r' # L'\<close> by simp
  qed
  with Cons.IH [OF z(2)] a [OF s] z show ?case by (cases "L = []") auto
qed simp

lemma logged_take:
  assumes a: "logged base rs a" and b: "logged base (rs @ L) b" and hd: "L \<noteq> [] \<Longrightarrow> rSequence (hd L) = sequence a + 1"
  shows "logged base (rs @ take k L) (applyAll (take k L) a)"
    and "dstate b = dstate (applyAll L a)"
proof -
  obtain x l where x: "fold_res replayRecord (base, 0) rs = Inr (x, l)" "dstate x = dstate a"
    "l = 0 \<or> l = sequence a" using a by (auto simp: logged_def)
  obtain y m where y: "fold_res replayRecord (x, l) L = Inr (y, m)" "dstate y = dstate b" "list_all storable (rs @ L)"
    using b x(1) by (auto simp: logged_def fold_res_append)
  have hd': "L \<noteq> [] \<Longrightarrow> rSequence (hd L) = sequence x + 1" using hd dstateD [OF x(2)] by simp
  show "dstate b = dstate (applyAll L a)"
    using fold_replay_applies [OF y(1) hd'] dstate_fold_apply [OF x(2), of L] y(2) by simp
  obtain z n where z: "fold_res replayRecord (x, l) (take k L) = Inr (z, n)"
    using y(1) fold_res_append [of replayRecord "(x, l)" "take k L" "drop k L"]
    by (auto split: sum.splits)
  have t: "z = applyAll (take k L) x \<and> (take k L \<noteq> [] \<longrightarrow> n = sequence z)"
    using fold_replay_applies [OF z] hd' by (cases L; cases k) auto
  have d: "dstate z = dstate (applyAll (take k L) a)"
    using t dstate_fold_apply [OF x(2)] by simp
  have "n = 0 \<or> n = sequence z"
  proof (cases "take k L = []")
    case True
    then show ?thesis using z x(3) dstateD [OF x(2)] by auto
  qed (use t in simp)
  moreover have "list_all storable (rs @ take k L)"
    using y(3) by (auto simp: list_all_iff dest: in_set_takeD)
  ultimately show "logged base (rs @ take k L) (applyAll (take k L) a)"
    using x(1) z d dstateD [OF d] unfolding logged_def by (auto simp: fold_res_append)
qed

text \<open>The records a group appends continue the sequence.\<close>

lemma attempt_sequence: "attempt db q = Some r \<Longrightarrow> rSequence r = sequence db + 1"
proof -
  assume "attempt db q = Some r"
  then have e: "executeKeyed db q = ExecPersist r"
    by (auto simp: attempt_def split: if_splits ctx.splits exec_outcome.splits)
  from executeKeyed_run [OF e] obtain m out tx where m: "qMutation q = Some m" "runKeyedMutation db newTx m = (out, tx)"
    by metis
  from executeKeyed_record [OF e m] show ?thesis by auto
qed

lemma applied_hd: "applied hooks qs g \<noteq> [] \<Longrightarrow> rSequence (hd (applied hooks qs g)) = sequence (gDB g) + 1"
proof (induction qs arbitrary: g)
  case (Cons q qs)
  show ?case
  proof (cases "appliedOne hooks q g")
    case (Cons r rs)
    then have "attempt (gDB g) q = Some r"
      by (auto simp: appliedOne_def split: option.splits if_splits)
    then show ?thesis using Cons attempt_sequence by simp
  next
    case Nil
    consider "attempt (gDB g) q = None" | r where "attempt (gDB g) q = Some r" by (cases "attempt (gDB g) q") auto
    then have "sequence (gDB (commitOne hooks q g)) = sequence (gDB g)"
    proof cases
      case 1
      then show ?thesis by (simp add: commitOne_no_attempt)
    next
      case 2
      have "fst (appendKeyedFrame hooks r (gDB g) (gWorld g)) \<noteq> None" using Nil 2 by (auto simp: appliedOne_def split: if_splits)
      moreover have "sequence (fst (snd (appendKeyedFrame hooks r (gDB g) (gWorld g)))) = sequence (gDB g)"
        by (auto simp: appendKeyedFrame_def Let_def split: option.splits prod.splits)
      ultimately show ?thesis
        by (cases "appendKeyedFrame hooks r (gDB g) (gWorld g)") (auto simp: commitOne_attempt(3) [OF 2] Let_def)
    qed
    then show ?thesis using Cons Nil by simp
  qed
qed simp

text \<open>Replay keeps the invariant, and every retained decision is in the history.\<close>

lemma replayRecord_inv: "replayRecord (x, l) r = Inr (y, l') \<Longrightarrow> keyed_inv x \<Longrightarrow> keyed_inv y"
  using keyed_inv_apply [of x r] validateKeyedRecord_iff [of x r]
  by (auto simp: replayRecord_def Let_def split: if_splits option.splits)

lemma fold_replay_inv: "fold_res replayRecord (x, l) rs = Inr (y, l') \<Longrightarrow> keyed_inv x \<Longrightarrow> keyed_inv y"
proof (induction rs arbitrary: x l)
  case (Cons r rs)
  then show ?case using replayRecord_inv by (fastforce split: sum.splits)
qed simp

lemma logged_inv: "logged base rs db \<Longrightarrow> keyed_inv base \<Longrightarrow> keyed_inv db"
  unfolding logged_def using fold_replay_inv keyed_inv_cong by metis

lemma lookup_dedupe_apply:
  "fmlookup (dedupe (applyPlain r db)) i = Some x \<Longrightarrow> x = retainedOf r \<or> fmlookup (dedupe db) i = Some x"
  by (auto simp: applyKeyed_def Let_def retainedOf_def split: if_splits)

lemma fold_dedupe_history:
  "fmlookup (dedupe (applyAll H db)) i = Some x \<Longrightarrow>
   (\<exists>r \<in> set H. x = retainedOf r) \<or> fmlookup (dedupe db) i = Some x"
proof (induction H arbitrary: db)
  case (Cons r H)
  then show ?case using lookup_dedupe_apply [of r db i x] by fastforce
qed simp

lemma history_dedupe:
  assumes "history db0 H db" "dedupe db0 = fmempty" "fmlookup (dedupe db) i = Some x"
  shows "\<exists>r \<in> set H. x = retainedOf r"
  using assms fold_dedupe_history [of H db0 i x] dstateD [of db "applyAll H db0"] by (auto simp: history_def)

section \<open>States of a running database\<close>

text \<open>What a state must keep to be storable: its strings survive the JSON encoding.\<close>

definition utf8State :: "'a KeyedDB_scheme \<Rightarrow> bool" where
  "utf8State db \<longleftrightarrow>
     (\<forall>k v. fmlookup (records db) k = Some v \<longrightarrow> utf8_valid k)
     \<and> (\<forall>i r. fmlookup (dedupe db) i = Some r \<longrightarrow> utf8Record r)"

text \<open>
  \<open>serving\<close>: a handle in use over a directory whose snapshot, persistent and visible, installs
  \<open>base\<close>, and whose log is exactly the records \<open>rs\<close>, all of them synchronised.
\<close>

definition fresh :: "'a KeyedDB_scheme \<Rightarrow> bool" where
  "fresh db0 \<longleftrightarrow>
     options_ok (options db0) \<and> records db0 = fmempty \<and> dedupe db0 = fmempty \<and> dedupeIDs db0 = [] \<and> sequence db0 = 0
     \<and> \<not> closed db0 \<and> \<not> poisoned db0"

definition based :: "'a KeyedDB_scheme \<Rightarrow> 'a KeyedDB_scheme \<Rightarrow> bool" where
  "based db0 base \<longleftrightarrow>
     keyed_inv base \<and> utf8State base \<and> options base = options db0 \<and> format base = format db0
     \<and> \<not> closed base \<and> \<not> poisoned base"

definition serving ::
  "'a KeyedDB_scheme \<Rightarrow> 'a KeyedDB_scheme \<Rightarrow> keyedWALRecord list \<Rightarrow> 'a KeyedDB_scheme \<Rightarrow> world \<Rightarrow> bool" where
  "serving db0 base rs db w \<longleftrightarrow>
     based db0 base \<and> tracks base rs [] db w \<and> walOpen db \<and> snapshot_loads (files w) db0 base
     \<and> settled (format db0) (fmlookup (files w) SNAPSHOT_file) (walImage rs) (walImage rs) w"

lemma utf8State_apply: "utf8State db \<Longrightarrow> utf8Record r \<Longrightarrow> utf8State (applyPlain r db)"
proof -
  assume u: "utf8State db" "utf8Record r"
  have m: "fmlookup (applyMutations ms m) k = Some v \<Longrightarrow> list_all (\<lambda>m. utf8_valid (mKey m)) ms \<Longrightarrow>
      (\<And>k v. fmlookup m k = Some v \<Longrightarrow> utf8_valid k) \<Longrightarrow> utf8_valid k" for ms m k v
    by (induction ms m rule: applyMutations.induct) (fastforce split: if_splits)+
  have "utf8Record (retainedOf r)" using u(2) by (simp add: utf8Record_def retainedOf_def)
  then show ?thesis using u m [of "rMutations r" "records db"] lookup_dedupe_apply [of r db]
    by (fastforce simp: utf8State_def utf8Record_def)
qed

lemma fold_replay_utf8:
  "fold_res replayRecord (x, l) rs = Inr (y, l') \<Longrightarrow> utf8State x \<Longrightarrow> list_all storable rs \<Longrightarrow> utf8State y"
proof (induction rs arbitrary: x l)
  case (Cons r rs)
  then obtain z m where z: "replayRecord (x, l) r = Inr (z, m)" "fold_res replayRecord (z, m) rs = Inr (y, l')"
    by (auto split: sum.splits)
  then have "z = x \<or> z = applyPlain r x"
    by (auto simp: replayRecord_def Let_def split: if_splits option.splits)
  with Cons z show ?case using utf8State_apply by (auto simp: storable_def)
qed simp

lemma utf8State_cong: "dstate a = dstate b \<Longrightarrow> utf8State a = utf8State b"
  unfolding utf8State_def using dstateD [of a b] by presburger

lemma logged_utf8: "logged base rs db \<Longrightarrow> utf8State base \<Longrightarrow> utf8State db"
  unfolding logged_def using fold_replay_utf8 utf8State_cong by metis

lemma utf8State_snapshot: "keyed_inv db \<Longrightarrow> utf8State db \<Longrightarrow> utf8Snapshot (snapshotOf db)"
proof -
  assume i: "keyed_inv db" "utf8State db"
  then have d: "dedupe_inv db" by (simp add: keyed_inv_def)
  have "utf8Record r" if "(i, r) \<in> set (dedupeWindow db)" for i r
    using that i(2) dedupe_inv_lookup [OF d, of i] by (auto simp: dedupeWindow_def utf8State_def)
  then have "list_all utf8Record (sDedupe (snapshotOf db))"
    by (auto simp: snapshotOf_window [OF d] list_all_iff)
  moreover have "list_all utf8_valid (map fst (sorted_list_of_fmap (sRecords (snapshotOf db))))"
    using i(2) by (auto simp: snapshotOf_def utf8State_def list_all_iff sorted_list_of_fmap_def
        sorted_list_of_fset.rep_eq fmlookup_dom_iff)
  ultimately show ?thesis by (simp add: utf8Snapshot_def)
qed

lemma fresh_based: "fresh db0 \<Longrightarrow> based db0 db0"
  by (auto simp: fresh_def based_def keyed_inv_def dedupe_inv_def options_ok_def frontier_ok_def dedupeWindow_def
      utf8State_def)

section \<open>Survival of a power loss\<close>

text \<open>Every directory a power loss can leave restores a state whose history extends \<open>H\<close>.\<close>

definition restores :: "'a KeyedDB_scheme \<Rightarrow> keyedWALRecord list \<Rightarrow> (fname, bytes) fmap \<Rightarrow> bool" where
  "restores db0 H m \<longleftrightarrow>
     (\<exists>H' base rs (dbx :: 'a KeyedDB_scheme). prefix H H' \<and> history db0 H' dbx \<and> based db0 base
        \<and> logged base rs dbx \<and> restorable db0 base rs m)"

definition survivable :: "'a KeyedDB_scheme \<Rightarrow> keyedWALRecord list \<Rightarrow> world \<Rightarrow> bool" where
  "survivable db0 H w \<longleftrightarrow> (\<forall>m. crash w m \<longrightarrow> restores db0 H m)"

lemma restoresI:
  fixes dbx db0 :: "'a KeyedDB_scheme"
  shows "prefix H H' \<Longrightarrow> history db0 H' dbx \<Longrightarrow> based db0 base \<Longrightarrow> logged base rs dbx \<Longrightarrow> restorable db0 base rs m \<Longrightarrow>
    restores db0 H m"
  unfolding restores_def by blast

lemma restores_prefix: "restores db0 (H @ L) m \<Longrightarrow> restores db0 H m"
  unfolding restores_def by (meson append_prefixD)

lemma logged_options: "logged base rs db \<Longrightarrow> options db = options base \<and> format db = format base"
  unfolding logged_def using fold_replay_bounds dstateD by metis

lemma servingD:
  assumes "serving db0 base rs db w"
  shows "keyed_inv db" "logged base rs db" "options db = options db0" "format db = format db0"
    "untouched w storeFiles" "fmlookup (files w) FORMAT = Some (format db0)" "fmlookup (durable w) FORMAT = Some (format db0)"
    "fmlookup (durable w) SNAPSHOT_file = fmlookup (files w) SNAPSHOT_file"
    "fmlookup (durable w) WAL_file = Some (walImage rs)" "fmlookup (files w) WAL_file = Some (walImage rs)"
    "snapshot_loads (files w) db0 base" "tracks base rs [] db w" "based db0 base"
  using assms logged_options [of base rs db] by (auto simp: serving_def tracks_def settled_def based_def)

lemma serving_survivable:
  assumes "serving db0 base rs db w" "history db0 H db"
  shows "survivable db0 H w"
  unfolding survivable_def
proof (intro allI impI)
  fix m assume cr: "crash w m"
  note d = servingD [OF assms(1)]
  have "untouched w {FORMAT, SNAPSHOT_file, WAL_file}" using d(5) by (simp add: storeFiles_def)
  from crash_commit [OF d(12) cr this d(6,7,8,11,9)] obtain rs' where "prefix rs rs'" "prefix rs' (rs @ [])"
    "restorable db0 base rs' m" by auto
  moreover from this have "rs' = rs" using prefix_order.antisym by simp
  ultimately have "restorable db0 base rs m" by simp
  then show "restores db0 H m"
    by (rule restoresI [OF prefix_order.refl assms(2) d(13,2)])
qed

text \<open>What a commit group leaves alone.\<close>

lemma appendKeyedFrame_keeps:
  assumes "appendKeyedFrame hooks r db w = (e, db', w')"
  shows "walOpen db' = walOpen db" "closed db' = closed db" "fmlookup (files w) WAL_file \<noteq> None \<Longrightarrow> fmlookup (files w') WAL_file \<noteq> None"
  using assms
  by (auto simp: appendKeyedFrame_def file_Write_def Let_def split: option.splits outcome.splits if_splits)

lemma commitOne_keeps:
  assumes "hook_ok hooks"
  shows "walOpen (gDB (commitOne hooks q g)) = walOpen (gDB g)
    \<and> (fmlookup (files (gWorld g)) WAL_file \<noteq> None \<longrightarrow> fmlookup (files (gWorld (commitOne hooks q g))) WAL_file \<noteq> None)"
proof (cases "attempt (gDB g) q")
  case None
  then show ?thesis by (simp add: commitOne_no_attempt)
next
  case (Some r)
  obtain e db' w' where a: "appendKeyedFrame hooks r (gDB g) (gWorld g) = (e, db', w')" by (metis prod_cases3)
  show ?thesis using appendKeyedFrame_keeps [OF a] a applyKeyed_hook(4) [OF assms]
    by (cases e) (auto simp: commitOne_attempt(3) [OF Some] Let_def)
qed

lemma fold_commitOne_keeps:
  assumes "hook_ok hooks"
  shows "walOpen (gDB (fold (commitOne hooks) qs g)) = walOpen (gDB g)
    \<and> (fmlookup (files (gWorld g)) WAL_file \<noteq> None \<longrightarrow> fmlookup (files (gWorld (fold (commitOne hooks) qs g))) WAL_file \<noteq> None)"
  using commitOne_keeps [OF assms] by (induction qs arbitrary: g) auto

lemma processCommitGroup_keeps:
  assumes "hook_ok hooks" "processCommitGroup hooks qs db w = (results, db', w')"
  shows "walOpen db' = walOpen db" "fmlookup (files w) WAL_file \<noteq> None \<Longrightarrow> fmlookup (files w') WAL_file \<noteq> None"
  using assms(2) fold_commitOne_keeps [OF assms(1), of qs "groupStart db w qs"] syncKeyed_world [of hooks]
  by (auto simp: processCommitGroup_def groupFinish_def groupStart_def Let_def split: prod.splits option.splits if_splits)

lemma commit_serving:
  assumes s: "serving db0 base rs db w" and h: "history db0 H db" and np: "\<not> poisoned db"
    and q: "list_all (request_ok (config db)) qs" "hook_ok hooks" "length qs \<le> keyedMaxCommitGroup"
    and rec: "list_all (recoverable (options db)) (attempts hooks qs (groupStart db w qs))"
    and run: "processCommitGroup hooks qs db w = (results, db', w')"
    and L: "L = applied hooks qs (groupStart db w qs)"
  shows "survivable db0 H w'"
    and "\<not> poisoned db' \<Longrightarrow> serving db0 base (rs @ L) db' w' \<and> history db0 (H @ L) db'"
proof -
  note d = servingD [OF s]
  note t = processCommitGroup_tracks [OF d(12) q rec np run L]
  obtain D where D: "tracks base (rs @ L) D db' w'" using t(1) by blast
  have lg: "logged base (rs @ L) db'" using D by (simp add: tracks_def)
  have hd: "L \<noteq> [] \<Longrightarrow> rSequence (hd L) = sequence db + 1"
    using applied_hd [of hooks qs "groupStart db w qs"] L by (simp add: groupStart_def)
  note tk = logged_take [OF d(2) lg hd]
  have hL: "history db0 (H @ L) db'" using history_append [OF h tk(2)] .
  have oth: "set (pend w') \<subseteq> set (pend w)" "windows w' = windows w"
    "\<And>n. n \<noteq> WAL_file \<Longrightarrow> fmlookup (files w') n = fmlookup (files w) n \<and> fmlookup (durable w') n = fmlookup (durable w) n"
    using t(2) by (auto simp: others_same_def)
  have un: "untouched w' storeFiles" using d(5) oth(1) by (auto simp: untouched_def)
  show srv: "serving db0 base (rs @ L) db' w' \<and> history db0 (H @ L) db'" if np': "\<not> poisoned db'"
  proof -
    have D0: "D = []" "contents WAL_file w' = walImage (rs @ L)" using D np' by (auto simp: tracks_def)
    have f: "fmlookup (files w') WAL_file = Some (walImage (rs @ L))"
      using D0(2) processCommitGroup_keeps(2) [OF q(2) run] d(10) by (auto simp: contents_def)
    have du: "fmlookup (durable w') WAL_file = Some (walImage (rs @ L))"
      using t(3) [OF np'] d(9) D0(2) by (auto split: if_splits)
    have "settled (format db0) (fmlookup (files w') SNAPSHOT_file) (walImage (rs @ L)) (walImage (rs @ L)) w'"
      using s oth un f du by (auto simp: serving_def settled_def)
    moreover have "snapshot_loads (files w') db0 base" using d(11) oth(3) by (simp add: snapshot_loads_def)
    ultimately show ?thesis
      using D D0(1) hL d(13) processCommitGroup_keeps(1) [OF q(2) run] s by (auto simp: serving_def)
  qed
  show "survivable db0 H w'"
  proof (cases "poisoned db'")
    case False
    from srv [OF False] have "survivable db0 (H @ L) w'" using serving_survivable by blast
    then show ?thesis unfolding survivable_def using restores_prefix by blast
  next
    case True
    have du: "durable w' = durable w" by (rule t(4) [OF True])
    show ?thesis unfolding survivable_def
    proof (intro allI impI)
      fix m assume cr: "crash w' m"
      have 1: "fmlookup (files w') FORMAT = Some (format db0)" "fmlookup (durable w') FORMAT = Some (format db0)"
        "fmlookup (durable w') SNAPSHOT_file = fmlookup (files w') SNAPSHOT_file"
        "snapshot_loads (files w') db0 base" "fmlookup (durable w') WAL_file = Some (walImage rs)"
        using oth(3) d du by (simp_all add: snapshot_loads_def)
      obtain rs' where rs': "prefix rs rs'" "prefix rs' ((rs @ L) @ D)" "restorable db0 base rs' m"
        using crash_commit [OF D cr un [unfolded storeFiles_def] 1] by auto
      obtain U where U: "rs' = rs @ U" "prefix U (L @ D)" using rs'(1,2) by (auto simp: prefix_def)
      have "\<exists>H' (dbx :: 'a KeyedDB_scheme). prefix H H' \<and> history db0 H' dbx \<and> logged base rs' dbx"
      proof (cases "prefix U L")
        case True
        then have "U = take (length U) L" by (metis append_eq_conv_conj prefix_def)
        then have "logged base rs' (applyAll U db)" using tk(1) [of "length U"] U(1) by simp
        moreover have "history db0 (H @ U) (applyAll U db)" by (rule history_append [OF h refl])
        ultimately show ?thesis by (meson prefixI)
      next
        case False
        then obtain r where r: "D = [r]" "logged base ((rs @ L) @ [r]) (applyPlain r db')"
          using D U(2) by (auto simp: tracks_def)
        have "U = L @ [r]" using U(2) False r(1) by (auto simp: prefix_append prefix_Cons)
        moreover have "history db0 ((H @ L) @ [r]) (applyPlain r db')"
          by (rule history_append [OF hL]) simp
        ultimately show ?thesis using r(2) U(1) by (metis append_assoc prefixI)
      qed
      then show "restores db0 H m" using restoresI [OF _ _ d(13) _ rs'(3)] by blast
    qed
  qed
qed

lemma installSnapshot_handle:
  assumes "installSnapshot db snap = Inr b"
  shows "handle b = handle db"
proof -
  have l: "loadDedupe f (a, l) rs = Inr (x, l') \<Longrightarrow> handle x = handle a" for f l rs l' and a x :: "'a KeyedDB_scheme"
  proof (induction rs arbitrary: a l)
    case (Cons r rs)
    then show ?case by (fastforce simp: handle_def split: if_splits option.splits)
  qed simp
  from assms obtain l' where "loadDedupe (sSequence snap) (db\<lparr>records := sRecords snap, sequence := sSequence snap\<rparr>, 0) (sDedupe snap) = Inr (b, l')"
    by (auto simp: installSnapshot_def split: if_splits option.splits sum.splits)
  from l [OF this] show ?thesis by (simp add: handle_def)
qed

lemma snapshotKeyed_ok:
  "snapshotKeyed db w = (None, db', w') \<Longrightarrow> walOpen db \<Longrightarrow> db' = db\<lparr>walOffset := 0\<rparr>"
  by (auto simp: snapshotKeyed_def Let_def split: prod.splits option.splits)

text \<open>A snapshot keeps the history; when it succeeds the log is empty behind it.\<close>

lemma snapshot_serving:
  assumes f: "fresh db0" and s: "serving db0 base rs db w" and h: "history db0 H db" and np: "\<not> poisoned db"
    and run: "snapshotKeyed db w = (e, db', w')"
  shows "crash w' m \<Longrightarrow> \<exists>b rs'. based db0 b \<and> logged b rs' db \<and> restorable db0 b rs' m"
    and "survivable db0 H w'" and "history db0 H db'"
    and "e = None \<Longrightarrow> db' = db\<lparr>walOffset := 0\<rparr> \<and> (\<exists>b. serving db0 b [] db' w')"
proof -
  note d = servingD [OF s]
  have op: "walOpen db" and st: "settled (format db) (fmlookup (files w) SNAPSHOT_file) (walImage rs) (walImage rs) w"
    using s d(4) by (auto simp: serving_def)
  have u: "utf8State db" using logged_utf8 [OF d(2)] d(13) by (simp add: based_def)
  note us = utf8State_snapshot [OF d(1) u]
  note sn = snapshotKeyed_safe [OF st op run]
  show hd: "history db0 H db'" by (rule history_cong [OF h sn(3)])
  have db0: "options db0 = options db" "format db0 = format db" "dedupe db0 = fmempty" "dedupeIDs db0 = []"
    using f d(3,4) by (auto simp: fresh_def)
  obtain b0 where b0: "installSnapshot db0 (snapshotOf db) = Inr b0" "dstate b0 = dstate db" "handle b0 = handle db0"
    using installSnapshot_ok [OF d(1) db0] by blast
  have based: "based db0 b" if "dstate b = dstate db" "handle b = handle db0" for b
    using that d(1,3,4) u f keyed_inv_cong [OF that(1)] utf8State_cong [OF that(1)] dstateD [OF that(1)]
    by (auto simp: based_def fresh_def handle_def)
  have res: "\<exists>b rs'. based db0 b \<and> logged b rs' db \<and> restorable db0 b rs' m" if cr: "crash w' m" for m
  proof -
    have old: "snapshot_loads m db0 base" if "fmlookup m SNAPSHOT_file = fmlookup (files w) SNAPSHOT_file" for m
      using that d(11) by (simp add: snapshot_loads_def)
    obtain b rs' where b: "restorable db0 b rs' m" "logged b rs' db" "b = base \<or> dstate b = dstate db"
      using snapSafe_recovers [OF sn(1) cr d(1) us db0 old d(2)] by blast
    have "b = base \<or> handle b = handle db0"
      using b(1) installSnapshot_handle by (auto simp: restorable_def snapshot_loads_def split: option.splits sum.splits)
    then show ?thesis using b based d(13) by blast
  qed
  then show "crash w' m \<Longrightarrow> \<exists>b rs'. based db0 b \<and> logged b rs' db \<and> restorable db0 b rs' m" .
  show "survivable db0 H w'"
    unfolding survivable_def using res restoresI [OF prefix_order.refl h] by blast
  assume e: "e = None"
  have w': "settled (format db0) (Some (snapshotImage db)) [] [] w'" using sn(2) [OF e] d(4) by simp
  have db': "db' = db\<lparr>walOffset := 0\<rparr>" using snapshotKeyed_ok run e op by blast
  have "fmlookup (files w') SNAPSHOT_file = Some (snapshotImage db)" "contents WAL_file w' = []"
    using w' by (auto simp: settled_def contents_def)
  then have "snapshot_loads (files w') db0 b0" "contents WAL_file w' = []"
    using b0(1) us by (simp_all add: snapshot_loads_def decode_snapshotImage)
  moreover have "tracks b0 [] [] db' w'"
    using logged_Nil [of b0 db'] b0(2) sn(3) d(1) keyed_inv_cong [OF sn(3)] db' calculation(2)
    by (auto simp: tracks_def)
  ultimately have "serving db0 b0 [] db' w'"
    using based [OF b0(2,3)] op db' w' by (auto simp: serving_def settled_def)
  then show "db' = db\<lparr>walOffset := 0\<rparr> \<and> (\<exists>b. serving db0 b [] db' w')" using db' by blast
qed

text \<open>Reopening a surviving directory serves the restored state again.\<close>

lemma reopen_serving:
  assumes b: "based db0 base" and lg: "logged base rs dbx" and r: "restorable db0 base rs m"
    and w: "files w = m" "durable w = m" "pend w = []" "calm w" "\<not> windows w"
  shows "\<exists>db' w'. openStorage db0 w = (Inr db', w') \<and> dstate db' = dstate dbx \<and> \<not> poisoned db' \<and> \<not> closed db'
    \<and> serving db0 base rs db' w'"
proof -
  obtain t where t: "fmlookup m WAL_file = Some (walImage rs @ t)" "torn t" and fm: "fmlookup (files w) FORMAT = Some (format db0)"
    and sl: "snapshot_loads (files w) db0 base"
    using r w(1) by (auto simp: restorable_def)
  have c: "contents WAL_file w = walImage rs @ t" using t(1) w(1) by (simp add: contents_def)
  from openStorage_recovers [OF w(4) fm sl c t(2) logged_replays [OF lg]] obtain db' w' where o:
    "openStorage db0 w = (Inr db', w')" "dstate db' = dstate dbx" "walOpen db'" "closed db' = closed base"
    "poisoned db' = poisoned base" "contents WAL_file w' = walImage rs" "walOffset db' = length (walImage rs)"
    "others_same w w'"
    "fmlookup (durable w) WAL_file = Some (contents WAL_file w) \<longrightarrow> fmlookup (durable w') WAL_file = Some (walImage rs)"
    "fmlookup (files w') WAL_file = Some (walImage rs)"
    by blast
  have lg': "logged base rs db'" using logged_cong [OF lg] o(2) by metis
  have tr: "tracks base rs [] db' w'"
    using lg' logged_inv [OF lg'] b o(6,7) by (auto simp: tracks_def based_def intro!: exI [of _ "[]"])
  have "settled (format db0) (fmlookup (files w') SNAPSHOT_file) (walImage rs) (walImage rs) w'"
    using o(8,9,10) t(1) w fm c by (auto simp: settled_def others_same_def untouched_def)
  moreover have "snapshot_loads (files w') db0 base" using sl o(8) by (auto simp: others_same_def snapshot_loads_def)
  ultimately show ?thesis using o tr b by (auto simp: serving_def based_def)
qed

section \<open>The life of a database\<close>

type_synonym 'a lifeState = "'a KeyedDB_scheme \<times> world \<times> keyedCommitResult list"

text \<open>
  The steps; the third part of a state collects the results that were acknowledged. A commit step
  takes requests whose records are recoverable: their strings are valid UTF-8, the byte bound holds
  with the keys of deletions counted, and the sequence has not wrapped around.
\<close>

inductive life :: "'a KeyedDB_scheme keyedHooks \<Rightarrow> 'a KeyedDB_scheme \<Rightarrow> 'a lifeState \<Rightarrow> 'a lifeState \<Rightarrow> bool"
  for hooks db0 s where
  begin_life: "life hooks db0 s s"
| commit:
    "life hooks db0 s (db, w, acks) \<Longrightarrow> \<not> poisoned db \<Longrightarrow> \<not> closed db \<Longrightarrow>
     list_all (request_ok (config db)) qs \<Longrightarrow> length qs \<le> keyedMaxCommitGroup \<Longrightarrow>
     list_all (recoverable (options db)) (attempts hooks qs (groupStart db w qs)) \<Longrightarrow>
     processCommitGroup hooks qs db w = (results, db', w') \<Longrightarrow>
     life hooks db0 s (db', w', acks @ filter ack results)"
| snapshot:
    "life hooks db0 s (db, w, acks) \<Longrightarrow> SnapshotKeyed c db w = (e, db', w') \<Longrightarrow> life hooks db0 s (db', w', acks)"
| close:
    "life hooks db0 s (db, w, acks) \<Longrightarrow> CloseKeyed db w = (e, db', w') \<Longrightarrow> life hooks db0 s (db', w', acks)"
| power_loss:
    "life hooks db0 s (db, w, acks) \<Longrightarrow> crash w m \<Longrightarrow>
     files wr = m \<Longrightarrow> durable wr = m \<Longrightarrow> pend wr = [] \<Longrightarrow> calm wr \<Longrightarrow> \<not> windows wr \<Longrightarrow>
     openStorage db0 wr = (Inr db', w') \<Longrightarrow> life hooks db0 s (db', w', acks)"
| weather:
    "life hooks db0 s (db, w, acks) \<Longrightarrow> life hooks db0 s (db, w\<lparr>faults := f\<rparr>, acks)"

definition acknowledged :: "keyedWALRecord list \<Rightarrow> keyedCommitResult list \<Rightarrow> bool" where
  "acknowledged H acks \<longleftrightarrow> (\<forall>res \<in> set acks. \<exists>r \<in> set H. \<exists>b. crDecision res = (decision r)\<lparr>dDuplicate := b\<rparr>)"

text \<open>An open handle that is not poisoned serves the history; whatever the handle is, the directory survives.\<close>

definition lifeInv :: "'a KeyedDB_scheme \<Rightarrow> keyedWALRecord list \<Rightarrow> 'a lifeState \<Rightarrow> bool" where
  "lifeInv db0 H s \<longleftrightarrow>
     (case s of (db, w, acks) \<Rightarrow>
        survivable db0 H w \<and> acknowledged H acks
        \<and> (\<not> poisoned db \<and> \<not> closed db \<longrightarrow> history db0 H db \<and> (\<exists>base rs. serving db0 base rs db w)))"

lemma acknowledged_mono: "acknowledged H acks \<Longrightarrow> prefix H H' \<Longrightarrow> acknowledged H' acks"
  unfolding acknowledged_def using set_mono_prefix by blast

lemma contents_faults [simp]: "contents n (w\<lparr>faults := f\<rparr>) = contents n w"
  by (simp add: contents_def)

lemma crash_cong:
  assumes "files v = files w" "durable v = durable w" "pend v = pend w"
  shows "crash v m = crash w m"
  unfolding crash_def contents_def assms ..

lemma crash_faults [simp]: "crash (w\<lparr>faults := f\<rparr>) m = crash w m"
  by (rule crash_cong) simp_all

lemma survivable_faults [simp]: "survivable db0 H (w\<lparr>faults := f\<rparr>) = survivable db0 H w"
  by (simp add: survivable_def)

lemma serving_faults: "serving db0 base rs db w \<Longrightarrow> serving db0 base rs db (w\<lparr>faults := f\<rparr>)"
  by (simp add: serving_def tracks_def settled_def untouched_def)

lemma crash_ticked [simp]: "crash (ticked w) m = crash w m"
  by (rule crash_cong) simp_all

lemma walClose_world: "walClose db w = (e, db', w') \<Longrightarrow> w' = w \<or> w' = ticked w"
  by (auto simp: walClose_def file_Close_def io_check_def split: if_splits prod.splits option.splits)

lemma survivable_walClose: "survivable db0 H w \<Longrightarrow> walClose db w = (e, db', w') \<Longrightarrow> survivable db0 H w'"
  using walClose_world [of db w e db' w'] by (auto simp: survivable_def)

lemma walClose_closed: "walClose db w = (e, db', w') \<Longrightarrow> closed db' = closed db \<and> poisoned db' = poisoned db"
  by (auto simp: walClose_def split: if_splits prod.splits option.splits)

lemma inv_commit:
  assumes i: "lifeInv db0 H (db, w, acks)" and f: "fresh db0" and o: "\<not> poisoned db" "\<not> closed db"
    and q: "list_all (request_ok (config db)) qs" "hook_ok hooks" "length qs \<le> keyedMaxCommitGroup"
    and rec: "list_all (recoverable (options db)) (attempts hooks qs (groupStart db w qs))"
    and run: "processCommitGroup hooks qs db w = (results, db', w')"
  shows "\<exists>H'. prefix H H' \<and> lifeInv db0 H' (db', w', acks @ filter ack results)"
proof -
  obtain base rs where s: "serving db0 base rs db w" and h: "history db0 H db"
    using i o by (auto simp: lifeInv_def)
  define L where "L = applied hooks qs (groupStart db w qs)"
  note c = commit_serving [OF s h o(1) q rec run L_def]
  note t = processCommitGroup_tracks [OF servingD(12) [OF s] q rec o(1) run L_def]
  have ga: "(\<not> poisoned db' \<and> (\<exists>r \<in> set L. \<exists>b. crDecision res = (decision r)\<lparr>dDuplicate := b\<rparr>))
      \<or> (\<exists>j r. fmlookup (dedupe db) j = Some r \<and> crDecision res = (decision r)\<lparr>dDuplicate := True\<rparr>)"
    if res: "res \<in> set results" "ack res" for res
  proof -
    obtain k where "k < length results" "res = results ! k" using res(1) by (metis in_set_conv_nth)
    then show ?thesis
      using groupFinish_answers [OF run [unfolded processCommitGroup_def] group_answered [OF q(2), of db qs w, folded L_def]
          t(5,6)] res(2) by blast
  qed
  have dup: "\<exists>r \<in> set H. \<exists>b. crDecision res = (decision r)\<lparr>dDuplicate := b\<rparr>"
    if "fmlookup (dedupe db) j = Some x" "crDecision res = (decision x)\<lparr>dDuplicate := True\<rparr>" for j x res
  proof -
    have "dedupe db0 = fmempty" using f by (simp add: fresh_def)
    from history_dedupe [OF h this that(1)] show ?thesis using that(2) by (metis decision_retainedOf)
  qed
  have a: "acknowledged H acks" using i by (simp add: lifeInv_def)
  show ?thesis
  proof (cases "poisoned db'")
    case True
    have "acknowledged H (filter ack results)"
      unfolding acknowledged_def
    proof
      fix res assume "res \<in> set (filter ack results)"
      then show "\<exists>r \<in> set H. \<exists>b. crDecision res = (decision r)\<lparr>dDuplicate := b\<rparr>"
        using ga [of res] dup True by auto
    qed
    then have "lifeInv db0 H (db', w', acks @ filter ack results)"
      using True c(1) a by (auto simp: lifeInv_def acknowledged_def)
    then show ?thesis by blast
  next
    case False
    have "acknowledged (H @ L) (filter ack results)"
      unfolding acknowledged_def
    proof
      fix res assume "res \<in> set (filter ack results)"
      then have "res \<in> set results" "ack res" by auto
      then show "\<exists>r \<in> set (H @ L). \<exists>b. crDecision res = (decision r)\<lparr>dDuplicate := b\<rparr>"
        using ga [of res] dup unfolding set_append by blast
    qed
    moreover have "acknowledged (H @ L) acks" using acknowledged_mono [OF a] by simp
    ultimately have "lifeInv db0 (H @ L) (db', w', acks @ filter ack results)"
      using c(2) [OF False] serving_survivable [of db0 base "rs @ L" db' w' "H @ L"] unfolding lifeInv_def acknowledged_def
      by auto
    then show ?thesis by (meson prefixI)
  qed
qed

lemma inv_snapshot:
  assumes i: "lifeInv db0 H (db, w, acks)" and f: "fresh db0" and run: "SnapshotKeyed c db w = (e, db', w')"
  shows "lifeInv db0 H (db', w', acks)"
proof (cases "enterKeyed db c ''snapshot_keyed''")
  case (Some x)
  then show ?thesis using i run by (simp add: SnapshotKeyed_def)
next
  case None
  then have o: "\<not> poisoned db" "\<not> closed db" by (auto simp: enterKeyed_def split: if_splits)
  obtain base rs where s: "serving db0 base rs db w" and h: "history db0 H db"
    using i o by (auto simp: lifeInv_def)
  obtain e1 db1 w1 where r: "snapshotKeyed db w = (e1, db1, w1)" by (metis prod_cases3)
  note sn = snapshot_serving [OF f s h o(1) r]
  show ?thesis using sn i run None r by (cases e1) (auto simp: SnapshotKeyed_def lifeInv_def)
qed

lemma inv_close:
  assumes i: "lifeInv db0 H (db, w, acks)" and f: "fresh db0" and run: "CloseKeyed db w = (e, db', w')"
  shows "lifeInv db0 H (db', w', acks)"
proof (cases "closed db")
  case True
  then show ?thesis using i run by (simp add: CloseKeyed_def)
next
  case False
  have k: "lifeInv db0 H (x', w2, acks)" if "survivable db0 H w1" "walClose x w1 = (ee, x', w2)" "closed x" for x x' w1 w2 ee
    using survivable_walClose [OF that(1,2)] walClose_closed [OF that(2)] that(3) i by (auto simp: lifeInv_def)
  show ?thesis
  proof (cases "poisoned db")
    case True
    then show ?thesis using run False i k [of w "db\<lparr>closed := True\<rparr>"] by (auto simp: CloseKeyed_def lifeInv_def)
  next
    case np: False
    obtain base rs where s: "serving db0 base rs db w" and h: "history db0 H db"
      using i np False by (auto simp: lifeInv_def)
    let ?db = "db\<lparr>closed := True\<rparr>"
    have ds: "dstate ?db = dstate db" by (simp add: dstate_def)
    have s': "serving db0 base rs ?db w" "history db0 H ?db" "\<not> poisoned ?db"
      using s h ds np tracks_cong [of base rs "[]" db w ?db w] by (auto simp: serving_def intro: history_cong)
    obtain e1 db1 w1 where r: "snapshotKeyed ?db w = (e1, db1, w1)" by (metis prod_cases3)
    have "closed db1"
      using r by (auto simp: snapshotKeyed_def Let_def split: if_splits prod.splits option.splits)
    moreover note sv = snapshot_serving(2) [OF f s' r]
    obtain e2 db2 w2 where c: "walClose db1 w1 = (e2, db2, w2)" by (metis prod_cases3)
    ultimately have "lifeInv db0 H (db2, w2, acks)" using k [OF sv c] by blast
    moreover have "db' = db2" "w' = w2" using run False np r c by (auto simp: CloseKeyed_def split: option.splits)
    ultimately show ?thesis by simp
  qed
qed

lemma inv_power_loss:
  fixes db0 :: "'a KeyedDB_scheme"
  assumes i: "lifeInv db0 H (db, w, acks)" and f: "fresh db0" and cr: "crash w m"
    and w: "files wr = m" "durable wr = m" "pend wr = []" "calm wr" "\<not> windows wr"
  shows "\<exists>db' w' H'. openStorage db0 wr = (Inr db', w') \<and> \<not> poisoned db' \<and> \<not> closed db'
    \<and> prefix H H' \<and> lifeInv db0 H' (db', w', acks)"
proof -
  have r: "restores db0 H m" using i cr by (simp add: lifeInv_def survivable_def)
  obtain H' base rs and dbx :: "'a KeyedDB_scheme" where x: "prefix H H'" "history db0 H' dbx" "based db0 base"
      "logged base rs dbx" "restorable db0 base rs m"
    using r unfolding restores_def by blast
  obtain db' w' where o: "openStorage db0 wr = (Inr db', w')" "dstate db' = dstate dbx" "\<not> poisoned db'" "\<not> closed db'"
      "serving db0 base rs db' w'"
    using reopen_serving [OF x(3-5) w] by blast
  have h: "history db0 H' db'" by (rule history_cong [OF x(2) o(2)])
  then have "lifeInv db0 H' (db', w', acks)"
    using o serving_survivable [OF o(5) h] acknowledged_mono [OF _ x(1)] i by (auto simp: lifeInv_def)
  then show ?thesis using o x(1) by blast
qed

lemma life_inv:
  assumes "life hooks db0 s s'" "fresh db0" "hook_ok hooks" "lifeInv db0 H s"
  shows "\<exists>H'. prefix H H' \<and> lifeInv db0 H' s'"
  using assms
proof (induction rule: life.induct)
  case (commit db w acks qs results db' w')
  then show ?case using inv_commit by (meson prefix_order.trans)
next
  case (power_loss db w acks m wr db' w')
  then obtain H' where H': "prefix H H'" "lifeInv db0 H' (db, w, acks)" by blast
  from inv_power_loss [OF this(2) power_loss.prems(1) power_loss.hyps(2-7)] power_loss.hyps(8)
  show ?case using H'(1) by (metis Pair_inject prefix_order.trans sum.inject(2))
next
  case (weather db w acks f)
  then obtain H' where "prefix H H'" "lifeInv db0 H' (db, w, acks)" by blast
  then show ?case using serving_faults by (fastforce simp: lifeInv_def)
qed (use inv_snapshot inv_close in blast)+

end
