(* ===== verification/Keyed_Invariant.thy ===== *)
theory Keyed_Invariant
  imports Keyed_Life
begin

text \<open>
  The invariant of the keyed database through a commit group: one request keeps it and advances the
  sequence by at most one, whichever storage call fails.
\<close>

lemma commitOne_inv:
  assumes h: "hook_ok hooks" and i: "keyed_inv (gDB g)" "request_ok (config (gDB g)) q" "unat (sequence (gDB g)) + 1 < 2 ^ 64"
  shows "keyed_inv (gDB (commitOne hooks q g))
    \<and> unat (sequence (gDB (commitOne hooks q g))) \<le> unat (sequence (gDB g)) + 1"
proof (cases "attempt (gDB g) q")
  case None
  then show ?thesis using i by (simp add: commitOne_no_attempt)
next
  case (Some r)
  obtain e db1 w1 where a: "appendKeyedFrame hooks r (gDB g) (gWorld g) = (e, db1, w1)" by (metis prod_cases3)
  have d1: "dstate db1 = dstate (gDB g)"
    using a by (auto simp: appendKeyedFrame_def Let_def dstate_def split: option.splits prod.splits if_splits)
  have "0 \<le> MaxValueBytes (options (gDB g))" using i(1) by (simp add: keyed_inv_def options_ok_def)
  note p = executeKeyed_persist [OF commitOne_attempt(1) [OF Some] i(2) this]
  have nz: "unat (sequence (gDB g) + 1) = unat (sequence (gDB g)) + 1"
    using i(3) by (simp add: unat_word_ariths)
  then have "rSequence r \<noteq> 0" using p(3) by (metis add_eq_0_iff_both_eq_0 one_neq_zero unat_0)
  then have "keyed_inv (applyPlain r (gDB g))" using keyed_inv_apply [OF i(1) p(1,2)] p by simp
  then have "keyed_inv (applyPlain r db1)" using keyed_inv_cong dstate_applyPlain [OF d1] by blast
  moreover have "keyed_inv (db1\<lparr>poisoned := True\<rparr>)" using i(1) d1 keyed_inv_cong [of "db1\<lparr>poisoned := True\<rparr>" "gDB g"]
    by (simp add: dstate_def)
  moreover note hk = applyKeyed_hook(1) [OF h, of r db1]
  moreover have "sequence (applyKeyed (afterApply hooks) r db1) = sequence (gDB g) + 1"
    using dstateD [OF hk] p(3) by simp
  moreover have "sequence db1 = sequence (gDB g)" using dstateD [OF d1] by simp
  ultimately show ?thesis using a nz keyed_inv_cong [OF hk]
    by (cases e) (simp_all add: commitOne_attempt(3) [OF Some] Let_def)
qed

lemma commitOne_config: "hook_ok hooks \<Longrightarrow> config (gDB (commitOne hooks q g)) = config (gDB g)"
  by (cases "attempt (gDB g) q") (simp_all add: config_attempt commitOne_no_attempt(1))

lemma fold_commitOne_inv:
  assumes "hook_ok hooks" "keyed_inv (gDB g)" "list_all (request_ok (config (gDB g))) qs" "unat (sequence (gDB g)) + length qs < 2 ^ 64"
  shows "keyed_inv (gDB (fold (commitOne hooks) qs g))"
  using assms(2-)
proof (induction qs arbitrary: g)
  case (Cons q qs)
  then show ?case using commitOne_inv [OF assms(1), of g q] commitOne_config [OF assms(1), of q g] by fastforce
qed simp

lemma processCommitGroup_dstate:
  "processCommitGroup hooks qs db w = (results, db', w') \<Longrightarrow>
   dstate db' = dstate (gDB (fold (commitOne hooks) qs (groupStart db w qs)))"
  by (auto simp: processCommitGroup_def groupFinish_def Let_def dstate_def split: prod.splits option.splits if_splits)

end
