(* ===== verification/Keyed_Serial.thy ===== *)
theory Keyed_Serial
  imports Keyed_Group Keyed_Reopen
begin

text \<open>
  Group commit against serial submission. Without faults, a group of requests gives the answers, the
  durable state and the log that the same requests give when each is submitted and synchronised alone.
\<close>

definition serialSubmit ::
  "'a KeyedDB_scheme keyedHooks \<Rightarrow> 'a KeyedDB_scheme keyedCommitRequest list \<Rightarrow> 'a KeyedDB_scheme \<Rightarrow> world
    \<Rightarrow> keyedCommitResult list \<times> 'a KeyedDB_scheme \<times> world" where
  "serialSubmit hooks qs db w =
     fold (\<lambda>q (results, db, w). case SubmitKeyed hooks q db w of (res, db', w') \<Rightarrow> (results @ [res], db', w'))
       qs ([], db, w)"

text \<open>A callback that reads only the durable state and the extension of the database.\<close>

definition txPure :: "'a KeyedDB_scheme mutation \<Rightarrow> bool" where
  "txPure m \<longleftrightarrow> (\<forall>a b tx. dstate a = dstate b \<and> KeyedDB.more a = KeyedDB.more b \<longrightarrow> m a tx = m b tx)"

lemma runTx_cong: "dstate a = dstate b \<Longrightarrow> runTx p a tx = runTx p b tx"
proof (induction p arbitrary: tx)
  case (TxGet key d k)
  have "tx_Get a tx key d = tx_Get b tx key d" using dstateD [OF TxGet.prems] by (simp only: tx_Get_def)
  then show ?case using TxGet by simp
next
  case (TxPut key v k)
  have "tx_Put a tx key v = tx_Put b tx key v" using dstateD [OF TxPut.prems] by (simp only: tx_Put_def)
  then show ?case using TxPut by (simp split: prod.split)
next
  case (TxDelete key k)
  then show ?case by (simp split: prod.split)
qed simp_all

lemma txPure_runTx [simp, intro]: "txPure (runTx p)"
  using runTx_cong by (auto simp: txPure_def)

definition plainRequest :: "'a KeyedDB_scheme keyedCommitRequest \<Rightarrow> bool" where
  "plainRequest q \<longleftrightarrow> qCtx q = CtxLive \<and> (\<exists>m. qMutation q = Some m \<and> txPure m)"

definition alike :: "'a KeyedDB_scheme \<Rightarrow> world \<Rightarrow> 'a KeyedDB_scheme \<Rightarrow> world \<Rightarrow> bool" where
  "alike a v b w \<longleftrightarrow>
     dstate a = dstate b \<and> walOffset a = walOffset b \<and> KeyedDB.more a = KeyedDB.more b \<and> files v = files w
     \<and> calm v \<and> calm w \<and> \<not> poisoned a \<and> \<not> poisoned b \<and> \<not> closed a \<and> \<not> closed b"

lemma executeKeyed_cong:
  assumes "dstate a = dstate b" "KeyedDB.more a = KeyedDB.more b" "plainRequest q"
  shows "executeKeyed a q = executeKeyed b q"
proof -
  obtain m where m: "qMutation q = Some m" "txPure m" using assms(3) by (auto simp: plainRequest_def)
  have "m a newTx = m b newTx" using m(2) assms(1,2) unfolding txPure_def by blast
  then have "runKeyedMutation a newTx m = runKeyedMutation b newTx m" by (simp add: runKeyedMutation_def)
  moreover have "finalize a tx = finalize b tx" for tx using dstateD [OF assms(1)] by (simp only: finalize_def)
  moreover have "dedupe a = dedupe b" "sequence a = sequence b" "options a = options b"
    using dstateD [OF assms(1)] by auto
  ultimately show ?thesis by (simp only: executeKeyed_def m(1) option.case)
qed

text \<open>What appending does when nothing fails.\<close>

lemma afterApply_noHooks [simp]: "afterApply noHooks = (\<lambda>_ db. db)"
  by (simp add: noHooks_def)

lemma append_calm:
  assumes "calm w" "length (marshalRecord r) \<le> maxFrameBytes"
  shows "appendKeyedFrame noHooks r db w =
    (None, db\<lparr>walOffset := walOffset db + length (frame (marshalRecord r))\<rparr>,
     (ticked w)\<lparr>files := fmupd WAL_file (write_at (contents WAL_file w) (walOffset db) (frame (marshalRecord r))) (files w)\<rparr>)"
  using assms by (simp add: appendKeyedFrame_def noHooks_def file_Write_def Let_def)

lemma sync_calm: "calm w \<Longrightarrow> \<exists>w'. syncKeyed noHooks w = (None, w') \<and> files w' = files w \<and> calm w'"
  by (simp add: syncKeyed_def noHooks_def file_Sync_def)

lemma more_applyPlain [simp]: "KeyedDB.more (applyPlain r db) = KeyedDB.more db"
  by (simp add: applyKeyed_def Let_def)

lemma alike_append:
  assumes "alike a v b w"
  shows "alike (applyPlain r (a\<lparr>walOffset := walOffset a + n\<rparr>))
      ((ticked v)\<lparr>files := fmupd WAL_file (write_at (contents WAL_file v) (walOffset a) f) (files v)\<rparr>)
      (applyPlain r (b\<lparr>walOffset := walOffset b + n\<rparr>))
      ((ticked w)\<lparr>files := fmupd WAL_file (write_at (contents WAL_file w) (walOffset b) f) (files w)\<rparr>)"
proof -
  have "dstate (a\<lparr>walOffset := walOffset a + n\<rparr>) = dstate (b\<lparr>walOffset := walOffset b + n\<rparr>)"
    using assms by (simp add: alike_def dstate_def)
  from dstate_applyPlain [OF this, of r] show ?thesis
    using assms by (simp add: alike_def contents_def)
qed

lemma alike_stats: "alike a v b w \<Longrightarrow> files w2 = files w \<Longrightarrow> calm w2 \<Longrightarrow> alike a v (b\<lparr>commitStats := st\<rparr>) w2"
  by (simp add: alike_def dstate_def)

lemma submit_attempt:
  fixes db :: "'a KeyedDB_scheme"
  assumes "calm w" "\<not> closed db" "attempt db q = Some r" "length (marshalRecord r) \<le> maxFrameBytes" "qCtx q = CtxLive"
    and "appendKeyedFrame noHooks r db w = (None, db1, w1)"
  shows "\<exists>st w2. SubmitKeyed noHooks q db w
      = (zeroResult\<lparr>crDecision := decision r\<rparr>, (applyPlain r db1)\<lparr>commitStats := st\<rparr>, w2)
    \<and> files w2 = files w1 \<and> calm w2"
proof -
  let ?st = "groupStart db w [q]"
  have at: "attempt (gDB ?st) q = Some r" using assms(3) by (simp add: groupStart_def)
  have c1: "calm w1" using assms(6) append_calm [OF assms(1,4), of db] assms(1) by auto
  then obtain w2 where w2: "syncKeyed (noHooks :: 'a KeyedDB_scheme keyedHooks) w1 = (None, w2)" "files w2 = files w1" "calm w2"
    using sync_calm by blast
  have "\<not> poisoned db" using assms(3) by (auto simp: attempt_def split: if_splits)
  have g: "commitOne noHooks q ?st =
      \<lparr>gDB = applyPlain r db1, gWorld = w1, gResults = [zeroResult\<lparr>crDecision := decision r\<rparr>], gDurable = [True],
       gStaged = None, gFrames = 1, gStorageErr = None\<rparr>"
    using commitOne_attempt(3) [OF at, of noHooks] assms(6) by (simp add: groupStart_def answer_def)
  have "groupFinish noHooks (commitOne noHooks q ?st) = ([zeroResult\<lparr>crDecision := decision r\<rparr>],
      (applyPlain r db1)\<lparr>commitStats := countCommit 1 (commitStats (applyPlain r db1))\<rparr>, w2)"
    unfolding g groupFinish_def by (simp add: w2(1))
  then have "SubmitKeyed noHooks q db w = (zeroResult\<lparr>crDecision := decision r\<rparr>,
      (applyPlain r db1)\<lparr>commitStats := countCommit 1 (commitStats (applyPlain r db1))\<rparr>, w2)"
    using assms(2,5) \<open>\<not> poisoned db\<close> by (simp add: SubmitKeyed_def submitCheck_def processCommitGroup_def)
  then show ?thesis using w2 by blast
qed

lemma submit_quiet:
  assumes "\<not> closed db" "\<not> poisoned db" "attempt db q = None" "qCtx q = CtxLive"
  shows "SubmitKeyed hooks q db w = (fst (safelyExecuteKeyed db q), db, w)"
proof -
  obtain res where "safelyExecuteKeyed db q = (res, None)"
    using assms(2-4) by (auto simp: attempt_def safelyExecuteKeyed_def split: exec_outcome.splits)
  then show ?thesis
    using assms by (simp add: SubmitKeyed_def submitCheck_def processCommitGroup_def groupFinish_def groupStart_def
        commitOne_def stagedIndex_def answer_def Let_def)
qed

text \<open>A staged identity was executed in this group, so it passes the checks of \<open>executeKeyed\<close>.\<close>

definition stagedFit :: "'s groupState \<Rightarrow> bool" where
  "stagedFit g \<longleftrightarrow>
     (\<forall>i idx. fmlookup (stagedOf g) i = Some idx \<longrightarrow> TrimSpace i \<noteq> [] \<and> length i \<le> keyedMaxIdentityBytes)"

lemma executeKeyed_fit:
  "executeKeyed db q = ExecPersist r \<Longrightarrow>
   TrimSpace (qCommand q) \<noteq> [] \<and> length (qCommand q) \<le> keyedMaxIdentityBytes \<and> rCommandID r = qCommand q"
proof -
  assume e: "executeKeyed db q = ExecPersist r"
  obtain m out tx where m: "qMutation q = Some m" "runKeyedMutation db newTx m = (out, tx)"
    using executeKeyed_run [OF e] by blast
  have "rCommandID r = qCommand q" using executeKeyed_record [OF e m] by auto
  then show ?thesis using e by (auto simp: executeKeyed_def Let_def split: if_splits)
qed

lemma stagedFit_commitOne:
  assumes "stagedFit g"
  shows "stagedFit (commitOne hooks q g)"
proof (cases "attempt (gDB g) q")
  case None
  then show ?thesis using assms commitOne_no_attempt(5) [OF None, of hooks] by (simp add: stagedFit_def stagedOf_def)
next
  case (Some r)
  note fit = executeKeyed_fit [OF commitOne_attempt(1) [OF Some]]
  obtain e db1 w1 where ap: "appendKeyedFrame hooks r (gDB g) (gWorld g) = (e, db1, w1)" by (metis prod_cases3)
  then show ?thesis using assms fit
    by (cases e; cases "gStaged g") (auto simp: commitOne_attempt(3) [OF Some] stagedFit_def stagedOf_def)
qed

text \<open>A staged duplicate gets the answer that executing it would give.\<close>

lemma staged_duplicate:
  assumes b: "booked db0 L g" and fit: "stagedFit g" and q: "plainRequest q"
    and r: "fmlookup (dedupe (gDB g)) (qCommand q) = Some r" and st: "stagedIndex g (qCommand q) = Some idx"
  shows "fst (safelyExecuteKeyed (gDB g) q) = zeroResult\<lparr>crDecision := (crDecision (gResults g ! idx))\<lparr>dDuplicate := True\<rparr>\<rparr>"
proof -
  have "fmlookup (stagedOf g) (qCommand q) = Some idx"
    using st by (auto simp: stagedIndex_def stagedOf_def split: option.splits)
  then have d: "crDecision (gResults g ! idx) = decision r" "TrimSpace (qCommand q) \<noteq> []"
    "length (qCommand q) \<le> keyedMaxIdentityBytes" using b fit r by (auto simp: booked_def stagedFit_def)
  then have "executeKeyed (gDB g) q = ExecDuplicate ((decision r)\<lparr>dDuplicate := True\<rparr>)"
    using q r by (auto simp: executeKeyed_def plainRequest_def Let_def)
  then show ?thesis using d by (simp add: safelyExecuteKeyed_def)
qed

lemma commitOne_quiet_answer:
  assumes b: "booked db0 L g" and fit: "stagedFit g" and q: "plainRequest q" and np: "\<not> poisoned (gDB g)"
    and at: "attempt (gDB g) q = None"
  shows "gResults (commitOne hooks q g) = gResults g @ [fst (safelyExecuteKeyed (gDB g) q)]"
proof (cases "fmlookup (dedupe (gDB g)) (qCommand q) \<noteq> None \<and> stagedIndex g (qCommand q) \<noteq> None")
  case True
  then obtain r idx where "fmlookup (dedupe (gDB g)) (qCommand q) = Some r" "stagedIndex g (qCommand q) = Some idx" by auto
  then show ?thesis
    using staged_duplicate [OF b fit q] q np by (simp add: commitOne_def plainRequest_def Let_def)
next
  case False
  obtain res where "safelyExecuteKeyed (gDB g) q = (res, None)"
    using at np q by (auto simp: attempt_def safelyExecuteKeyed_def plainRequest_def split: exec_outcome.splits)
  then show ?thesis using False q np by (auto simp: commitOne_def plainRequest_def Let_def split: option.splits)
qed

text \<open>One request of the group against one submission.\<close>

lemma serial_step:
  assumes b: "booked db0 L g" and fit: "stagedFit g" and q: "plainRequest q"
    and al: "alike (gDB g) (gWorld g) db w"
    and small: "\<And>r. attempt (gDB g) q = Some r \<Longrightarrow> length (marshalRecord r) \<le> maxFrameBytes"
  shows "\<exists>res db' w'. SubmitKeyed noHooks q db w = (res, db', w')
    \<and> gResults (commitOne noHooks q g) = gResults g @ [res]
    \<and> alike (gDB (commitOne noHooks q g)) (gWorld (commitOne noHooks q g)) db' w'
    \<and> gStorageErr (commitOne noHooks q g) = gStorageErr g"
proof -
  have ex: "executeKeyed (gDB g) q = executeKeyed db q"
    using al q by (intro executeKeyed_cong) (auto simp: alike_def)
  have live: "qCtx q = CtxLive" using q by (simp add: plainRequest_def)
  have at: "attempt (gDB g) q = attempt db q" using al live by (simp add: attempt_def alike_def ex)
  show ?thesis
  proof (cases "attempt db q")
    case None
    then have n: "attempt (gDB g) q = None" using at by simp
    have "safelyExecuteKeyed (gDB g) q = safelyExecuteKeyed db q" by (simp add: safelyExecuteKeyed_def ex)
    moreover have "SubmitKeyed noHooks q db w = (fst (safelyExecuteKeyed db q), db, w)"
      using al None live by (intro submit_quiet) (auto simp: alike_def)
    ultimately show ?thesis
      using al commitOne_quiet_answer [OF b fit q _ n, of noHooks] commitOne_no_attempt [OF n, of noHooks]
      by (auto simp: alike_def)
  next
    case (Some r)
    then have a: "attempt (gDB g) q = Some r" using at by simp
    note sm = small [OF a]
    have cw: "calm (gWorld g)" "calm w" "\<not> closed db" using al by (auto simp: alike_def)
    from submit_attempt [OF cw(2,3) Some sm live append_calm [OF cw(2) sm]]
    obtain st w2 where s: "SubmitKeyed noHooks q db w = (zeroResult\<lparr>crDecision := decision r\<rparr>,
        (applyPlain r (db\<lparr>walOffset := walOffset db + length (frame (marshalRecord r))\<rparr>))\<lparr>commitStats := st\<rparr>, w2)"
      "files w2 = fmupd WAL_file (write_at (contents WAL_file w) (walOffset db) (frame (marshalRecord r))) (files w)"
      "calm w2" by auto
    note c = commitOne_attempt(3) [OF a, of noHooks]
    have "alike (gDB (commitOne noHooks q g)) (gWorld (commitOne noHooks q g))
        ((applyPlain r (db\<lparr>walOffset := walOffset db + length (frame (marshalRecord r))\<rparr>))\<lparr>commitStats := st\<rparr>) w2"
      using alike_stats [OF alike_append [OF al, of r "length (frame (marshalRecord r))" "frame (marshalRecord r)"], of w2 st]
        s(2,3) by (simp add: c append_calm [OF cw(1) sm])
    then show ?thesis using s(1) by (simp add: c append_calm [OF cw(1) sm])
  qed
qed

text \<open>The whole group.\<close>

lemma serial_fold:
  assumes "booked db0 L g" "stagedFit g" "gStaged g \<noteq> None \<or> length qs \<le> 1" "list_all plainRequest qs"
    and "alike (gDB g) (gWorld g) db w"
    and "list_all (\<lambda>r. length (marshalRecord r) \<le> maxFrameBytes) (attempts noHooks qs g)"
  shows "\<exists>db' w'. fold (\<lambda>q (results, db, w). case SubmitKeyed noHooks q db w of (res, db', w') \<Rightarrow> (results @ [res], db', w'))
        qs (gResults g, db, w) = (gResults (fold (commitOne noHooks) qs g), db', w')
    \<and> alike (gDB (fold (commitOne noHooks) qs g)) (gWorld (fold (commitOne noHooks) qs g)) db' w'
    \<and> gStorageErr (fold (commitOne noHooks) qs g) = gStorageErr g"
  using assms
proof (induction qs arbitrary: g L db w)
  case (Cons q qs)
  let ?g = "commitOne noHooks q g"
  have q: "plainRequest q" using Cons.prems(4) by simp
  have "length (marshalRecord r) \<le> maxFrameBytes" if "attempt (gDB g) q = Some r" for r
    using Cons.prems(6) that by simp
  from serial_step [OF Cons.prems(1,2) q Cons.prems(5) this] obtain res db1 w1 where
    st: "SubmitKeyed noHooks q db w = (res, db1, w1)" "gResults ?g = gResults g @ [res]" "alike (gDB ?g) (gWorld ?g) db1 w1"
      "gStorageErr ?g = gStorageErr g" by blast
  show ?case
  proof (cases "qs = []")
    case True
    then show ?thesis using st by simp
  next
    case False
    then have sg: "gStaged g \<noteq> None" using Cons.prems(3) by (cases qs) auto
    note bk = booked_commitOne [OF Cons.prems(1) hook_ok_noHooks sg, of q]
    have "list_all (\<lambda>r. length (marshalRecord r) \<le> maxFrameBytes) (attempts noHooks qs ?g)"
      using Cons.prems(6) by simp
    from Cons.IH [OF conjunct1 [OF bk] stagedFit_commitOne [OF Cons.prems(2)] _ _ st(3) this] bk Cons.prems(4) st
    show ?thesis by simp
  qed
qed simp

lemma group_serial:
  fixes db :: "'a KeyedDB_scheme"
  assumes "calm w" "\<not> closed db" "\<not> poisoned db" "list_all plainRequest qs"
    and "list_all (\<lambda>r. length (marshalRecord r) \<le> maxFrameBytes) (attempts noHooks qs (groupStart db w qs))"
    and g: "processCommitGroup noHooks qs db w = (results, dbg, wg)"
    and s: "serialSubmit noHooks qs db w = (results', dbs, ws)"
  shows "results = results'" "dstate dbg = dstate dbs" "files wg = files ws"
proof -
  let ?st = "groupStart db w qs" and ?g = "fold (commitOne noHooks) qs (groupStart db w qs)"
  have "booked db [] ?st" "stagedFit ?st" "gStaged ?st \<noteq> None \<or> length qs \<le> 1" "alike (gDB ?st) (gWorld ?st) db w"
    using assms(1-3) by (auto simp: booked_def groupStart_def stagedOf_def stagedFit_def alike_def)
  from serial_fold [OF this(1-3) assms(4) this(4) assms(5)] obtain db' w' where
    f: "serialSubmit noHooks qs db w = (gResults ?g, db', w')" "alike (gDB ?g) (gWorld ?g) db' w'" "gStorageErr ?g = None"
    by (auto simp: serialSubmit_def groupStart_def)
  obtain w2 where w2: "syncKeyed (noHooks :: 'a KeyedDB_scheme keyedHooks) (gWorld ?g) = (None, w2)" "files w2 = files (gWorld ?g)"
    using f(2) sync_calm [of "gWorld ?g"] unfolding alike_def by blast
  have "results = gResults ?g \<and> dstate dbg = dstate (gDB ?g) \<and> files wg = files (gWorld ?g)"
    using g w2 f(3) by (auto simp: processCommitGroup_def groupFinish_def dstate_def split: if_splits)
  then show "results = results'" "dstate dbg = dstate dbs" "files wg = files ws"
    using f s by (auto simp: alike_def)
qed

end
