(* ===== verification/Keyed_Theorems.thy ===== *)
theory Keyed_Theorems
  imports Keyed_Invariant Keyed_Serial
begin

text \<open>
  The properties of the keyed database, each followed by an instance on a small concrete database.
\<close>

section \<open>A concrete database\<close>

definition exOpts :: KeyedOptions where
  "exOpts = \<lparr>MaxRecords = 4, DedupeHorizon = 2, MaxValueBytes = 16, MaxTransactionBytes = 32\<rparr>"

definition exFresh :: KeyedDB where
  "exFresh = freshKeyed exOpts keyedFormatContents"

definition exDB :: KeyedDB where
  "exDB = exFresh\<lparr>walOpen := True\<rparr>"

definition exDir :: "(fname, bytes) fmap" where
  "exDir = fmupd FORMAT keyedFormatContents (fmupd WAL_file [] fmempty)"

definition exWorld :: world where
  "exWorld = \<lparr>files = exDir, durable = exDir, pend = [], tick = 0, faults = (\<lambda>_. OpOk), windows = False\<rparr>"

definition exReq :: "KeyedDB keyedCommitRequest" where
  "exReq = \<lparr>qCtx = CtxLive, qCommand = str ''c1'',
     qMutation = Some (runTx (TxPut (str ''k'') (Some (str ''1'')) (\<lambda>_. TxReturn (Some (str ''true'')))))\<rparr>"

definition exRec :: keyedWALRecord where
  "exRec = \<lparr>rSequence = 1, rCommandID = str ''c1'', rApplied = True, rCode = [], rResult = str ''true'',
     rMutations = [\<lparr>mKey = str ''k'', mValue = str ''1'', mDelete = False\<rparr>]\<rparr>"

lemma ex_execute: "executeKeyed exDB exReq = ExecPersist exRec"
  by code_simp

lemma ex_fresh: "fresh exFresh"
  by (simp add: fresh_def exFresh_def freshKeyed_def options_ok_def exOpts_def)

lemma ex_db: "dstate exDB = dstate exFresh" "\<not> poisoned exDB" "\<not> closed exDB" "walOpen exDB" "walOffset exDB = 0"
  "options exDB = exOpts" "dedupe exDB = fmempty" "records exDB = fmempty" "dedupeIDs exDB = []"
  by (simp_all add: exDB_def dstate_def exFresh_def freshKeyed_def)

lemma ex_inv: "keyed_inv exDB"
  using fresh_based [OF ex_fresh] keyed_inv_cong [OF ex_db(1)] by (simp add: based_def)

lemma ex_world: "files exWorld = exDir" "durable exWorld = exDir" "pend exWorld = []" "calm exWorld" "\<not> windows exWorld"
  "contents WAL_file exWorld = []" "fmlookup exDir WAL_file = Some []" "fmlookup exDir SNAPSHOT_file = None"
  "fmlookup exDir FORMAT = Some (format exFresh)"
  by (simp_all add: exWorld_def exDir_def calm_def contents_def exFresh_def freshKeyed_def)

lemma ex_serving: "serving exFresh exFresh [] exDB exWorld"
  using fresh_based [OF ex_fresh] ex_inv logged_Nil [OF ex_db(1) [symmetric]] ex_db ex_world
  by (auto simp: serving_def tracks_def settled_def snapshot_loads_def untouched_def)

lemma ex_history: "history exFresh [] exDB"
  using ex_db(1) by (simp add: history_def)

lemma ex_attempt: "attempt exDB exReq = Some exRec"
  using ex_execute ex_db(2) by (simp add: attempt_def) (simp add: exReq_def)

lemma ex_attempts: "attempts noHooks [exReq] (groupStart exDB exWorld [exReq]) = [exRec]"
  using ex_attempt by (simp add: groupStart_def)

lemma ex_recoverable: "recoverable exOpts exRec"
  by (simp add: recoverable_def exRec_def exOpts_def utf8Record_def mutBytes_def utf8_valid_ascii)

lemma ex_request: "request_ok cfg exReq" "plainRequest exReq"
  by (auto simp: request_ok_def plainRequest_def exReq_def)

lemma ex_small: "length (marshalRecord exRec) \<le> maxFrameBytes"
proof -
  have "length (marshalRecord exRec) = 108" by code_simp
  then show ?thesis by (simp add: maxFrameBytes_def)
qed

definition exAnswer :: keyedCommitResult where
  "exAnswer = zeroResult\<lparr>crDecision := decision exRec\<rparr>"

lemma ex_group:
  assumes at: "attempt exDB q = Some r" and len: "length (marshalRecord r) \<le> maxFrameBytes"
  shows "\<exists>db' w'. processCommitGroup noHooks [q] exDB exWorld = ([zeroResult\<lparr>crDecision := decision r\<rparr>], db', w')
     \<and> files w' = fmupd WAL_file (frame (marshalRecord r)) exDir \<and> dstate db' = dstate (applyPlain r exDB)"
proof -
  let ?w = "(ticked exWorld)\<lparr>files := fmupd WAL_file (write_at [] 0 (frame (marshalRecord r))) exDir\<rparr>"
  have a: "appendKeyedFrame noHooks r exDB exWorld = (None, exDB\<lparr>walOffset := length (frame (marshalRecord r))\<rparr>, ?w)"
    using append_calm [OF ex_world(4) len, of exDB] ex_world ex_db by simp
  have c: "calm ?w" using ex_world(4) by simp
  obtain w' where s: "syncKeyed (noHooks :: KeyedDB keyedHooks) ?w = (None, w')" "files w' = files ?w"
    using sync_calm [OF c] by blast
  have at': "attempt (gDB (groupStart exDB exWorld [q])) q = Some r" using at by (simp add: groupStart_def)
  have d: "dstate (applyPlain r (exDB\<lparr>walOffset := n\<rparr>)) = dstate (applyPlain r exDB)" for n
    by (rule dstate_applyPlain) (simp add: dstate_def)
  show ?thesis
    using commitOne_attempt(3) [OF at', of noHooks] a s d [of "length (frame (marshalRecord r))"]
    by (auto simp: processCommitGroup_def groupFinish_def groupStart_def Let_def dstate_def write_at_def)
qed

lemma ex_commit: "\<exists>db' w'. processCommitGroup noHooks [exReq] exDB exWorld = ([exAnswer], db', w')"
  using ex_group [OF ex_attempt ex_small] by (auto simp: exAnswer_def)

section \<open>Durability\<close>






lemma snapshot_calm: "calm w \<Longrightarrow> \<exists>db' w'. snapshotKeyed db w = (None, db', w') \<and> calm w'"
  by (auto simp: snapshotKeyed_def Let_def os_Remove_def os_OpenExcl_def write_all_def file_Write_def file_Sync_def
      close_after_def file_Close_def io_check_def os_Rename_def syncDirectory_def directory_Sync_def file_Truncate_def
      file_Seek_def in_fmdom_iff)

lemma close_calm:
  assumes "calm w"
  shows "\<exists>db' w'. CloseKeyed db w = (None, db', w') \<and> calm w'"
proof -
  obtain db1 w1 where "snapshotKeyed (db\<lparr>closed := True\<rparr>) w = (None, db1, w1)" "calm w1"
    using snapshot_calm [OF assms] by blast
  then show ?thesis using assms
    by (auto simp: CloseKeyed_def walClose_def file_Close_def io_check_def Let_def)
qed


section \<open>Commands\<close>



text \<open>C13. Exact retry: a command whose decision is among the last \<open>DedupeHorizon\<close> ones is answered from
  the retained decision, marked as a duplicate; the mutation does not run, nothing is written, and the
  state does not change.\<close>

theorem retry_is_idempotent:
  assumes "dedupe_inv db" "\<not> closed db" "\<not> poisoned db"
    and "keyed_dedupe.admits db (r # rs)" "int (length rs) < DedupeHorizon (options db)"
    and "db' = applyAll (r # rs) db" "qCtx q = CtxLive" "qCommand q = rCommandID r" "qMutation q = Some m"
    and "TrimSpace (rCommandID r) \<noteq> []" "length (rCommandID r) \<le> keyedMaxIdentityBytes"
  shows "SubmitKeyed hooks q db' w = (zeroResult\<lparr>crDecision := (decision r)\<lparr>dDuplicate := True\<rparr>\<rparr>, db', w)"
proof -
  have "length rs < dedupeHorizon db" using assms(5) by (simp add: dedupeHorizon_def)
  from keyed_dedupe.retained_recent [OF assms(1,4) this] assms(6)
  have d: "fmlookup (dedupe db') (rCommandID r) = Some (retainedOf r)" by simp
  have e: "executeKeyed db' q = ExecDuplicate ((decision r)\<lparr>dDuplicate := True\<rparr>)"
    using d assms(8-) by (simp add: executeKeyed_def Let_def)
  have "handle (applyAll xs x) = handle x" for xs and x :: "'a KeyedDB_scheme"
    by (induction xs arbitrary: x) (simp_all add: handle_applyPlain)
  then have h: "\<not> closed db'" "\<not> poisoned db'" using assms(2,3,6) by (auto simp: handle_def simp del: fold_simps)
  have "attempt db' q = None" using e h by (auto simp: attempt_def split: ctx.split)
  from submit_quiet [OF h this assms(7)] show ?thesis using e by (simp add: safelyExecuteKeyed_def)
qed

theorem retry_is_idempotent_witness:
  "SubmitKeyed noHooks exReq (applyAll [exRec] exDB) exWorld
   = (zeroResult\<lparr>crDecision := (decision exRec)\<lparr>dDuplicate := True\<rparr>\<rparr>, applyAll [exRec] exDB, exWorld)"
proof -
  have "dedupe_inv exDB" using ex_inv by (simp add: keyed_inv_def)
  moreover have "keyed_dedupe.admits exDB [exRec]" using ex_db by (simp add: keyed_dedupe.admits.simps)
  moreover have "TrimSpace (rCommandID exRec) \<noteq> []" by code_simp
  ultimately show ?thesis
    using ex_db by (intro retry_is_idempotent [where db = exDB and rs = "[]"])
      (auto simp: exReq_def exRec_def exOpts_def keyedMaxIdentityBytes_def)
qed

text \<open>C14. The deduplication window is exact: after \<open>DedupeHorizon\<close> further decisions the identity of a
  command is forgotten, so that memory stays bounded and the identity may be used again.\<close>

theorem expired_identity_is_forgotten:
  assumes "dedupe_inv db" "keyed_dedupe.admits db rs" "DedupeHorizon (options db) \<le> int (length rs)"
    and "i \<notin> rCommandID ` set rs"
  shows "fmlookup (dedupe (applyAll rs db)) i = None
    \<and> int (length (dedupeIDs (applyAll rs db))) \<le> DedupeHorizon (options db)"
proof -
  have "dedupeHorizon db \<le> length rs" using assms(3) by (simp add: dedupeHorizon_def)
  from keyed_dedupe.retained_expired [OF assms(1,2) this assms(4)] 
  have "fmlookup (dedupe (applyAll rs db)) i = None" .
  moreover have "dedupe_inv (applyAll rs db)" using keyed_dedupe.fold_remember [OF assms(1,2)] by blast
  moreover have "options (applyAll xs x) = options x" for xs and x :: "'a KeyedDB_scheme"
    by (induction xs arbitrary: x) simp_all
  ultimately show ?thesis by (simp add: dedupe_inv_def)
qed

theorem expired_identity_witness:
  "fmlookup (dedupe (applyAll [exRec, exRec\<lparr>rCommandID := str ''c2''\<rparr>] exDB)) (str ''c0'') = None
   \<and> int (length (dedupeIDs (applyAll [exRec, exRec\<lparr>rCommandID := str ''c2''\<rparr>] exDB))) \<le> DedupeHorizon (options exDB)"
proof -
  have i: "dedupe_inv exDB" using ex_inv by (simp add: keyed_inv_def)
  have "keyed_dedupe.admits exDB [exRec, exRec\<lparr>rCommandID := str ''c2''\<rparr>]"
    using ex_db applyKeyed_dedupe(2) [OF i, of exRec] by (simp add: keyed_dedupe.admits.simps exRec_def)
  then show ?thesis
    using i ex_db(6) by (intro expired_identity_is_forgotten) (auto simp: exOpts_def exRec_def)
qed

text \<open>C12. The outcome of a command is all or nothing. A command that is invalid, fails, panics or repeats
  a retained identity changes neither the database nor the files; a command with a record to persist is
  either acknowledged, and then its record is applied in full, or it is not, and then the database
  refuses everything until it is reopened.\<close>

theorem submit_outcome:
  assumes "\<not> closed db" "\<not> poisoned db" "hook_ok hooks" "qCtx q = CtxLive"
    and "SubmitKeyed hooks q db w = (res, db', w')"
  shows "case executeKeyed db q of
      ExecError e \<Rightarrow> res = zeroResult\<lparr>crErr := Some e\<rparr> \<and> db' = db \<and> w' = w
    | ExecPanic msg \<Rightarrow> res = zeroResult\<lparr>crPanic := Some msg\<rparr> \<and> db' = db \<and> w' = w
    | ExecDuplicate d \<Rightarrow> res = zeroResult\<lparr>crDecision := d\<rparr> \<and> db' = db \<and> w' = w
    | ExecPersist r \<Rightarrow>
        if ack res then crDecision res = decision r \<and> dstate db' = dstate (applyPlain r db) \<and> \<not> poisoned db'
        else poisoned db'"
proof (cases "attempt db q")
  case None
  then have n: "\<And>r. executeKeyed db q \<noteq> ExecPersist r" using assms(2,4) by (auto simp: attempt_def)
  show ?thesis using submit_quiet [OF assms(1,2) None assms(4), of hooks w] n assms(5)
    by (auto simp: safelyExecuteKeyed_def split: exec_outcome.splits)
next
  case (Some r)
  have at: "attempt (gDB (groupStart db w [q])) q = Some r" using Some by (simp add: groupStart_def)
  obtain e db1 w1 where a: "appendKeyedFrame hooks r db w = (e, db1, w1)" by (metis prod_cases3)
  have d1: "dstate db1 = dstate db" "poisoned db1 = poisoned db"
    using a by (auto simp: appendKeyedFrame_def Let_def dstate_def split: option.splits prod.splits if_splits)
  obtain e2 w2 where s: "syncKeyed hooks w1 = (e2, w2)" by fastforce
  let ?res = "zeroResult\<lparr>crDecision := decision r\<rparr>" and ?db = "applyKeyed (afterApply hooks) r db1"
  have ex: "executeKeyed db q = ExecPersist r" using commitOne_attempt(1) [OF at] by (simp add: groupStart_def)
  have "submitCheck db (qCtx q) = None" using assms(1,2,4) by (simp add: submitCheck_def)
  then have run: "SubmitKeyed hooks q db w =
      (case groupFinish hooks (commitOne hooks q (groupStart db w [q])) of (results, x, v) \<Rightarrow> (hd results, x, v))"
    by (simp add: SubmitKeyed_def processCommitGroup_def)
  consider x where "e = Some x" | x where "e = None" "e2 = Some x" | "e = None" "e2 = None" by (cases e; cases e2) auto
  then show ?thesis
  proof cases
    case (1 x)
    then have "res = ?res\<lparr>crErr := Some x\<rparr>" "poisoned db'"
      using assms(5) run commitOne_attempt(3) [OF at, of hooks] a
      by (auto simp: groupFinish_def groupStart_def Let_def)
    then show ?thesis using ex by simp
  next
    case (2 x)
    then have "res = zeroResult\<lparr>crErr := Some x\<rparr>" "poisoned db'"
      using assms(5) run commitOne_attempt(3) [OF at, of hooks] a s
      by (auto simp: groupFinish_def groupStart_def Let_def)
    then show ?thesis using ex by simp
  next
    case 3
    then have r: "res = ?res" "dstate db' = dstate ?db" "poisoned db' = poisoned ?db"
      using assms(5) run commitOne_attempt(3) [OF at, of hooks] a s
      by (auto simp: groupFinish_def groupStart_def Let_def dstate_def)
    have "dstate db' = dstate (applyPlain r db)"
      using r(2) applyKeyed_hook(1) [OF assms(3), of r db1] dstate_applyPlain [OF d1(1), of r] by simp
    then show ?thesis using ex r applyKeyed_hook(3) [OF assms(3), of r db1] d1(2) assms(2) by simp
  qed
qed

theorem submit_outcome_witness:
  "\<exists>db' w'. SubmitKeyed noHooks exReq exDB exWorld = (exAnswer, db', w') \<and> dstate db' = dstate (applyPlain exRec exDB)"
proof -
  obtain db' w' where c: "processCommitGroup noHooks [exReq] exDB exWorld = ([exAnswer], db', w')"
    using ex_commit by blast
  have q: "qCtx exReq = CtxLive" by (simp add: exReq_def)
  have s: "SubmitKeyed noHooks exReq exDB exWorld = (exAnswer, db', w')"
    using c ex_db q by (simp add: SubmitKeyed_def submitCheck_def)
  have "ack exAnswer" by (simp add: exAnswer_def)
  with submit_outcome [OF ex_db(3,2) hook_ok_noHooks q s] show ?thesis using s ex_execute by simp
qed

text \<open>C15. A committed transaction installs exactly the state it saw: every key reads, after the record has
  been applied, as it read inside the transaction when the callback returned; a rejected command
  leaves every record as it was.\<close>

theorem commit_installs_view:
  assumes "executeKeyed db q = ExecPersist r" "qMutation q = Some m" "runKeyedMutation db newTx m = (out, tx)"
  shows "fmlookup (records (applyPlain r db)) k =
    (case out of Returned v \<Rightarrow> view db tx k | _ \<Rightarrow> fmlookup (records db) k)"
  using executeKeyed_record [OF assms] by (auto simp: lookup_apply_mutationsOf view_def)

theorem commit_installs_view_witness:
  "fmlookup (records (applyPlain exRec exDB)) (str ''k'') = Some (str ''1'')"
proof -
  let ?m = "runTx (TxPut (str ''k'') (Some (str ''1'')) (\<lambda>_. TxReturn (Some (str ''true''))))"
  have "runKeyedMutation exDB newTx ?m =
      (Returned (Some (str ''true'')), \<lparr>writes = fmupd (str ''k'') (Some (str ''1'')) fmempty, invalid = True\<rparr>)"
    by code_simp
  from commit_installs_view [OF ex_execute _ this, of "str ''k''"] show ?thesis
    by (simp add: exReq_def view_def)
qed

text \<open>C16. A transaction reads its own writes: after a successful \<open>Put\<close> the key reads as the encoded value,
  after a successful \<open>Delete\<close> it reads as absent, and no other key is affected.\<close>

theorem read_your_writes:
  assumes "tx_Put db tx k v = (None, tx1)" "tx_Delete tx k = (None, tx2)" "\<And>b. decodes b"
  shows "tx_Get db tx1 k (Some decodes) = Inr (json_Marshal v) \<and> tx_Get db tx2 k (Some decodes) = Inr None
    \<and> (\<forall>k'. k' \<noteq> k \<longrightarrow> tx_Get db tx1 k' d = tx_Get db tx k' d \<and> tx_Get db tx2 k' d = tx_Get db tx k' d)"
proof -
  obtain enc where w: "tx1 = tx\<lparr>writes := fmupd k enc (writes tx)\<rparr>" "tx2 = tx\<lparr>writes := fmupd k None (writes tx)\<rparr>"
    and t: "\<not> invalid tx" "k \<noteq> []" "length k \<le> keyedMaxKeyBytes"
    using assms(1,2) by (auto simp: tx_Put_def tx_Delete_def tx_valid_def split: option.splits if_splits)
  have i: "\<not> invalid tx1" "\<not> invalid tx2" using t(1) w by simp_all
  have "view db tx1 k = json_Marshal v" using tx_Put_view [OF assms(1)] by simp
  then have "tx_Get db tx1 k (Some decodes) = Inr (json_Marshal v)"
    using tx_Get_view [OF i(1) t(2,3), of db decodes] assms(3) by simp
  moreover have "view db tx2 k = None" using tx_Delete_view [OF assms(2), of db] by simp
  then have "tx_Get db tx2 k (Some decodes) = Inr None"
    using tx_Get_view [OF i(2) t(2,3), of db decodes] by simp
  moreover have "tx_Get db tx1 k' d = tx_Get db tx k' d" "tx_Get db tx2 k' d = tx_Get db tx k' d" if "k' \<noteq> k" for k'
    using that by (simp_all add: w tx_Get_def tx_valid_def)
  ultimately show ?thesis by blast
qed

theorem read_your_writes_witness:
  "tx_Get exDB (snd (tx_Put exDB newTx (str ''k'') (Some (str ''1'')))) (str ''k'') (Some (\<lambda>_. True)) = Inr (Some (str ''1''))"
proof -
  have p: "tx_Put exDB newTx (str ''k'') (Some (str ''1'')) = (None, \<lparr>writes = fmupd (str ''k'') (Some (str ''1'')) fmempty, invalid = False\<rparr>)"
    by code_simp
  have d: "tx_Delete newTx (str ''k'') = (None, \<lparr>writes = fmupd (str ''k'') None fmempty, invalid = False\<rparr>)"
    by code_simp
  have "json_Marshal (Some (str ''1'')) = Some (str ''1'')" by code_simp
  with read_your_writes [OF p d, of "\<lambda>_. True"] p show ?thesis by simp
qed



text \<open>C18. Durability failures are fail-stop: once a write or a \<open>Sync\<close> has failed, no command is run or
  answered from memory, nothing is read, no snapshot is taken, and closing leaves the files alone.\<close>

theorem poisoned_is_fail_stop:
  assumes "poisoned db" "\<not> closed db" "c \<noteq> CtxNil" "qCtx q = c"
  shows "SubmitKeyed hooks q db w = (zeroResult\<lparr>crErr := Some (poisonedError ''submit_keyed'')\<rparr>, db, w)
    \<and> GetKeyed db c key dst = Inl (poisonedError ''get_keyed'')
    \<and> SnapshotKeyed c db w = (Some (poisonedError ''snapshot_keyed''), db, w)
    \<and> files (snd (snd (CloseKeyed db w))) = files w"
  using assms by (auto simp: SubmitKeyed_def submitCheck_def GetKeyed_def enterKeyed_def SnapshotKeyed_def CloseKeyed_def
      Let_def walClose_def file_Close_def io_check_def)

theorem poisoned_is_fail_stop_witness:
  "SubmitKeyed noHooks exReq (exDB\<lparr>poisoned := True\<rparr>) exWorld
   = (zeroResult\<lparr>crErr := Some (poisonedError ''submit_keyed'')\<rparr>, exDB\<lparr>poisoned := True\<rparr>, exWorld)"
  using poisoned_is_fail_stop [of "exDB\<lparr>poisoned := True\<rparr>" CtxLive exReq noHooks exWorld] ex_db
  by (simp add: exReq_def)

section \<open>Encodings\<close>

text \<open>C19. The log record survives its JSON encoding: decoding the encoding of a record whose strings are
  valid UTF-8 gives the record back, whatever bytes its values hold.\<close>

theorem record_roundtrip:
  assumes "utf8Record r"
  shows "unmarshalRecord (marshalRecord r) = Some r"
  using assms by (simp add: unmarshal_marshalRecord sanRecord_utf8)

theorem record_roundtrip_witness: "unmarshalRecord (marshalRecord exRec) = Some exRec"
  using record_roundtrip [of exRec] ex_recoverable by (simp add: recoverable_def)



text \<open>C21. Recovery accepts nothing but whole frames: when the recovery loop succeeds on a log file, the
  file is a sequence of frames with correct checksums whose payloads replay to the result, followed by
  nothing or by an incomplete frame, and the reported end is where that one begins.\<close>

theorem recovery_accepts_only_frames:
  assumes "replayFrames (db, 0) 0 bs = Inr (st, off)"
  shows "\<exists>ps tail. bs = concat (map frame ps) @ tail \<and> fold_res replayPayload (db, 0) ps = Inr st
    \<and> off = length (concat (map frame ps)) \<and> (tail = [] \<or> read_frame 1 tail = FrameTorn)"
  using keyed_log.replay_prefix [OF assms] by simp

theorem recovery_accepts_only_frames_witness:
  "\<exists>ps tail. [7, 0, 0] = concat (map frame ps) @ tail \<and> fold_res replayPayload (exDB, 0) ps = Inr (exDB, 0)
    \<and> 0 = length (concat (map frame ps)) \<and> (tail = [] \<or> read_frame 1 tail = FrameTorn)"
proof -
  have "replayFrames (exDB, 0) 0 [7, 0, 0] = Inr ((exDB, 0), 0)"
    by (subst replayFrames.simps) (simp add: read_frame_def)
  from recovery_accepts_only_frames [OF this] show ?thesis .
qed



section \<open>Findings\<close>

definition exDelReq :: "KeyedDB keyedCommitRequest" where
  "exDelReq = \<lparr>qCtx = CtxLive, qCommand = str ''c1'',
     qMutation = Some (runTx (TxDelete (replicate 33 0x6B) (\<lambda>_. TxReturn (Some (str ''1'')))))\<rparr>"

definition exDelRec :: keyedWALRecord where
  "exDelRec = \<lparr>rSequence = 1, rCommandID = str ''c1'', rApplied = True, rCode = [], rResult = str ''1'',
     rMutations = [\<lparr>mKey = replicate 33 0x6B, mValue = [], mDelete = True\<rparr>]\<rparr>"

lemma ex_del: "executeKeyed exDB exDelReq = ExecPersist exDelRec"
  by code_simp

lemma ex_del_storable: "storable exDelRec"
proof -
  have "length (marshalRecord exDelRec) = 135" by code_simp
  then show ?thesis
    by (simp add: storable_def maxFrameBytes_def exDelRec_def utf8Record_def utf8_valid_ascii)
qed

lemma openStorage_refuses:
  assumes "calm w" "fmlookup (files w) FORMAT = Some (format db0)" "fmlookup (files w) SNAPSHOT_file = None"
    and "replayFrames (db0\<lparr>walOpen := True\<rparr>, 0) 0 (contents WAL_file w) = Inl e"
  shows "\<exists>w'. openStorage db0 w = (Inl e, w')"
proof -
  obtain w1 where w1: "ensureKeyedFormat (format db0) w = (None, w1)" "quiet w w1"
    using ensureKeyedFormat_present [OF assms(1,2)] by blast
  then have c1: "calm w1" "snapshot_loads (files w1) db0 db0" using assms(3) by (auto simp: quiet_def snapshot_loads_def)
  obtain w2 where w2: "loadKeyedSnapshot db0 w1 = (Inr db0, w2)" "quiet w1 w2"
    using loadKeyedSnapshot_ok [OF c1] by blast
  obtain w3 where w3: "os_OpenRdwr WAL_file w2 = (None, w3)" "calm w3" "contents WAL_file w3 = contents WAL_file w2"
    using os_OpenRdwr_ok [of w2 WAL_file] w2(2) by (auto simp: quiet_def)
  have "contents WAL_file w3 = contents WAL_file w"
    using w3(3) w2(2) w1(2) by (simp add: contents_def quiet_def)
  then have "replayKeyedWAL (db0\<lparr>walOpen := True\<rparr>) w3 = (Inl e, ticked (ticked w3))"
    using w3(2) assms(4) by (simp add: replayKeyedWAL_def file_Seek_def io_check_def Let_def)
  then show ?thesis using w1 w2 w3 by (simp add: openStorage_def)
qed

text \<open>C33. A finding: the bound on the size of a transaction counts the keys of deletions when a log is
  recovered, but not when a command is committed. A single deletion is acknowledged, and the directory
  cannot be opened any more with the options it was written with.\<close>

theorem uncounted_deletion_blocks_reopening:
  "\<exists>res db' w'. SubmitKeyed noHooks exDelReq exDB exWorld = (res, db', w') \<and> ack res
     \<and> (\<exists>wr'. OpenKeyed CtxLive (str ''db'') exOpts (exWorld\<lparr>files := files w'\<rparr>)
          = (Inl (capacity ''WAL transaction exceeds configured bound''), wr'))"
proof -
  have at: "attempt exDB exDelReq = Some exDelRec"
    using ex_del ex_db(2) by (simp add: attempt_def) (simp add: exDelReq_def)
  have len: "length (marshalRecord exDelRec) \<le> maxFrameBytes" using ex_del_storable by (simp add: storable_def)
  obtain db' w' where g: "processCommitGroup noHooks [exDelReq] exDB exWorld = ([zeroResult\<lparr>crDecision := decision exDelRec\<rparr>], db', w')"
    "files w' = fmupd WAL_file (frame (marshalRecord exDelRec)) exDir"
    using ex_group [OF at len] by blast
  have s: "SubmitKeyed noHooks exDelReq exDB exWorld = (zeroResult\<lparr>crDecision := decision exDelRec\<rparr>, db', w')"
    using g(1) ex_db by (simp add: SubmitKeyed_def submitCheck_def exDelReq_def)
  let ?wr = "exWorld\<lparr>files := files w'\<rparr>"
  have v: "replayRecord (exDB, 0) exDelRec = Inl (capacity ''WAL transaction exceeds configured bound'')"
    by code_simp
  have "replayFrames (exDB, 0) 0 (contents WAL_file ?wr) = Inl (capacity ''WAL transaction exceeds configured bound'')"
    using keyed_log.replay_frames [of "[marshalRecord exDelRec]" "(exDB, 0)" 0 "[]"] admissible_record [OF len] v
      replayPayload_marshal [of exDelRec "(exDB, 0)"] ex_del_storable g(2)
    by (simp add: contents_def storable_def)
  then have "\<exists>wr'. openStorage exFresh ?wr = (Inl (capacity ''WAL transaction exceeds configured bound''), wr')"
    using ex_world g(2) by (intro openStorage_refuses) (simp_all add: exDB_def)
  moreover have "normalizeKeyedOptions exOpts = Inr exOpts" "TrimSpace (str ''db'') \<noteq> []"
    by (simp add: normalizeKeyedOptions_def exOpts_def, code_simp)
  ultimately show ?thesis using s by (simp add: OpenKeyed_def openKeyed_def exFresh_def)
qed

definition exRaw :: "byte \<Rightarrow> KeyedDB keyedCommitRequest" where
  "exRaw b = exReq\<lparr>qCommand := [b]\<rparr>"

text \<open>C34. A finding: command identities that are not valid UTF-8 are altered by the JSON encoding of the
  log. Two different identities are both committed, and recovery then takes the second for a repetition
  of the first and reports the log as corrupt.\<close>

theorem raw_identities_corrupt_the_log:
  "\<exists>r1 r2. executeKeyed exDB (exRaw 0x80) = ExecPersist r1
     \<and> executeKeyed (applyPlain r1 exDB) (exRaw 0x81) = ExecPersist r2
     \<and> replayFrames (exDB, 0) 0 (walImage [r1, r2]) = Inl (corrupt ''WAL repeats a retained command ID'')"
proof -
  let ?r1 = "exRec\<lparr>rCommandID := [0x80]\<rparr>" and ?r2 = "exRec\<lparr>rCommandID := [0x81], rSequence := 2\<rparr>"
  have e: "executeKeyed exDB (exRaw 0x80) = ExecPersist ?r1"
    "executeKeyed (applyPlain ?r1 exDB) (exRaw 0x81) = ExecPersist ?r2" by code_simp+
  have "length (marshalRecord ?r1) = 112" "length (marshalRecord ?r2) = 112" by code_simp+
  then have a: "list_all keyed_log.admissible [marshalRecord ?r1, marshalRecord ?r2]"
    using admissible_record by (simp add: maxFrameBytes_def)
  have f: "fold_res replayRecord (exDB, 0) [sanRecord ?r1, sanRecord ?r2] = Inl (corrupt ''WAL repeats a retained command ID'')"
    by code_simp
  have "fold_res replayPayload st (map marshalRecord rs) = fold_res replayRecord st (map sanRecord rs)"
    for st :: "KeyedDB \<times> u64" and rs
    by (induction rs arbitrary: st) (simp_all add: replayPayload_def unmarshal_marshalRecord split: sum.split)
  from this [of "(exDB, 0)" "[?r1, ?r2]"]
  have "fold_res replayPayload (exDB, 0) [marshalRecord ?r1, marshalRecord ?r2] = Inl (corrupt ''WAL repeats a retained command ID'')"
    using f by (simp only: list.map)
  then have "replayFrames (exDB, 0) 0 (walImage [?r1, ?r2]) = Inl (corrupt ''WAL repeats a retained command ID'')"
    using keyed_log.replay_frames [OF a, of "(exDB, 0)" 0 "[]"] by (simp add: walImage_def)
  with e show ?thesis by blast
qed

end
