(* ===== verification/Catalog_State.thy ===== *)
theory Catalog_State
  imports Keyed_Engine Keyed_Codec_Laws
begin

text \<open>
  The catalog of a database, from \<^verbatim>\<open>catalog.go\<close>, and its file, \<^verbatim>\<open>catalog_storage.go\<close>: the
  topology of buckets and datasets, the names and keys it admits, the mapping of a dataset record to a
  key of the keyed database, the JSON encoding of the catalog, its validation, and the replacement of
  the catalog file.

  A Go map that may be nil is an option of a finite map; \<open>mapOf\<close> reads it as Go does.
\<close>

section \<open>Topology\<close>

definition mapOf :: "('k, 'v) fmap option \<Rightarrow> ('k, 'v) fmap" where
  "mapOf m = (case m of None \<Rightarrow> fmempty | Some m \<Rightarrow> m)"

lemma mapOf_simps [simp]: "mapOf None = fmempty" "mapOf (Some m) = m"
  by (simp_all add: mapOf_def)

definition KeyedJSON :: bytes where
  "KeyedJSON = str ''keyed_json''"

definition GoCatalog :: bytes where
  "GoCatalog = str ''go''"

record DatasetBounds =
  bMaxRecords :: int
  bMaxValueBytes :: int

record DatasetOptions =
  oKind :: bytes
  oTypeIdentity :: bytes
  oMaxRecords :: int
  oMaxValueBytes :: int

definition DefaultDatasetOptions :: DatasetOptions where
  "DefaultDatasetOptions = \<lparr>oKind = [], oTypeIdentity = [], oMaxRecords = 0, oMaxValueBytes = 0\<rparr>"

record DatasetInfo =
  iID :: u64
  iBucketName :: bytes
  iName :: bytes
  iKind :: bytes
  iOrigin :: bytes
  iTypeIdentity :: bytes
  iBounds :: DatasetBounds

definition zeroInfo :: DatasetInfo where
  "zeroInfo = \<lparr>iID = 0, iBucketName = [], iName = [], iKind = [], iOrigin = [], iTypeIdentity = [],
               iBounds = \<lparr>bMaxRecords = 0, bMaxValueBytes = 0\<rparr>\<rparr>"

record catalogBucket =
  Datasets :: "(bytes, DatasetInfo) fmap option"

record catalogState =
  DatabaseID :: bytes
  NextDatasetID :: u64
  Buckets :: "(bytes, catalogBucket) fmap option"

abbreviation bucketDatasets :: "catalogBucket \<Rightarrow> (bytes, DatasetInfo) fmap" where
  "bucketDatasets b \<equiv> mapOf (Datasets b)"

definition cloneCatalogState :: "catalogState \<Rightarrow> catalogState" where
  "cloneCatalogState source =
     \<lparr>DatabaseID = DatabaseID source, NextDatasetID = NextDatasetID source,
      Buckets = Some (fmmap (\<lambda>b. \<lparr>Datasets = Some (bucketDatasets b)\<rparr>) (mapOf (Buckets source)))\<rparr>"

text \<open>All entries of the catalog; the loops over it read them in no particular order.\<close>

definition allDatasets :: "catalogState \<Rightarrow> DatasetInfo list" where
  "allDatasets st =
     concat (map (\<lambda>(_, b). map snd (sorted_list_of_fmap (bucketDatasets b))) (sorted_list_of_fmap (mapOf (Buckets st))))"

section \<open>Names and keys\<close>

definition validCatalogName :: "string \<Rightarrow> bytes \<Rightarrow> go_error option" where
  "validCatalogName kind name =
     (if TrimSpace name = [] \<or> name \<noteq> TrimSpace name
      then Some (Error ErrorInvalidInput kind ''name is required and cannot have surrounding whitespace'')
      else if list_ex (\<lambda>b. b = 0x2F \<or> b = 0x5C \<or> b = 0) name
      then Some (Error ErrorInvalidInput kind ''name cannot contain path separators or NUL'')
      else if keyedMaxIdentityBytes < length name
      then Some (Error ErrorCapacity kind ''name exceeds 4 KiB'')
      else None)"

definition validRecordKey :: "bytes \<Rightarrow> go_error option" where
  "validRecordKey key =
     (if key = [] then Some (Error ErrorInvalidInput ''record_key'' ''record key is required'')
      else if keyedMaxKeyBytes < length key
      then Some (Error ErrorCapacity ''record_key'' ''record key exceeds 4 KiB'')
      else None)"

definition backendRecordKey :: "u64 \<Rightarrow> bytes \<Rightarrow> bytes" where
  "backendRecordKey datasetID recordKey = 0 # be64 datasetID @ recordKey"

definition backendDatasetID :: "bytes \<Rightarrow> u64 option" where
  "backendDatasetID key =
     (if length key < 9 \<or> hd key \<noteq> 0 then None else Some (getbe64 (take 8 (tl key))))"

definition normalizeDatasetOptions :: "DatasetOptions \<Rightarrow> KeyedOptions \<Rightarrow> DatasetOptions res" where
  "normalizeDatasetOptions opts database =
     (let o1 = (if oKind opts = [] then opts\<lparr>oKind := KeyedJSON\<rparr> else opts) in
      if oKind o1 \<noteq> KeyedJSON then Inl (Error ErrorIncompatible ''dataset'' ''unsupported dataset kind'')
      else if oMaxRecords o1 < 0 \<or> oMaxValueBytes o1 < 0
      then Inl (Error ErrorInvalidInput ''dataset'' ''dataset bounds cannot be negative'')
      else
        let o2 = (if oMaxRecords o1 = 0 then o1\<lparr>oMaxRecords := MaxRecords database\<rparr> else o1);
            o3 = (if oMaxValueBytes o2 = 0 then o2\<lparr>oMaxValueBytes := MaxValueBytes database\<rparr> else o2)
        in if MaxValueBytes database < oMaxValueBytes o3
           then Inl (Error ErrorInvalidInput ''dataset'' ''dataset MaxValueBytes exceeds database MaxValueBytes'')
           else if keyedMaxIdentityBytes < length (oTypeIdentity o3)
           then Inl (Error ErrorCapacity ''dataset'' ''type identity exceeds 4 KiB'')
           else Inr o3)"

section \<open>JSON\<close>

definition dec_int :: "int \<Rightarrow> bytes" where
  "dec_int z = (if z < 0 then 0x2D # dec_nat (nat (- z)) else dec_nat (nat z))"

definition marshalInfo :: "DatasetInfo \<Rightarrow> bytes" where
  "marshalInfo i = jobj
     ([(str ''id'', dec_nat (unat (iID i))), (str ''bucket_name'', jstr (iBucketName i)),
       (str ''name'', jstr (iName i)), (str ''kind'', jstr (iKind i)), (str ''origin'', jstr (iOrigin i))]
      @ (if iTypeIdentity i = [] then [] else [(str ''type_identity'', jstr (iTypeIdentity i))])
      @ [(str ''bounds'', jobj [(str ''max_records'', dec_int (bMaxRecords (iBounds i))),
                                (str ''max_value_bytes'', dec_int (bMaxValueBytes (iBounds i)))])])"

text \<open>A map becomes an object whose members are sorted by key; a nil map becomes \<open>null\<close>.\<close>

definition marshalMap :: "('v \<Rightarrow> bytes) \<Rightarrow> (bytes, 'v) fmap option \<Rightarrow> bytes" where
  "marshalMap f m =
     (case m of None \<Rightarrow> jnull | Some m \<Rightarrow> jobj (map (\<lambda>(k, v). (k, f v)) (sorted_list_of_fmap m)))"

definition marshalBucket :: "catalogBucket \<Rightarrow> bytes" where
  "marshalBucket b = jobj [(str ''datasets'', marshalMap marshalInfo (Datasets b))]"

definition marshalCatalog :: "catalogState \<Rightarrow> bytes" where
  "marshalCatalog st = jobj
     [(str ''database_id'', jstr (DatabaseID st)), (str ''next_dataset_id'', dec_nat (unat (NextDatasetID st))),
      (str ''buckets'', marshalMap marshalBucket (Buckets st))]"

definition boundsField :: "bytes \<Rightarrow> bytes \<Rightarrow> DatasetBounds \<Rightarrow> DatasetBounds option" where
  "boundsField k v b =
     (if field_is ''max_records'' k then map_option (\<lambda>x. b\<lparr>bMaxRecords := x\<rparr>) (unmarshalInt v (bMaxRecords b))
      else if field_is ''max_value_bytes'' k then map_option (\<lambda>x. b\<lparr>bMaxValueBytes := x\<rparr>) (unmarshalInt v (bMaxValueBytes b))
      else Some b)"

text \<open>A nested struct is decoded into the struct the field already holds.\<close>

definition infoField :: "bytes \<Rightarrow> bytes \<Rightarrow> DatasetInfo \<Rightarrow> DatasetInfo option" where
  "infoField k v i =
     (if field_is ''id'' k then map_option (\<lambda>x. i\<lparr>iID := x\<rparr>) (unmarshalU64 v (iID i))
      else if field_is ''bucket_name'' k then map_option (\<lambda>x. i\<lparr>iBucketName := x\<rparr>) (unmarshalStr v (iBucketName i))
      else if field_is ''name'' k then map_option (\<lambda>x. i\<lparr>iName := x\<rparr>) (unmarshalStr v (iName i))
      else if field_is ''kind'' k then map_option (\<lambda>x. i\<lparr>iKind := x\<rparr>) (unmarshalStr v (iKind i))
      else if field_is ''origin'' k then map_option (\<lambda>x. i\<lparr>iOrigin := x\<rparr>) (unmarshalStr v (iOrigin i))
      else if field_is ''type_identity'' k then map_option (\<lambda>x. i\<lparr>iTypeIdentity := x\<rparr>) (unmarshalStr v (iTypeIdentity i))
      else if field_is ''bounds'' k then
        map_option (\<lambda>x. i\<lparr>iBounds := x\<rparr>) (unmarshalStruct boundsField (iBounds i) v)
      else Some i)"

text \<open>A map is decoded into the map the field already holds, every member into a zero value.\<close>

definition mapMember :: "(bytes \<Rightarrow> 'v option) \<Rightarrow> bytes \<Rightarrow> bytes \<Rightarrow> (bytes, 'v) fmap \<Rightarrow> (bytes, 'v) fmap option" where
  "mapMember f k v m = map_option (\<lambda>x. fmupd k x m) (f v)"

definition unmarshalMap :: "(bytes \<Rightarrow> 'v option) \<Rightarrow> bytes \<Rightarrow> (bytes, 'v) fmap option \<Rightarrow> (bytes, 'v) fmap option option" where
  "unmarshalMap f raw old =
     (if raw = jnull then Some None
      else case json_members raw of
          None \<Rightarrow> None
        | Some ms \<Rightarrow> map_option Some (setMembers (mapMember f) ms (mapOf old)))"

definition bucketField :: "bytes \<Rightarrow> bytes \<Rightarrow> catalogBucket \<Rightarrow> catalogBucket option" where
  "bucketField k v b =
     (if field_is ''datasets'' k
      then map_option (\<lambda>x. b\<lparr>Datasets := x\<rparr>) (unmarshalMap (unmarshalStruct infoField zeroInfo) v (Datasets b))
      else Some b)"

definition catalogField :: "bytes \<Rightarrow> bytes \<Rightarrow> catalogState \<Rightarrow> catalogState option" where
  "catalogField k v st =
     (if field_is ''database_id'' k then map_option (\<lambda>x. st\<lparr>DatabaseID := x\<rparr>) (unmarshalStr v (DatabaseID st))
      else if field_is ''next_dataset_id'' k
        then map_option (\<lambda>x. st\<lparr>NextDatasetID := x\<rparr>) (unmarshalU64 v (NextDatasetID st))
      else if field_is ''buckets'' k
        then map_option (\<lambda>x. st\<lparr>Buckets := x\<rparr>)
               (unmarshalMap (unmarshalStruct bucketField \<lparr>Datasets = None\<rparr>) v (Buckets st))
      else Some st)"

definition unmarshalCatalog :: "bytes \<Rightarrow> catalogState option" where
  "unmarshalCatalog payload =
     (if json_valid payload
      then unmarshalStruct catalogField \<lparr>DatabaseID = [], NextDatasetID = 0, Buckets = None\<rparr> (jtrim payload)
      else None)"

section \<open>The catalog file\<close>

definition catalogMagic :: bytes where
  "catalogMagic = str ''OCTCAT01''"

text \<open>\<open>catalogEnvelope\<close> has the fields and the member names of \<open>keyedSnapshotEnvelope\<close>.\<close>

type_synonym catalogEnvelope = keyedSnapshotEnvelope

definition catalogImage :: "catalogState \<Rightarrow> bytes" where
  "catalogImage st =
     (let payload = marshalCatalog st in
      marshalEnvelope \<lparr>eMagic = catalogMagic, eVersion = 1, ePayload = payload,
                       eSHA256 = hex_encode (sha256 payload)\<rparr>)"

definition persistCatalog :: "catalogState \<Rightarrow> world \<Rightarrow> go_error option \<times> world" where
  "persistCatalog st w =
     (let envelope = catalogImage st in
      case os_OpenTrunc CATALOG_tmp w of
        (Some e, w1) \<Rightarrow> (Some (Error ErrorStorage ''catalog_write'' ''open''), w1)
      | (None, w1) \<Rightarrow>
          (case and_then (and_then (close_after (and_then
                  (write_all CATALOG_tmp 0 envelope w1)
                  (file_Sync CATALOG_tmp)))
                  (os_Rename CATALOG_tmp CATALOG_file))
                  syncDirectory of
             (None, w2) \<Rightarrow> (None, w2)
           | (Some e, w2) \<Rightarrow>
               (Some (Error ErrorStorage ''catalog_write'' ''write''), snd (os_Remove CATALOG_tmp w2))))"

abbreviation catalogCorrupt :: "string \<Rightarrow> go_error" where
  "catalogCorrupt msg \<equiv> Error ErrorCorruption ''open_catalog'' msg"

definition invalidDataset :: "catalogState \<Rightarrow> bytes \<Rightarrow> bytes \<Rightarrow> DatasetInfo \<Rightarrow> bool" where
  "invalidDataset st bucketName datasetName dataset \<longleftrightarrow>
     validCatalogName ''dataset'' datasetName \<noteq> None \<or> iID dataset = 0 \<or> NextDatasetID st \<le> iID dataset
     \<or> iBucketName dataset \<noteq> bucketName \<or> iName dataset \<noteq> datasetName \<or> iKind dataset \<noteq> KeyedJSON
     \<or> iOrigin dataset \<noteq> GoCatalog \<or> bMaxRecords (iBounds dataset) \<le> 0 \<or> bMaxValueBytes (iBounds dataset) \<le> 0"

fun checkDatasets ::
  "catalogState \<Rightarrow> bytes \<Rightarrow> (bytes \<times> DatasetInfo) list \<Rightarrow> (u64, DatasetInfo) fmap \<Rightarrow> (u64, DatasetInfo) fmap res" where
  "checkDatasets st bucketName [] ids = Inr ids"
| "checkDatasets st bucketName ((datasetName, dataset) # ds) ids =
     (if invalidDataset st bucketName datasetName dataset then Inl (catalogCorrupt ''catalog dataset is invalid'')
      else if fmlookup ids (iID dataset) \<noteq> None
      then Inl (catalogCorrupt ''catalog contains duplicate dataset identity'')
      else checkDatasets st bucketName ds (fmupd (iID dataset) dataset ids))"

fun checkBuckets ::
  "catalogState \<Rightarrow> (bytes \<times> catalogBucket) list \<Rightarrow> (u64, DatasetInfo) fmap \<Rightarrow> (u64, DatasetInfo) fmap res" where
  "checkBuckets st [] ids = Inr ids"
| "checkBuckets st ((bucketName, bucket) # bs) ids =
     (if validCatalogName ''bucket'' bucketName \<noteq> None \<or> Datasets bucket = None
      then Inl (catalogCorrupt ''catalog bucket is invalid'')
      else case checkDatasets st bucketName (sorted_list_of_fmap (bucketDatasets bucket)) ids of
          Inl e \<Rightarrow> Inl e
        | Inr ids' \<Rightarrow> checkBuckets st bs ids')"

text \<open>The loop over the records; \<open>counts\<close> is a map of \<open>int\<close> with zero for an absent key.\<close>

definition countOf :: "(u64, int) fmap \<Rightarrow> u64 \<Rightarrow> int" where
  "countOf counts i = (case fmlookup counts i of None \<Rightarrow> 0 | Some n \<Rightarrow> n)"

fun checkRecords ::
  "(u64, DatasetInfo) fmap \<Rightarrow> (bytes \<times> bytes) list \<Rightarrow> (u64, int) fmap \<Rightarrow> go_error option" where
  "checkRecords ids [] counts = None"
| "checkRecords ids ((key, val) # kvs) counts =
     (case backendDatasetID key of
        None \<Rightarrow> Some (catalogCorrupt ''record has no dataset identity'')
      | Some i \<Rightarrow>
          (case fmlookup ids i of
             None \<Rightarrow> Some (catalogCorrupt ''record references an unknown dataset'')
           | Some dataset \<Rightarrow>
               if bMaxValueBytes (iBounds dataset) < int (length val)
               then Some (Error ErrorCapacity ''open_catalog'' ''record exceeds its dataset value bound'')
               else if bMaxRecords (iBounds dataset) < countOf counts i + 1
               then Some (Error ErrorCapacity ''open_catalog'' ''dataset exceeds its record bound'')
               else checkRecords ids kvs (fmupd i (countOf counts i + 1) counts)))"

definition validateCatalogState :: "catalogState \<Rightarrow> 'a KeyedDB_scheme \<Rightarrow> go_error option" where
  "validateCatalogState st keyed =
     (if DatabaseID st = [] \<or> NextDatasetID st = 0 \<or> Buckets st = None
      then Some (catalogCorrupt ''catalog identity or topology is invalid'')
      else case checkBuckets st (sorted_list_of_fmap (mapOf (Buckets st))) fmempty of
          Inl e \<Rightarrow> Some e
        | Inr ids \<Rightarrow> checkRecords ids (sorted_list_of_fmap (records keyed)) fmempty)"

text \<open>\<open>rand.Read\<close> fills a buffer or fails: its 16 bytes are an argument.\<close>

definition loadOrCreateCatalog ::
  "bytes option \<Rightarrow> 'a KeyedDB_scheme \<Rightarrow> world \<Rightarrow> catalogState res \<times> world" where
  "loadOrCreateCatalog random keyed w =
     (case os_ReadFile CATALOG_file w of
        (Inl err, w1) \<Rightarrow>
          if err = ErrNotExist then
            (if sequence keyed \<noteq> 0 \<or> fmsize (records keyed) \<noteq> 0
             then (Inl (Error ErrorIncompatible ''open_catalog'' ''keyed data exists without catalog identity''), w1)
             else
               let w2 = snd (os_Remove CATALOG_tmp w1) in
               case random of
                 None \<Rightarrow> (Inl (Error ErrorStorage ''open_catalog'' ''random''), w2)
               | Some idBytes \<Rightarrow>
                   let st = \<lparr>DatabaseID = hex_encode idBytes, NextDatasetID = 1, Buckets = Some fmempty\<rparr> in
                   (case persistCatalog st w2 of
                      (Some e, w3) \<Rightarrow> (Inl e, w3)
                    | (None, w3) \<Rightarrow> (Inr st, w3)))
          else (Inl (Error ErrorStorage ''open_catalog'' ''read''), w1)
      | (Inr payload, w1) \<Rightarrow>
          (case unmarshalEnvelope payload of
             None \<Rightarrow> (Inl (catalogCorrupt ''decode catalog''), w1)
           | Some envelope \<Rightarrow>
               if eMagic envelope \<noteq> catalogMagic \<or> eVersion envelope \<noteq> 1
               then (Inl (Error ErrorIncompatible ''open_catalog'' ''unsupported catalog format''), w1)
               else if eSHA256 envelope \<noteq> hex_encode (sha256 (ePayload envelope))
               then (Inl (catalogCorrupt ''catalog checksum mismatch''), w1)
               else case unmarshalCatalog (ePayload envelope) of
                   None \<Rightarrow> (Inl (catalogCorrupt ''decode catalog payload''), w1)
                 | Some st \<Rightarrow>
                     (case validateCatalogState st keyed of
                        Some e \<Rightarrow> (Inl e, w1)
                      | None \<Rightarrow> (Inr st, snd (os_Remove CATALOG_tmp w1)))))"

end
