(* ===== verification/Catalog.thy ===== *)
theory Catalog
  imports Catalog_State "HOL-Library.Product_Lexorder"
begin

text \<open>
  The catalog database, \<^verbatim>\<open>catalog.go\<close>: the \<open>Database\<close> struct wraps a keyed database, so its state is
  an extension of \<open>KeyedDB\<close>; buckets, datasets and their handles; catalog transactions; and the ordered
  key cursor of each dataset, maintained by the \<open>afterApply\<close> callback of the keyed database.

  A handle refers to its database by identity: \<open>self\<close> names the \<open>Database\<close> object, a \<open>Dataset\<close> or
  \<open>Bucket\<close> pointer is an option, and a method is applied to the database object its handle points to.
\<close>

section \<open>State and handles\<close>

record Database = KeyedDB +
  catalog :: catalogState
  queryKeys :: "(u64, bytes list) fmap"
  self :: nat

record Bucket =
  bkDB :: nat
  bkName :: bytes

record Dataset =
  dsDB :: nat
  dsInfo :: DatasetInfo

definition keysOf :: "(u64, bytes list) fmap \<Rightarrow> u64 \<Rightarrow> bytes list" where
  "keysOf q i = (case fmlookup q i of None \<Rightarrow> [] | Some ks \<Rightarrow> ks)"

section \<open>The ordered key cursor\<close>

text \<open>\<open>sort.Search\<close>: the smallest index in \<open>[i, j)\<close> at which \<open>f\<close> holds, by bisection.\<close>

function sort_Search :: "nat \<Rightarrow> nat \<Rightarrow> (nat \<Rightarrow> bool) \<Rightarrow> nat" where
  "sort_Search i j f =
     (if i < j then
        (let h = (i + j) div 2 in if \<not> f h then sort_Search (h + 1) j f else sort_Search i h f)
      else i)"
  by pat_completeness auto
termination
  by (relation "measure (\<lambda>(i, j, f). j - i)") auto

declare sort_Search.simps [simp del]

definition sort_SearchStrings :: "bytes list \<Rightarrow> bytes \<Rightarrow> nat" where
  "sort_SearchStrings keys key = sort_Search 0 (length keys) (\<lambda>i. key \<le> keys ! i)"

definition applyQueryKeyMutation :: "keyedMutation \<Rightarrow> (u64, bytes list) fmap \<Rightarrow> (u64, bytes list) fmap" where
  "applyQueryKeyMutation mutation q =
     (case backendDatasetID (mKey mutation) of
        None \<Rightarrow> q
      | Some i \<Rightarrow>
          let key = drop 9 (mKey mutation); keys = keysOf q i;
              position = sort_SearchStrings keys key;
              exists = (position < length keys \<and> keys ! position = key)
          in if mDelete mutation
             then (if exists then fmupd i (take position keys @ drop (position + 1) keys) q else q)
             else if \<not> exists then fmupd i (take position keys @ [key] @ drop position keys) q
             else q)"

definition applyQueryKeyMutations :: "keyedWALRecord \<Rightarrow> 'a Database_scheme \<Rightarrow> 'a Database_scheme" where
  "applyQueryKeyMutations r db =
     (if \<not> rApplied r then db
      else db\<lparr>queryKeys := fold applyQueryKeyMutation (rMutations r) (queryKeys db)\<rparr>)"

definition addQueryKey :: "bytes \<Rightarrow> (u64, bytes list) fmap \<Rightarrow> (u64, bytes list) fmap" where
  "addQueryKey backendKey q =
     (case backendDatasetID backendKey of
        None \<Rightarrow> q
      | Some i \<Rightarrow> fmupd i (keysOf q i @ [drop 9 backendKey]) q)"

definition initializeQueryKeys :: "(bytes, bytes) fmap \<Rightarrow> (u64, bytes list) fmap" where
  "initializeQueryKeys recs =
     fmmap sort (fold addQueryKey (map fst (sorted_list_of_fmap recs)) fmempty)"

definition catalogHooks :: "'a Database_scheme keyedHooks" where
  "catalogHooks = \<lparr>afterApply = applyQueryKeyMutations, beforeAppend = (\<lambda>_. None), beforeSync = None\<rparr>"

section \<open>Opening\<close>

definition OpenCatalog ::
  "nat \<Rightarrow> bytes option \<Rightarrow> ctx \<Rightarrow> bytes \<Rightarrow> KeyedOptions \<Rightarrow> world \<Rightarrow> Database res \<times> world" where
  "OpenCatalog object random c path opts w =
     (case openKeyed c path opts catalogKeyedFormatContents w of
        (Inl e, w1) \<Rightarrow> (Inl e, w1)
      | (Inr keyed, w1) \<Rightarrow>
          (case loadOrCreateCatalog random keyed w1 of
             (Inl e, w2) \<Rightarrow> (case walClose keyed w2 of (_, _, w3) \<Rightarrow> (Inl e, w3))
           | (Inr st, w2) \<Rightarrow>
               (Inr (KeyedDB.extend keyed
                  (Database.fields st (initializeQueryKeys (records keyed)) object)), w2)))"

section \<open>Structural operations\<close>

definition enter :: "'a Database_scheme \<Rightarrow> ctx \<Rightarrow> string \<Rightarrow> go_error option" where
  "enter db c op =
     (case enterKeyed db c op of
        Some e \<Rightarrow> Some e
      | None \<Rightarrow>
          if (op = ''bucket'' \<or> op = ''dataset'') \<and> poisoned db
          then Some (Error ErrorPoisoned op ''an earlier catalog durability failure made structural writes unsafe; close and reopen the database'')
          else None)"

definition Database_DatabaseID :: "'a Database_scheme option \<Rightarrow> bytes" where
  "Database_DatabaseID db = (case db of None \<Rightarrow> [] | Some d \<Rightarrow> DatabaseID (catalog d))"

definition Database_Bucket ::
  "ctx \<Rightarrow> bytes \<Rightarrow> 'a Database_scheme \<Rightarrow> world \<Rightarrow> Bucket res \<times> 'a Database_scheme \<times> world" where
  "Database_Bucket c name db w =
     (case validCatalogName ''bucket'' name of
        Some e \<Rightarrow> (Inl e, db, w)
      | None \<Rightarrow>
          (case enter db c ''bucket'' of
             Some e \<Rightarrow> (Inl e, db, w)
           | None \<Rightarrow>
               let bucket = \<lparr>bkDB = self db, bkName = name\<rparr> in
               if fmlookup (mapOf (Buckets (catalog db))) name = None then
                 let clone = cloneCatalogState (catalog db);
                     nxt = clone\<lparr>Buckets := Some (fmupd name \<lparr>Datasets = Some fmempty\<rparr> (mapOf (Buckets clone)))\<rparr>
                 in (case persistCatalog nxt w of
                       (Some e, w1) \<Rightarrow> (Inl e, db\<lparr>poisoned := True\<rparr>, w1)
                     | (None, w1) \<Rightarrow> (Inr bucket, db\<lparr>catalog := nxt\<rparr>, w1))
               else (Inr bucket, db, w)))"

definition ListBuckets :: "ctx \<Rightarrow> 'a Database_scheme \<Rightarrow> bytes list res" where
  "ListBuckets c db =
     (case enter db c ''list_buckets'' of
        Some e \<Rightarrow> Inl e
      | None \<Rightarrow> Inr (map fst (sorted_list_of_fmap (mapOf (Buckets (catalog db))))))"

record Catalog =
  vDatabase :: bytes
  vBuckets :: "bytes list"
  vDatasets :: "DatasetInfo list"

definition Database_Catalog :: "ctx \<Rightarrow> 'a Database_scheme \<Rightarrow> Catalog res" where
  "Database_Catalog c db =
     (case enter db c ''catalog'' of
        Some e \<Rightarrow> Inl e
      | None \<Rightarrow>
          Inr \<lparr>vDatabase = DatabaseID (catalog db),
               vBuckets = map fst (sorted_list_of_fmap (mapOf (Buckets (catalog db)))),
               vDatasets = sort_key (\<lambda>d. (iBucketName d, iName d)) (allDatasets (catalog db))\<rparr>)"

text \<open>Storing into the nil map of a bucket that is not in the catalog panics.\<close>

definition Bucket_Dataset ::
  "Bucket option \<Rightarrow> ctx \<Rightarrow> bytes \<Rightarrow> DatasetOptions \<Rightarrow> 'a Database_scheme \<Rightarrow> world
    \<Rightarrow> Dataset res \<times> 'a Database_scheme \<times> world" where
  "Bucket_Dataset bucket c name opts db w =
     (case bucket of
        None \<Rightarrow> (Inl (closedError ''dataset''), db, w)
      | Some b \<Rightarrow>
          (case validCatalogName ''dataset'' name of
             Some e \<Rightarrow> (Inl e, db, w)
           | None \<Rightarrow>
               (case normalizeDatasetOptions opts (options db) of
                  Inl e \<Rightarrow> (Inl e, db, w)
                | Inr normalized \<Rightarrow>
                    (case enter db c ''dataset'' of
                       Some e \<Rightarrow> (Inl e, db, w)
                     | None \<Rightarrow>
                         let entry = (case fmlookup (mapOf (Buckets (catalog db))) (bkName b) of
                                        None \<Rightarrow> fmempty | Some bk \<Rightarrow> bucketDatasets bk) in
                         (case fmlookup entry name of
                            Some existing \<Rightarrow>
                              if iKind existing \<noteq> oKind normalized \<or> iTypeIdentity existing \<noteq> oTypeIdentity normalized
                                 \<or> bMaxRecords (iBounds existing) \<noteq> oMaxRecords normalized
                                 \<or> bMaxValueBytes (iBounds existing) \<noteq> oMaxValueBytes normalized
                              then (Inl (Error ErrorIncompatible ''dataset'' ''dataset kind, type identity, or bounds do not match its catalog entry''), db, w)
                              else (Inr \<lparr>dsDB = self db, dsInfo = existing\<rparr>, db, w)
                          | None \<Rightarrow>
                              let clone = cloneCatalogState (catalog db);
                                  info = \<lparr>iID = NextDatasetID clone, iBucketName = bkName b, iName = name,
                                          iKind = oKind normalized, iOrigin = GoCatalog,
                                          iTypeIdentity = oTypeIdentity normalized,
                                          iBounds = \<lparr>bMaxRecords = oMaxRecords normalized,
                                                     bMaxValueBytes = oMaxValueBytes normalized\<rparr>\<rparr>
                              in (case fmlookup (mapOf (Buckets clone)) (bkName b) of
                                    None \<Rightarrow> (Inl (Panic ''assignment to entry in nil map''), db, w)
                                  | Some nextBucket \<Rightarrow>
                                      let nxt = clone\<lparr>NextDatasetID := NextDatasetID clone + 1,
                                                  Buckets := Some (fmupd (bkName b)
                                                    \<lparr>Datasets = Some (fmupd name info (bucketDatasets nextBucket))\<rparr>
                                                    (mapOf (Buckets clone)))\<rparr>
                                      in (case persistCatalog nxt w of
                                            (Some e, w1) \<Rightarrow> (Inl e, db\<lparr>poisoned := True\<rparr>, w1)
                                          | (None, w1) \<Rightarrow>
                                              (Inr \<lparr>dsDB = self db, dsInfo = info\<rparr>, db\<lparr>catalog := nxt\<rparr>, w1))))))))"

definition ListDatasets :: "Bucket option \<Rightarrow> ctx \<Rightarrow> 'a Database_scheme \<Rightarrow> DatasetInfo list res" where
  "ListDatasets bucket c db =
     (case bucket of
        None \<Rightarrow> Inl (closedError ''list_datasets'')
      | Some b \<Rightarrow>
          (case enter db c ''list_datasets'' of
             Some e \<Rightarrow> Inl e
           | None \<Rightarrow>
               (case fmlookup (mapOf (Buckets (catalog db))) (bkName b) of
                  None \<Rightarrow> Inl (Error ErrorCorruption ''list_datasets'' ''bucket handle is absent from catalog'')
                | Some entry \<Rightarrow> Inr (sort_key iName (map snd (sorted_list_of_fmap (bucketDatasets entry)))))))"

definition Dataset_Info :: "Dataset option \<Rightarrow> DatasetInfo" where
  "Dataset_Info dataset = (case dataset of None \<Rightarrow> zeroInfo | Some d \<Rightarrow> dsInfo d)"

section \<open>Records\<close>

definition Dataset_Get :: "Dataset option \<Rightarrow> ctx \<Rightarrow> bytes \<Rightarrow> dest \<Rightarrow> 'a Database_scheme \<Rightarrow> bytes option res" where
  "Dataset_Get dataset c key destination db =
     (case validRecordKey key of
        Some e \<Rightarrow> Inl e
      | None \<Rightarrow>
          (case dataset of
             None \<Rightarrow> Inl (closedError ''dataset_get'')
           | Some d \<Rightarrow>
               if destination = None then Inl (Error ErrorInvalidInput ''dataset_get'' ''destination is required'')
               else case enterKeyed db c ''dataset_get'' of
                   Some e \<Rightarrow> Inl e
                 | None \<Rightarrow>
                     (case fmlookup (records db) (backendRecordKey (iID (dsInfo d)) key) of
                        None \<Rightarrow> Inr None
                      | Some val \<Rightarrow>
                          if the destination val then Inr (Some val)
                          else Inl (Error ErrorCorruption ''dataset_get'' ''unmarshal''))))"

definition validDataset :: "'a Database_scheme \<Rightarrow> KeyedTx \<Rightarrow> Dataset option \<Rightarrow> bytes \<Rightarrow> string \<Rightarrow> go_error option" where
  "validDataset db tx dataset key op =
     (case tx_valid op tx of
        Some e \<Rightarrow> Some e
      | None \<Rightarrow>
          (case dataset of
             None \<Rightarrow> Some (Error ErrorInvalidInput (''catalog_tx_'' @ op) ''dataset does not belong to this database'')
           | Some d \<Rightarrow>
               if dsDB d \<noteq> self db
               then Some (Error ErrorInvalidInput (''catalog_tx_'' @ op) ''dataset does not belong to this database'')
               else validRecordKey key))"

definition ctx_Get :: "'a Database_scheme \<Rightarrow> KeyedTx \<Rightarrow> Dataset option \<Rightarrow> bytes \<Rightarrow> dest \<Rightarrow> bytes option res" where
  "ctx_Get db tx dataset key destination =
     (case validDataset db tx dataset key ''get'' of
        Some e \<Rightarrow> Inl e
      | None \<Rightarrow>
          if destination = None then Inl (Error ErrorInvalidInput ''catalog_tx_get'' ''destination is required'')
          else
            let backendKey = backendRecordKey (iID (dsInfo (the dataset))) key in
            case fmlookup (writes tx) backendKey of
              Some None \<Rightarrow> Inr None
            | Some (Some val) \<Rightarrow>
                if the destination val then Inr (Some val)
                else Inl (Error ErrorInvalidInput ''catalog_tx_get'' ''unmarshal'')
            | None \<Rightarrow>
                (case fmlookup (records db) backendKey of
                   None \<Rightarrow> Inr None
                 | Some val \<Rightarrow>
                     if the destination val then Inr (Some val)
                     else Inl (Error ErrorCorruption ''catalog_tx_get'' ''unmarshal'')))"

definition ctx_Put ::
  "'a Database_scheme \<Rightarrow> KeyedTx \<Rightarrow> Dataset option \<Rightarrow> bytes \<Rightarrow> app_value \<Rightarrow> go_error option \<times> KeyedTx" where
  "ctx_Put db tx dataset key val =
     (case validDataset db tx dataset key ''put'' of
        Some e \<Rightarrow> (Some e, tx)
      | None \<Rightarrow>
          (case json_Marshal val of
             None \<Rightarrow> (Some (Error ErrorInvalidInput ''catalog_tx_put'' ''marshal''), tx)
           | Some encoded \<Rightarrow>
               let info = dsInfo (the dataset) in
               if bMaxValueBytes (iBounds info) < int (length encoded)
               then (Some (Error ErrorCapacity ''catalog_tx_put'' ''value exceeds dataset MaxValueBytes''), tx)
               else (None, tx\<lparr>writes := fmupd (backendRecordKey (iID info) key) (Some encoded) (writes tx)\<rparr>)))"

definition ctx_Delete ::
  "'a Database_scheme \<Rightarrow> KeyedTx \<Rightarrow> Dataset option \<Rightarrow> bytes \<Rightarrow> go_error option \<times> KeyedTx" where
  "ctx_Delete db tx dataset key =
     (case validDataset db tx dataset key ''delete'' of
        Some e \<Rightarrow> (Some e, tx)
      | None \<Rightarrow>
          (None, tx\<lparr>writes := fmupd (backendRecordKey (iID (dsInfo (the dataset))) key) None (writes tx)\<rparr>))"

text \<open>The counting loops of \<open>validateDatasetBounds\<close>.\<close>

definition countRecord :: "bytes \<Rightarrow> (u64, int) fmap \<Rightarrow> (u64, int) fmap" where
  "countRecord key counts =
     (case backendDatasetID key of None \<Rightarrow> counts | Some i \<Rightarrow> fmupd i (countOf counts i + 1) counts)"

definition countWrite ::
  "(bytes, bytes) fmap \<Rightarrow> bytes \<times> bytes option \<Rightarrow> (u64, int) fmap \<Rightarrow> (u64, int) fmap" where
  "countWrite recs kv counts =
     (case backendDatasetID (fst kv) of
        None \<Rightarrow> counts
      | Some i \<Rightarrow>
          let existed = fmlookup recs (fst kv) \<noteq> None in
          if snd kv = None \<and> existed then fmupd i (countOf counts i - 1) counts
          else if snd kv \<noteq> None \<and> \<not> existed then fmupd i (countOf counts i + 1) counts
          else counts)"

definition validateDatasetBounds :: "'a Database_scheme \<Rightarrow> KeyedTx \<Rightarrow> go_error option" where
  "validateDatasetBounds db tx =
     (let counts = fold (countWrite (records db)) (sorted_list_of_fmap (writes tx))
                     (fold countRecord (map fst (sorted_list_of_fmap (records db))) fmempty)
      in if list_ex (\<lambda>dataset. bMaxRecords (iBounds dataset) < countOf counts (iID dataset)) (allDatasets (catalog db))
         then Some (Error ErrorCapacity ''catalog_mutate'' ''dataset record capacity exceeded'')
         else None)"

section \<open>Catalog commands\<close>

text \<open>What a \<open>Mutation\<close> callback does with the transaction it is given.\<close>

datatype ctx_prog =
    CGet "Dataset option" bytes dest "bytes option res \<Rightarrow> ctx_prog"
  | CPut "Dataset option" bytes app_value "go_error option \<Rightarrow> ctx_prog"
  | CDelete "Dataset option" bytes "go_error option \<Rightarrow> ctx_prog"
  | CReturn app_value
  | CFail app_error
  | CPanic string

primrec runCatalog :: "ctx_prog \<Rightarrow> 'a Database_scheme mutation" where
  "runCatalog (CGet ds key d k) db tx = runCatalog (k (ctx_Get db tx ds key d)) db tx"
| "runCatalog (CPut ds key v k) db tx = (case ctx_Put db tx ds key v of (e, tx') \<Rightarrow> runCatalog (k e) db tx')"
| "runCatalog (CDelete ds key k) db tx = (case ctx_Delete db tx ds key of (e, tx') \<Rightarrow> runCatalog (k e) db tx')"
| "runCatalog (CReturn v) db tx = (Returned v, tx)"
| "runCatalog (CFail e) db tx = (Failed (errorOf e), tx)"
| "runCatalog (CPanic msg) db tx = (Panicked msg, tx)"

text \<open>The closure that \<open>Mutate\<close> submits.\<close>

definition catalogMutation :: "ctx_prog \<Rightarrow> 'a Database_scheme mutation" where
  "catalogMutation p db tx =
     (case runCatalog p db tx of
        (Returned v, tx') \<Rightarrow>
          (case validateDatasetBounds db tx' of
             Some e \<Rightarrow> (Failed e, tx')
           | None \<Rightarrow> (Returned v, tx'))
      | (out, tx') \<Rightarrow> (out, tx'))"

definition catalogRequest :: "ctx \<Rightarrow> bytes \<Rightarrow> ctx_prog \<Rightarrow> 'a Database_scheme keyedCommitRequest" where
  "catalogRequest c command p = \<lparr>qCtx = c, qCommand = command, qMutation = Some (catalogMutation p)\<rparr>"

definition Mutate ::
  "ctx \<Rightarrow> bytes \<Rightarrow> ctx_prog option \<Rightarrow> 'a Database_scheme \<Rightarrow> world \<Rightarrow> keyedCommitResult \<times> 'a Database_scheme \<times> world" where
  "Mutate c command mut db w =
     (case mut of
        None \<Rightarrow> (zeroResult\<lparr>crErr := Some (Error ErrorInvalidInput ''catalog_mutate'' ''mutation is required'')\<rparr>, db, w)
      | Some p \<Rightarrow> SubmitKeyed catalogHooks (catalogRequest c command p) db w)"

definition Database_Snapshot ::
  "ctx \<Rightarrow> 'a Database_scheme \<Rightarrow> world \<Rightarrow> go_error option \<times> 'a Database_scheme \<times> world" where
  "Database_Snapshot c db w = SnapshotKeyed c db w"

definition Database_Close :: "'a Database_scheme \<Rightarrow> world \<Rightarrow> go_error option \<times> 'a Database_scheme \<times> world" where
  "Database_Close db w = CloseKeyed db w"

section \<open>Scans\<close>

text \<open>
  \<^verbatim>\<open>query.go\<close>. A visitor is a function of its own state, the key and the stored text; it returns its
  new state and an action or an error. \<open>cancelled n\<close> is what the context reports at the \<open>n\<close>-th check.
\<close>

definition ScanContinue :: byte where "ScanContinue = 0"
definition ScanStop :: byte where "ScanStop = 1"

type_synonym 's visitor = "'s \<Rightarrow> bytes \<Rightarrow> bytes \<Rightarrow> 's \<times> byte res"

fun scanLoop ::
  "(nat \<Rightarrow> go_error option) \<Rightarrow> 's visitor \<Rightarrow> (bytes, bytes) fmap \<Rightarrow> u64 \<Rightarrow> nat \<Rightarrow> bytes list \<Rightarrow> 's \<Rightarrow> go_error option \<times> 's" where
  "scanLoop cancelled visit recs i n [] s = (None, s)"
| "scanLoop cancelled visit recs i n (key # keys) s =
     (case cancelled n of
        Some e \<Rightarrow> (Some e, s)
      | None \<Rightarrow>
          (case visit s key (case fmlookup recs (backendRecordKey i key) of None \<Rightarrow> [] | Some v \<Rightarrow> v) of
             (s', Inl e) \<Rightarrow> (Some e, s')
           | (s', Inr action) \<Rightarrow>
               if action = ScanContinue then scanLoop cancelled visit recs i (n + 1) keys s'
               else if action = ScanStop then (None, s')
               else (Some (Error ErrorInvalidInput ''dataset_scan'' ''visit returned an invalid ScanAction''), s')))"

definition scan ::
  "Dataset option \<Rightarrow> ctx \<Rightarrow> (nat \<Rightarrow> go_error option) \<Rightarrow> 's visitor \<Rightarrow> 'a Database_scheme \<Rightarrow> 's \<Rightarrow> go_error option \<times> 's" where
  "scan dataset c cancelled visit db s =
     (case dataset of
        None \<Rightarrow> (Some (closedError ''dataset_scan''), s)
      | Some d \<Rightarrow>
          if iKind (dsInfo d) \<noteq> KeyedJSON
          then (Some (Error ErrorIncompatible ''dataset_scan'' ''dataset kind does not support scans''), s)
          else case enterKeyed db c ''dataset_scan'' of
              Some e \<Rightarrow> (Some e, s)
            | None \<Rightarrow> scanLoop cancelled visit (records db) (iID (dsInfo d)) 0 (keysOf (queryKeys db) (iID (dsInfo d))) s)"

record DatasetRecord =
  drKey :: bytes
  drJSON :: bytes

definition DatasetRecord_Decode :: "DatasetRecord \<Rightarrow> dest \<Rightarrow> go_error option" where
  "DatasetRecord_Decode r destination =
     (case destination of
        None \<Rightarrow> Some (Error ErrorInvalidInput ''dataset_record_decode'' ''destination is required'')
      | Some decodes \<Rightarrow>
          if decodes (drJSON r) then None else Some (Error ErrorCorruption ''dataset_record_decode'' ''unmarshal''))"

definition Scan ::
  "Dataset option \<Rightarrow> ctx \<Rightarrow> (nat \<Rightarrow> go_error option) \<Rightarrow> ('s \<Rightarrow> DatasetRecord \<Rightarrow> 's \<times> byte res) option
    \<Rightarrow> 'a Database_scheme \<Rightarrow> 's \<Rightarrow> go_error option \<times> 's" where
  "Scan dataset c cancelled visit db s =
     (case visit of
        None \<Rightarrow> (Some (Error ErrorInvalidInput ''dataset_scan'' ''visit callback is required''), s)
      | Some f \<Rightarrow> scan dataset c cancelled (\<lambda>s key encoded. f s \<lparr>drKey = key, drJSON = encoded\<rparr>) db s)"

text \<open>The typed helper; \<open>decode\<close> is the decoding of the stored text into a new value of the type.\<close>

definition ScanDataset ::
  "(bytes \<Rightarrow> 't option) \<Rightarrow> Dataset option \<Rightarrow> ctx \<Rightarrow> (nat \<Rightarrow> go_error option) \<Rightarrow> ('s \<Rightarrow> bytes \<Rightarrow> 't \<Rightarrow> 's \<times> byte res) option
    \<Rightarrow> 'a Database_scheme \<Rightarrow> 's \<Rightarrow> go_error option \<times> 's" where
  "ScanDataset decode dataset c cancelled visit db s =
     (case visit of
        None \<Rightarrow> (Some (Error ErrorInvalidInput ''scan_dataset'' ''visit callback is required''), s)
      | Some f \<Rightarrow>
          scan dataset c cancelled
            (\<lambda>s key encoded. case decode encoded of
                None \<Rightarrow> (s, Inl (Error ErrorCorruption ''scan_dataset'' ''unmarshal''))
              | Some val \<Rightarrow> f s key val) db s)"

end
