(* ===== verification/Catalog_Laws.thy ===== *)
theory Catalog_Laws
  imports Catalog Keyed_Life
begin

text \<open>
  The laws of the catalog database: the mapping of dataset records to keys, the ordered key cursor,
  the soundness of catalog transactions, and the bounds of a dataset.
\<close>

section \<open>Backend keys\<close>

lemma length_backendRecordKey [simp]: "length (backendRecordKey i k) = 9 + length k"
  by (simp add: backendRecordKey_def)

lemma backendDatasetID_key [simp]: "backendDatasetID (backendRecordKey i k) = Some i"
  by (simp add: backendDatasetID_def backendRecordKey_def getbe64_be64 [of i "[]", simplified])

lemma drop_backendRecordKey [simp]: "drop 9 (backendRecordKey i k) = k"
  by (simp add: backendRecordKey_def)

lemma backendDatasetID_Some: "backendDatasetID key = Some i \<longleftrightarrow> key = backendRecordKey i (drop 9 key)"
proof
  assume a: "backendDatasetID key = Some i"
  then have l: "9 \<le> length key" "hd key = 0" "i = getbe64 (take 8 (tl key))"
    by (auto simp: backendDatasetID_def split: if_splits)
  then obtain rest where k: "key = 0 # rest" by (cases key) auto
  have "be64 i = take 8 rest" using l k by (simp add: be64_getbe64)
  then show "key = backendRecordKey i (drop 9 key)" using k by (simp add: backendRecordKey_def)
next
  assume "key = backendRecordKey i (drop 9 key)"
  then show "backendDatasetID key = Some i" by (metis backendDatasetID_key)
qed

lemma backendRecordKey_inject [simp]: "backendRecordKey i k = backendRecordKey j l \<longleftrightarrow> i = j \<and> k = l"
  by (auto simp: backendRecordKey_def)

lemma append_le_same: "p @ a \<le> p @ (b :: 'a :: linorder list) \<longleftrightarrow> a \<le> b"
  by (induction p) simp_all

lemma backendRecordKey_le [simp]: "backendRecordKey i a \<le> backendRecordKey i b \<longleftrightarrow> a \<le> b"
  by (simp add: backendRecordKey_def append_le_same)

lemma backendDatasetID_cases:
  obtains (none) "backendDatasetID key = None" | (key) i k where "key = backendRecordKey i k"
  using backendDatasetID_Some by (cases "backendDatasetID key") blast+

section \<open>Searching\<close>

lemma sort_Search_spec:
  "i \<le> j \<Longrightarrow> j \<le> n \<Longrightarrow> (\<forall>a b. a \<le> b \<longrightarrow> b < n \<longrightarrow> f a \<longrightarrow> f b) \<Longrightarrow>
   i \<le> sort_Search i j f \<and> sort_Search i j f \<le> j
   \<and> (\<forall>h. i \<le> h \<longrightarrow> h < sort_Search i j f \<longrightarrow> \<not> f h) \<and> (\<forall>h. sort_Search i j f \<le> h \<longrightarrow> h < j \<longrightarrow> f h)"
proof (induction i j f rule: sort_Search.induct)
  case (1 i j f)
  let ?h = "(i + j) div 2"
  show ?case
  proof (cases "i < j")
    case False
    then have "sort_Search i j f = i" by (subst sort_Search.simps) simp
    then show ?thesis using "1.prems"(1) False by simp
  next
    case True
    then have h: "i \<le> ?h" "?h < j" "?h < n" using "1.prems"(2) by auto
    show ?thesis
    proof (cases "f ?h")
      case F: True
      have e: "sort_Search i j f = sort_Search i ?h f"
        by (subst sort_Search.simps) (use True F in \<open>simp add: Let_def\<close>)
      have m: "f x" if "?h \<le> x" "x < j" for x using "1.prems"(2,3) F that by (meson less_le_trans)
      have IH: "i \<le> sort_Search i ?h f \<and> sort_Search i ?h f \<le> ?h
         \<and> (\<forall>h. i \<le> h \<longrightarrow> h < sort_Search i ?h f \<longrightarrow> \<not> f h) \<and> (\<forall>h. sort_Search i ?h f \<le> h \<longrightarrow> h < ?h \<longrightarrow> f h)"
        using "1.IH"(2) [OF True refl] F h "1.prems"(3) by simp
      show ?thesis unfolding e using IH h m by (meson le_trans less_imp_le not_less)
    next
      case F: False
      have e: "sort_Search i j f = sort_Search (?h + 1) j f"
        by (subst sort_Search.simps) (use True F in \<open>simp add: Let_def\<close>)
      have m: "\<not> f x" if "x \<le> ?h" for x using "1.prems"(3) F that h(3) by blast
      have IH: "?h + 1 \<le> sort_Search (?h + 1) j f \<and> sort_Search (?h + 1) j f \<le> j
         \<and> (\<forall>h. ?h + 1 \<le> h \<longrightarrow> h < sort_Search (?h + 1) j f \<longrightarrow> \<not> f h)
         \<and> (\<forall>h. sort_Search (?h + 1) j f \<le> h \<longrightarrow> h < j \<longrightarrow> f h)"
        using "1.IH"(1) [OF True refl F] h "1.prems"(2,3) by simp
      show ?thesis unfolding e
      proof (intro conjI allI impI)
        show "i \<le> sort_Search (?h + 1) j f" "sort_Search (?h + 1) j f \<le> j" using IH h(1) by auto
        show "\<not> f x" if "i \<le> x" "x < sort_Search (?h + 1) j f" for x
          using IH m [of x] that by (cases "x \<le> ?h") auto
        show "f x" if "sort_Search (?h + 1) j f \<le> x" "x < j" for x using IH that by blast
      qed
    qed
  qed
qed

text \<open>On a sorted list, bisection finds the first key that is not smaller.\<close>

lemma sort_SearchStrings_takeWhile:
  assumes "sorted keys"
  shows "sort_SearchStrings keys key = length (takeWhile (\<lambda>k. k < key) keys)"
proof -
  let ?p = "sort_SearchStrings keys key" and ?f = "\<lambda>i. key \<le> keys ! i"
  have mono: "\<forall>a b. a \<le> b \<longrightarrow> b < length keys \<longrightarrow> ?f a \<longrightarrow> ?f b"
  proof (intro allI impI)
    fix a b assume "a \<le> b" "b < length keys" "key \<le> keys ! a"
    then show "key \<le> keys ! b" using sorted_nth_mono [OF assms, of a b] by (simp add: order_trans [of key])
  qed
  note sp = sort_Search_spec [OF _ order_refl mono, of 0, folded sort_SearchStrings_def, simplified]
  have p: "?p \<le> length keys" "\<And>h. h < ?p \<Longrightarrow> keys ! h < key" "\<And>h. ?p \<le> h \<Longrightarrow> h < length keys \<Longrightarrow> \<not> keys ! h < key"
    using sp by (auto simp: not_le not_less)
  have "takeWhile (\<lambda>k. k < key) keys = take ?p keys"
    using p by (intro takeWhile_eq_take_P_nth) auto
  then show ?thesis using p(1) by simp
qed

lemma insert_at_search: "takeWhile (\<lambda>y. y < x) xs @ [x] @ dropWhile (\<lambda>y. y < x) xs = insort x (xs :: 'a :: linorder list)"
  by (induction xs) auto

lemma remove_at_search:
  "sorted xs \<Longrightarrow> (x :: 'a :: linorder) \<in> set xs \<Longrightarrow> takeWhile (\<lambda>y. y < x) xs @ tl (dropWhile (\<lambda>y. y < x) xs) = remove1 x xs"
  by (induction xs) auto

lemma search_member:
  assumes "sorted xs"
  shows "(length (takeWhile (\<lambda>y. y < x) xs) < length xs \<and> xs ! length (takeWhile (\<lambda>y. y < x) xs) = x) \<longleftrightarrow> (x :: 'a :: linorder) \<in> set xs"
  using assms by (induction xs) (auto simp: antisym_conv2)

text \<open>What one mutation does to the cursor of a dataset.\<close>

lemma applyQueryKeyMutation_key:
  assumes "sorted (keysOf q i)" "mKey m = backendRecordKey i k"
  shows "applyQueryKeyMutation m q =
    (if mDelete m then (if k \<in> set (keysOf q i) then fmupd i (remove1 k (keysOf q i)) q else q)
     else if k \<in> set (keysOf q i) then q else fmupd i (insort k (keysOf q i)) q)"
proof -
  let ?ks = "keysOf q i" and ?p = "length (takeWhile (\<lambda>y. y < k) (keysOf q i))"
  have t: "take ?p ?ks = takeWhile (\<lambda>y. y < k) ?ks" "drop ?p ?ks = dropWhile (\<lambda>y. y < k) ?ks"
    by (simp_all add: takeWhile_eq_take [symmetric] dropWhile_eq_drop [symmetric])
  have d: "drop (?p + 1) ?ks = tl (dropWhile (\<lambda>y. y < k) ?ks)" by (simp add: t(2) [symmetric] drop_Suc tl_drop)
  have e: "(?p < length ?ks \<and> ?ks ! ?p = k) = (k \<in> set ?ks)" by (rule search_member [OF assms(1)])
  show ?thesis
    unfolding applyQueryKeyMutation_def Let_def assms(2) backendDatasetID_key option.case drop_backendRecordKey
      sort_SearchStrings_takeWhile [OF assms(1)] e t d insert_at_search
    using remove_at_search [OF assms(1)] by simp
qed

section \<open>Ordered cursors\<close>

text \<open>
  What a scan relies on: the keys kept for an index are sorted, without repetition, and exactly those
  that have a value.
\<close>

locale ordered_cursor =
  fixes inv :: "'s \<Rightarrow> bool" and cursor :: "'s \<Rightarrow> 'i \<Rightarrow> 'k :: linorder list"
    and entry :: "'s \<Rightarrow> 'i \<Rightarrow> 'k \<Rightarrow> 'v option"
  assumes cursor_sorted: "inv s \<Longrightarrow> sorted (cursor s i) \<and> distinct (cursor s i)"
    and cursor_complete: "inv s \<Longrightarrow> k \<in> set (cursor s i) \<longleftrightarrow> entry s i k \<noteq> None"
begin

lemma cursor_unique:
  assumes "inv s" "sorted ks" "distinct ks" "\<And>k. k \<in> set ks \<longleftrightarrow> entry s i k \<noteq> None"
  shows "cursor s i = ks"
  using assms cursor_sorted [OF assms(1)] cursor_complete [OF assms(1)] by (intro sorted_distinct_set_eq) auto

text \<open>States with the same entries have the same cursor: it carries no information of its own.\<close>

lemma cursor_determined:
  assumes "inv s" "inv t" "\<And>k. entry s i k = entry t i k"
  shows "cursor s i = cursor t i"
  using assms cursor_sorted [OF assms(2)] cursor_complete [OF assms(2)] by (intro cursor_unique) auto

end

definition query_inv :: "'a Database_scheme \<Rightarrow> bool" where
  "query_inv db \<longleftrightarrow>
     (\<forall>i. sorted (keysOf (queryKeys db) i) \<and> distinct (keysOf (queryKeys db) i)
        \<and> (\<forall>k. k \<in> set (keysOf (queryKeys db) i) \<longleftrightarrow> fmlookup (records db) (backendRecordKey i k) \<noteq> None))"

interpretation db_cursor: ordered_cursor query_inv "\<lambda>db. keysOf (queryKeys db)"
  "\<lambda>db i k. fmlookup (records db) (backendRecordKey i k)"
  by unfold_locales (auto simp: query_inv_def)

lemma keysOf_fmupd [simp]: "keysOf (fmupd i ks q) j = (if i = j then ks else keysOf q j)"
  by (simp add: keysOf_def)

text \<open>\<open>tracksKeys q recs\<close>: the cursors \<open>q\<close> belong to the records \<open>recs\<close>.\<close>

definition tracksKeys :: "(u64, bytes list) fmap \<Rightarrow> (bytes, bytes) fmap \<Rightarrow> bool" where
  "tracksKeys q recs \<longleftrightarrow>
     (\<forall>i. sorted (keysOf q i) \<and> distinct (keysOf q i)
        \<and> (\<forall>k. k \<in> set (keysOf q i) \<longleftrightarrow> fmlookup recs (backendRecordKey i k) \<noteq> None))"

lemma query_inv_tracks: "query_inv db = tracksKeys (queryKeys db) (records db)"
  by (simp add: query_inv_def tracksKeys_def)

lemma tracksKeys_mutation:
  assumes t: "tracksKeys q recs"
  shows "tracksKeys (applyQueryKeyMutation m q) (applyMutations [m] recs)"
proof (cases rule: backendDatasetID_cases [of "mKey m"])
  case none
  then have "mKey m \<noteq> backendRecordKey i k" "backendRecordKey i k \<noteq> mKey m" for i k
    by (metis backendDatasetID_key option.distinct(1))+
  then show ?thesis using t none by (simp add: applyQueryKeyMutation_def tracksKeys_def)
next
  case (key i k)
  have s: "sorted (keysOf q i)" "distinct (keysOf q i)" using t by (auto simp: tracksKeys_def)
  show ?thesis
    using t unfolding tracksKeys_def applyQueryKeyMutation_key [OF s(1) key]
    by (auto simp: key sorted_remove1 sorted_insort distinct_insort set_insort_key set_remove1_eq
        fmlookup_drop)
qed

lemma applyMutations_append: "applyMutations (a @ b) recs = applyMutations b (applyMutations a recs)"
  by (induction a arbitrary: recs) auto

lemma tracksKeys_mutations:
  "tracksKeys q recs \<Longrightarrow> tracksKeys (fold applyQueryKeyMutation ms q) (applyMutations ms recs)"
proof (induction ms arbitrary: q recs)
  case (Cons m ms)
  show ?case using Cons.IH [OF tracksKeys_mutation [OF Cons.prems, of m]] by simp
qed simp

lemma hook_ok_catalog [simp]: "hook_ok catalogHooks"
  by (auto simp: hook_ok_def catalogHooks_def applyQueryKeyMutations_def KeyedDB.truncate_def)

lemma query_inv_apply:
  assumes "query_inv db"
  shows "query_inv (applyKeyed applyQueryKeyMutations r db)"
proof -
  let ?d = "applyPlain r db"
  have "queryKeys ?d = queryKeys db" by (simp add: applyKeyed_def Let_def)
  then show ?thesis
    using assms tracksKeys_mutations [of "queryKeys db" "records db" "rMutations r"]
    unfolding applyKeyed_after [of applyQueryKeyMutations] query_inv_tracks
    by (auto simp: applyQueryKeyMutations_def)
qed

text \<open>Initialisation derives the cursors from the records.\<close>

lemma keysOf_addQueryKeys:
  "keysOf (fold addQueryKey ks q) i = keysOf q i @ map (drop 9) (filter (\<lambda>k. backendDatasetID k = Some i) ks)"
  by (induction ks arbitrary: q) (auto simp: addQueryKey_def split: option.split)

lemma set_sorted_keys [simp]: "set (map fst (sorted_list_of_fmap m)) = fset (fmdom m)"
  by (simp add: sorted_list_of_fmap_def sorted_list_of_fset.rep_eq o_def)

lemma distinct_drop_keys:
  "distinct ks \<Longrightarrow> distinct (map (drop 9) (filter (\<lambda>k. backendDatasetID k = Some i) ks))"
  unfolding distinct_map by (auto simp: inj_on_def) (metis backendDatasetID_Some)

lemma tracksKeys_initialize: "tracksKeys (initializeQueryKeys recs) recs"
proof -
  let ?ks = "map fst (sorted_list_of_fmap recs)"
  have k: "keysOf (initializeQueryKeys recs) i = sort (map (drop 9) (filter (\<lambda>k. backendDatasetID k = Some i) ?ks))" for i
  proof -
    have "keysOf (fmmap sort q) i = sort (keysOf q i)" for q by (simp add: keysOf_def split: option.split)
    then show ?thesis by (simp add: initializeQueryKeys_def keysOf_addQueryKeys keysOf_def [of fmempty])
  qed
  have "k \<in> drop 9 ` {x \<in> fset (fmdom recs). backendDatasetID x = Some i} \<longleftrightarrow> fmlookup recs (backendRecordKey i k) \<noteq> None" for i k
  proof
    assume "k \<in> drop 9 ` {x \<in> fset (fmdom recs). backendDatasetID x = Some i}"
    then obtain x where "x \<in> fset (fmdom recs)" "backendDatasetID x = Some i" "k = drop 9 x" by blast
    then show "fmlookup recs (backendRecordKey i k) \<noteq> None" using backendDatasetID_Some in_fmdom_iff by metis
  next
    assume "fmlookup recs (backendRecordKey i k) \<noteq> None"
    then have "backendRecordKey i k \<in> {x \<in> fset (fmdom recs). backendDatasetID x = Some i}"
      using in_fmdom_iff by (simp add: in_fmdom_iff)
    then show "k \<in> drop 9 ` {x \<in> fset (fmdom recs). backendDatasetID x = Some i}"
      by (metis (no_types, lifting) drop_backendRecordKey image_eqI)
  qed
  moreover have "set (map (drop 9) (filter (\<lambda>k. backendDatasetID k = Some i) ?ks))
      = drop 9 ` {x \<in> fset (fmdom recs). backendDatasetID x = Some i}" for i
    unfolding set_map [of "drop 9"] set_filter set_sorted_keys ..
  ultimately show ?thesis
    unfolding tracksKeys_def k set_sort
    by (simp only: sorted_sort distinct_sort simp_thms distinct_drop_keys [OF distinct_sorted_list_of_fmap])
qed

section \<open>Scans\<close>

text \<open>
  The reference of a scan: the records of the dataset in ascending order of their backend keys. It
  does not mention the cursors.
\<close>

definition datasetEntries :: "(bytes, bytes) fmap \<Rightarrow> u64 \<Rightarrow> (bytes \<times> bytes) list" where
  "datasetEntries recs i =
     map (\<lambda>(k, v). (drop 9 k, v)) (filter (\<lambda>(k, v). backendDatasetID k = Some i) (sorted_list_of_fmap recs))"

fun scanEntries ::
  "(nat \<Rightarrow> go_error option) \<Rightarrow> 's visitor \<Rightarrow> nat \<Rightarrow> (bytes \<times> bytes) list \<Rightarrow> 's \<Rightarrow> go_error option \<times> 's" where
  "scanEntries cancelled visit n [] s = (None, s)"
| "scanEntries cancelled visit n ((key, val) # kvs) s =
     (case cancelled n of
        Some e \<Rightarrow> (Some e, s)
      | None \<Rightarrow>
          (case visit s key val of
             (s', Inl e) \<Rightarrow> (Some e, s')
           | (s', Inr action) \<Rightarrow>
               if action = ScanContinue then scanEntries cancelled visit (n + 1) kvs s'
               else if action = ScanStop then (None, s')
               else (Some (Error ErrorInvalidInput ''dataset_scan'' ''visit returned an invalid ScanAction''), s')))"

lemma lookup_sorted_list: "(k, v) \<in> set (sorted_list_of_fmap m) \<longleftrightarrow> fmlookup m k = Some v"
  using map_of_sorted_list [of m] distinct_sorted_list_of_fmap [of m] by (metis map_of_eq_Some_iff)

lemma datasetEntries_keys: "map fst (datasetEntries recs i)
  = map (drop 9) (filter (\<lambda>k. backendDatasetID k = Some i) (map fst (sorted_list_of_fmap recs)))"
  by (simp add: datasetEntries_def filter_map o_def case_prod_unfold)

lemma set_datasetEntries: "(k, v) \<in> set (datasetEntries recs i) \<longleftrightarrow> fmlookup recs (backendRecordKey i k) = Some v"
proof
  assume "(k, v) \<in> set (datasetEntries recs i)"
  then obtain x where "(x, v) \<in> set (sorted_list_of_fmap recs)" "backendDatasetID x = Some i" "k = drop 9 x"
    by (auto simp: datasetEntries_def)
  then show "fmlookup recs (backendRecordKey i k) = Some v" using lookup_sorted_list backendDatasetID_Some by metis
next
  assume "fmlookup recs (backendRecordKey i k) = Some v"
  then have "(backendRecordKey i k, v) \<in> set (filter (\<lambda>(k, v). backendDatasetID k = Some i) (sorted_list_of_fmap recs))"
    by (simp add: lookup_sorted_list)
  from imageI [OF this, of "\<lambda>(k, v). (drop 9 k, v)"] show "(k, v) \<in> set (datasetEntries recs i)"
    by (simp add: datasetEntries_def)
qed

lemma sorted_datasetEntries: "sorted (map fst (datasetEntries recs i))" "distinct (map fst (datasetEntries recs i))"
proof -
  let ?ks = "filter (\<lambda>k. backendDatasetID k = Some i) (map fst (sorted_list_of_fmap recs))"
  have s: "sorted ?ks" by (rule sorted_wrt_filter) (simp add: sorted_list_of_fmap_def o_def sorted_list_of_fset.rep_eq)
  have "drop 9 a \<le> drop 9 b" if "backendDatasetID a = Some i" "backendDatasetID b = Some i" "a \<le> b" for a b
    using that backendRecordKey_le backendDatasetID_Some by metis
  then have "sorted (map (drop 9) ?ks)" using s
    by (auto simp: sorted_wrt_map intro!: sorted_wrt_mono_rel [OF _ s])
  then show "sorted (map fst (datasetEntries recs i))" by (simp only: datasetEntries_keys)
  show "distinct (map fst (datasetEntries recs i))"
    unfolding datasetEntries_keys by (rule distinct_drop_keys [OF distinct_sorted_list_of_fmap])
qed

lemma cursor_entries:
  assumes "query_inv db"
  shows "keysOf (queryKeys db) i = map fst (datasetEntries (records db) i)"
  using sorted_datasetEntries set_datasetEntries [of _ _ "records db" i]
  by (intro db_cursor.cursor_unique [OF assms]) (auto simp: image_iff, metis fst_conv)

lemma scanLoop_entries:
  "(\<And>k v. (k, v) \<in> set kvs \<Longrightarrow> fmlookup recs (backendRecordKey i k) = Some v) \<Longrightarrow>
   scanLoop cancelled visit recs i n (map fst kvs) s = scanEntries cancelled visit n kvs s"
proof (induction kvs arbitrary: n s)
  case (Cons kv kvs)
  obtain k v where kv: "kv = (k, v)" by (cases kv)
  then have l: "fmlookup recs (backendRecordKey i k) = Some v" using Cons.prems by simp
  have IH: "scanLoop cancelled visit recs i n (map fst kvs) s = scanEntries cancelled visit n kvs s" for n s
    by (rule Cons.IH) (use Cons.prems in simp)
  show ?case
    unfolding kv list.map fst_conv scanLoop.simps scanEntries.simps l option.case IH ..
qed simp

lemma scanEntries_all:
  "(\<And>n. cancelled n = None) \<Longrightarrow> (\<And>s k v. snd (visit s k v) = Inr ScanContinue) \<Longrightarrow>
   scanEntries cancelled visit n kvs s = (None, fold (\<lambda>(k, v) s. fst (visit s k v)) kvs s)"
proof (induction kvs arbitrary: n s)
  case (Cons kv kvs)
  obtain k v where kv: "kv = (k, v)" by (cases kv)
  obtain s' where s': "visit s k v = (s', Inr ScanContinue)" using Cons.prems(2) [of s k v] by (cases "visit s k v") auto
  show ?case using Cons kv s' by simp
qed simp

section \<open>Transactions\<close>

text \<open>A property of every dataset handle a callback uses.\<close>

primrec progAll :: "(Dataset \<Rightarrow> bool) \<Rightarrow> ctx_prog \<Rightarrow> bool" where
  "progAll P (CGet ds key d k) = ((\<forall>x. ds = Some x \<longrightarrow> P x) \<and> (\<forall>r. progAll P (k r)))"
| "progAll P (CPut ds key v k) = ((\<forall>x. ds = Some x \<longrightarrow> P x) \<and> (\<forall>r. progAll P (k r)))"
| "progAll P (CDelete ds key k) = ((\<forall>x. ds = Some x \<longrightarrow> P x) \<and> (\<forall>r. progAll P (k r)))"
| "progAll P (CReturn v) = True"
| "progAll P (CFail e) = True"
| "progAll P (CPanic msg) = True"

definition bounded :: "KeyedOptions \<Rightarrow> Dataset \<Rightarrow> bool" where
  "bounded opts d \<longleftrightarrow> bMaxValueBytes (iBounds (dsInfo d)) \<le> MaxValueBytes opts"

lemma validDataset_None:
  "validDataset db tx ds key op = None \<Longrightarrow> \<exists>d. ds = Some d \<and> key \<noteq> [] \<and> length key \<le> keyedMaxKeyBytes \<and> dsDB d = self db"
  by (auto simp: validDataset_def validRecordKey_def split: option.splits if_splits)

lemma catalog_stored: "format db = catalogKeyedFormatContents \<Longrightarrow> length k \<le> keyedMaxKeyBytes \<Longrightarrow>
  length (backendRecordKey i k) \<le> maxStoredKeyBytes db"
  by (simp add: maxStoredKeyBytes_def)

lemma backendRecordKey_nonempty [simp]: "backendRecordKey i k \<noteq> []"
  by (simp add: backendRecordKey_def)

lemma ctx_Put_wf:
  assumes "tx_wf db tx" "ctx_Put db tx ds key v = (e, tx')" "format db = catalogKeyedFormatContents"
    and "\<forall>x. ds = Some x \<longrightarrow> bounded (options db) x"
  shows "tx_wf db tx'"
proof (cases "validDataset db tx ds key ''put''")
  case None
  from validDataset_None [OF None] obtain d where d: "ds = Some d" "key \<noteq> []" "length key \<le> keyedMaxKeyBytes" by blast
  show ?thesis using assms None d
    by (auto simp: ctx_Put_def Let_def bounded_def split: option.splits if_splits
        dest: json_Marshal_valid intro!: tx_wf_write catalog_stored)
qed (use assms in \<open>simp add: ctx_Put_def\<close>)

lemma ctx_Delete_wf:
  assumes "tx_wf db tx" "ctx_Delete db tx ds key = (e, tx')" "format db = catalogKeyedFormatContents"
  shows "tx_wf db tx'"
proof (cases "validDataset db tx ds key ''delete''")
  case None
  from validDataset_None [OF None] obtain d where d: "ds = Some d" "key \<noteq> []" "length key \<le> keyedMaxKeyBytes" by blast
  show ?thesis using assms None d by (auto simp: ctx_Delete_def intro!: tx_wf_write catalog_stored)
qed (use assms in \<open>simp add: ctx_Delete_def\<close>)

text \<open>What puts and deletions keep of a transaction, a callback keeps.\<close>

lemma runCatalog_keeps:
  assumes put: "\<And>tx ds key v e tx'. P tx \<Longrightarrow> \<forall>x. ds = Some x \<longrightarrow> Q x \<Longrightarrow> ctx_Put db tx ds key v = (e, tx') \<Longrightarrow> P tx'"
    and delete: "\<And>tx ds key e tx'. P tx \<Longrightarrow> \<forall>x. ds = Some x \<longrightarrow> Q x \<Longrightarrow> ctx_Delete db tx ds key = (e, tx') \<Longrightarrow> P tx'"
  shows "P tx \<Longrightarrow> progAll Q p \<Longrightarrow> P (snd (runCatalog p db tx))"
proof (induction p arbitrary: tx)
  case (CPut ds key v k)
  obtain e tx' where p: "ctx_Put db tx ds key v = (e, tx')" by fastforce
  then have "P tx'" using put CPut.prems by auto
  then show ?case using CPut.IH [of "k e" tx'] CPut.prems p by simp
next
  case (CDelete ds key k)
  obtain e tx' where p: "ctx_Delete db tx ds key = (e, tx')" by fastforce
  then have "P tx'" using delete CDelete.prems by auto
  then show ?case using CDelete.IH [of "k e" tx'] CDelete.prems p by simp
qed auto

lemma runCatalog_rejection: "fst (runCatalog p db tx) = Failed e \<Longrightarrow> rejection_ok e"
  by (induction p arbitrary: tx) (auto simp: rejection_ok_errorOf split: prod.splits)

lemma runCatalog_sound:
  "tx_wf db tx \<Longrightarrow> format db = catalogKeyedFormatContents \<Longrightarrow> progAll (bounded (options db)) p \<Longrightarrow>
   tx_wf db (snd (runCatalog p db tx)) \<and> (\<forall>e. fst (runCatalog p db tx) = Failed e \<longrightarrow> rejection_ok e)"
  using runCatalog_keeps [of "tx_wf db" "bounded (options db)" db tx p] ctx_Put_wf ctx_Delete_wf runCatalog_rejection
  by blast

lemma catalogMutation_sound:
  assumes "progAll (bounded opts) p"
  shows "txSound (opts, catalogKeyedFormatContents) (catalogMutation p)"
  unfolding txSound_def
proof (intro allI impI)
  fix db :: "'a Database_scheme" and tx
  assume c: "config db = (opts, catalogKeyedFormatContents)" and wf: "tx_wf db tx"
  obtain out tx' where r: "runCatalog p db tx = (out, tx')" by fastforce
  have s: "tx_wf db tx'" "\<And>e. out = Failed e \<Longrightarrow> rejection_ok e"
    using runCatalog_sound [OF wf, of p] c assms r by (auto simp: config_def)
  have "rejection_ok e" if "validateDatasetBounds db tx' = Some e" for e
    using that by (auto simp: validateDatasetBounds_def Let_def rejection_ok_def split: if_splits)
  then show "tx_wf db (snd (catalogMutation p db tx))
      \<and> (\<forall>e. fst (catalogMutation p db tx) = Failed e \<longrightarrow> rejection_ok e)"
    using s r by (auto simp: catalogMutation_def split: tx_outcome.splits option.splits)
qed

lemma catalogRequest_ok:
  "progAll (bounded opts) p \<Longrightarrow> request_ok (opts, catalogKeyedFormatContents) (catalogRequest c command p)"
  by (simp add: request_ok_def catalogRequest_def catalogMutation_sound)

end
