(* ===== verification/Catalog_Inv.thy ===== *)
theory Catalog_Inv
  imports Catalog_Laws
begin

text \<open>
  The invariant of the catalog database: the validation that opening performs,
  \<open>validateCatalogState\<close>, in a form that speaks about entries and counts, and its preservation by
  the operations. A database that keeps it can be opened again.
\<close>

section \<open>Entries of a catalog\<close>

definition catEntry :: "catalogState \<Rightarrow> bytes \<Rightarrow> bytes \<Rightarrow> DatasetInfo \<Rightarrow> bool" where
  "catEntry st bn n d \<longleftrightarrow>
     (\<exists>b. fmlookup (mapOf (Buckets st)) bn = Some b \<and> fmlookup (bucketDatasets b) n = Some d)"

definition bucketTriples :: "(bytes \<times> catalogBucket) list \<Rightarrow> (bytes \<times> bytes \<times> DatasetInfo) list" where
  "bucketTriples bs = concat (map (\<lambda>(bn, b). map (\<lambda>(n, d). (bn, n, d)) (sorted_list_of_fmap (bucketDatasets b))) bs)"

abbreviation catTriples :: "catalogState \<Rightarrow> (bytes \<times> bytes \<times> DatasetInfo) list" where
  "catTriples st \<equiv> bucketTriples (sorted_list_of_fmap (mapOf (Buckets st)))"

lemma set_catTriples: "(bn, n, d) \<in> set (catTriples st) \<longleftrightarrow> catEntry st bn n d"
  by (force simp: bucketTriples_def catEntry_def lookup_sorted_list)

lemma allDatasets_triples: "allDatasets st = map (snd \<circ> snd) (catTriples st)"
  by (simp add: allDatasets_def bucketTriples_def map_concat o_def case_prod_unfold)

lemma set_allDatasets: "d \<in> set (allDatasets st) \<longleftrightarrow> (\<exists>bn n. catEntry st bn n d)"
  unfolding allDatasets_triples set_catTriples [symmetric] by force

lemma distinct_triples:
  "distinct (map fst bs) \<Longrightarrow> distinct (bucketTriples bs)"
proof (induction bs)
  case (Cons x bs)
  obtain bn b where x: "x = (bn, b)" by (cases x)
  have "distinct (sorted_list_of_fmap m)" for m :: "(bytes, DatasetInfo) fmap"
    using distinct_sorted_list_of_fmap [of m] by (simp add: distinct_map)
  then have "distinct (map (\<lambda>(n, d). (bn, n, d)) (sorted_list_of_fmap (bucketDatasets b)))"
    by (auto simp: distinct_map inj_on_def)
  with Cons show ?case by (force simp: bucketTriples_def x)
qed (simp add: bucketTriples_def)

lemma distinct_ids:
  "distinct (map iID (allDatasets st)) \<longleftrightarrow>
   (\<forall>bn n d bn' n' d'. catEntry st bn n d \<and> catEntry st bn' n' d' \<and> iID d = iID d' \<longrightarrow> bn = bn' \<and> n = n')"
proof -
  have "distinct (map iID (allDatasets st)) \<longleftrightarrow> inj_on (iID \<circ> snd \<circ> snd) (set (catTriples st))"
    unfolding allDatasets_triples map_map
    using distinct_triples [OF distinct_sorted_list_of_fmap] by (simp add: distinct_map o_assoc)
  also have "\<dots> \<longleftrightarrow> (\<forall>bn n d bn' n' d'. catEntry st bn n d \<and> catEntry st bn' n' d' \<and> iID d = iID d' \<longrightarrow> bn = bn' \<and> n = n')"
    unfolding inj_on_def set_catTriples [symmetric]
  proof (intro iffI allI impI ballI)
    fix bn n d bn' n' d'
    assume "\<forall>x \<in> set (catTriples st). \<forall>y \<in> set (catTriples st). (iID \<circ> snd \<circ> snd) x = (iID \<circ> snd \<circ> snd) y \<longrightarrow> x = y"
      and "(bn, n, d) \<in> set (catTriples st) \<and> (bn', n', d') \<in> set (catTriples st) \<and> iID d = iID d'"
    then show "bn = bn' \<and> n = n'" by fastforce
  next
    fix x y
    assume u: "\<forall>bn n d bn' n' d'. (bn, n, d) \<in> set (catTriples st) \<and> (bn', n', d') \<in> set (catTriples st) \<and> iID d = iID d' \<longrightarrow> bn = bn' \<and> n = n'"
      and xy: "x \<in> set (catTriples st)" "y \<in> set (catTriples st)" "(iID \<circ> snd \<circ> snd) x = (iID \<circ> snd \<circ> snd) y"
    obtain bn n d bn' n' d' where e: "x = (bn, n, d)" "y = (bn', n', d')" by (metis prod_cases3)
    then have eq: "bn = bn'" "n = n'" using u xy by fastforce+
    then have "catEntry st bn n d" "catEntry st bn n d'" using xy(1,2) e by (auto simp: set_catTriples)
    then show "x = y" using e eq by (auto simp: catEntry_def)
  qed
  finally show ?thesis .
qed

section \<open>What the validation checks\<close>

definition topology_ok :: "catalogState \<Rightarrow> bool" where
  "topology_ok st \<longleftrightarrow>
     DatabaseID st \<noteq> [] \<and> NextDatasetID st \<noteq> 0 \<and> Buckets st \<noteq> None
     \<and> (\<forall>bn b. fmlookup (mapOf (Buckets st)) bn = Some b \<longrightarrow> validCatalogName ''bucket'' bn = None \<and> Datasets b \<noteq> None)
     \<and> (\<forall>bn n d. catEntry st bn n d \<longrightarrow> \<not> invalidDataset st bn n d)
     \<and> distinct (map iID (allDatasets st))"

definition records_ok :: "catalogState \<Rightarrow> (bytes, bytes) fmap \<Rightarrow> bool" where
  "records_ok st recs \<longleftrightarrow>
     (\<forall>k v. fmlookup recs k = Some v \<longrightarrow>
        (\<exists>d \<in> set (allDatasets st). backendDatasetID k = Some (iID d)
           \<and> int (length v) \<le> bMaxValueBytes (iBounds d)
           \<and> int (length (datasetEntries recs (iID d))) \<le> bMaxRecords (iBounds d)))"

lemma checkDatasets_iff:
  "checkDatasets st bn ds ids = Inr ids' \<longleftrightarrow>
     (\<forall>(n, d) \<in> set ds. \<not> invalidDataset st bn n d \<and> fmlookup ids (iID d) = None)
     \<and> distinct (map (iID \<circ> snd) ds) \<and> ids' = fold (\<lambda>(n, d). fmupd (iID d) d) ds ids"
proof (induction ds arbitrary: ids)
  case (Cons x ds)
  obtain n d where x: "x = (n, d)" by (cases x)
  show ?case using Cons [of "fmupd (iID d) d ids"] unfolding x by (auto split: if_splits simp: image_iff)
qed auto

lemma lookup_fold_ids:
  "fmlookup (fold (\<lambda>x. fmupd (f x) (g x)) xs ids) i = None \<longleftrightarrow> fmlookup ids i = None \<and> i \<notin> f ` set xs"
  by (induction xs arbitrary: ids) auto

lemma disjoint_split:
  "(\<And>y. c1 (f y) \<longleftrightarrow> c (f y) \<and> f y \<notin> F) \<Longrightarrow>
   (\<forall>y \<in> B. P y \<and> c1 (f y)) \<longleftrightarrow> (\<forall>y \<in> B. P y \<and> c (f y)) \<and> F \<inter> f ` B = {}"
  by auto

lemma checkBuckets_iff:
  "checkBuckets st bs ids = Inr ids' \<longleftrightarrow>
     (\<forall>(bn, b) \<in> set bs. validCatalogName ''bucket'' bn = None \<and> Datasets b \<noteq> None)
     \<and> (\<forall>x \<in> set (bucketTriples bs). \<not> invalidDataset st (fst x) (fst (snd x)) (snd (snd x)) \<and> fmlookup ids (iID (snd (snd x))) = None)
     \<and> distinct (map (\<lambda>x. iID (snd (snd x))) (bucketTriples bs))
     \<and> ids' = fold (\<lambda>x. fmupd (iID (snd (snd x))) (snd (snd x))) (bucketTriples bs) ids"
proof (induction bs arbitrary: ids)
  case Nil
  then show ?case by (auto simp: bucketTriples_def)
next
  case (Cons x bs)
  obtain bn b where x: "x = (bn, b)" by (cases x)
  let ?ds = "sorted_list_of_fmap (bucketDatasets b)" and ?f = "\<lambda>x. iID (snd (snd x))"
  let ?t = "map (\<lambda>(n, d). (bn, n, d)) ?ds"
  have t: "bucketTriples (x # bs) = ?t @ bucketTriples bs" by (simp add: bucketTriples_def x)
  have f: "fold (\<lambda>(n, d). fmupd (iID d) d) ?ds ids = fold (\<lambda>x. fmupd (?f x) (snd (snd x))) ?t ids"
    by (simp add: fold_map o_def case_prod_unfold)
  have m: "map (iID \<circ> snd) ?ds = map ?f ?t" by (simp add: o_def case_prod_unfold)
  have i: "(\<forall>(n, d) \<in> set ?ds. \<not> invalidDataset st bn n d \<and> fmlookup ids (iID d) = None)
      \<longleftrightarrow> (\<forall>x \<in> set ?t. \<not> invalidDataset st (fst x) (fst (snd x)) (snd (snd x)) \<and> fmlookup ids (?f x) = None)"
    by (auto simp: case_prod_unfold)
  show ?case
  proof (cases "checkDatasets st bn ?ds ids")
    case (Inl e)
    then have "\<not> ((\<forall>(n, d) \<in> set ?ds. \<not> invalidDataset st bn n d \<and> fmlookup ids (iID d) = None) \<and> distinct (map (iID \<circ> snd) ?ds))"
      using checkDatasets_iff [of st bn ?ds ids] by auto
    then have n: "\<not> ((\<forall>x \<in> set ?t. \<not> invalidDataset st (fst x) (fst (snd x)) (snd (snd x)) \<and> fmlookup ids (?f x) = None) \<and> distinct (map ?f ?t))"
      unfolding i m .
    have "checkBuckets st (x # bs) ids \<noteq> Inr ids'" using Inl x by simp
    then show ?thesis
      unfolding t map_append distinct_append set_append ball_Un using n by blast
  next
    case (Inr ids1)
    from checkDatasets_iff [of st bn ?ds ids ids1] Inr
    have 1: "\<forall>x \<in> set ?t. \<not> invalidDataset st (fst x) (fst (snd x)) (snd (snd x)) \<and> fmlookup ids (?f x) = None"
      "distinct (map ?f ?t)" "ids1 = fold (\<lambda>x. fmupd (?f x) (snd (snd x))) ?t ids"
      unfolding i m f by auto
    let ?B = "bucketTriples bs"
    have "fmlookup ids1 (?f y) = None \<longleftrightarrow> fmlookup ids (?f y) = None \<and> ?f y \<notin> ?f ` set ?t" for y
      unfolding 1(3) by (rule lookup_fold_ids)
    note 2 = this
    have 2: "(\<forall>y \<in> set ?B. P y \<and> fmlookup ids1 (?f y) = None) \<longleftrightarrow>
        (\<forall>y \<in> set ?B. P y \<and> fmlookup ids (?f y) = None) \<and> set (map ?f ?t) \<inter> set (map ?f ?B) = {}" for P
      unfolding set_map [of ?f] by (rule disjoint_split [where ?c1.0 = "\<lambda>i. fmlookup ids1 i = None" and c = "\<lambda>i. fmlookup ids i = None" and f = ?f, OF 2])
    have 3: "checkBuckets st (x # bs) ids = Inr ids' \<longleftrightarrow>
        (validCatalogName ''bucket'' bn = None \<and> Datasets b \<noteq> None) \<and> checkBuckets st bs ids1 = Inr ids'"
      using Inr x by simp
    have 4: "h \<and> v \<and> (d \<and> j) \<and> e \<and> q \<longleftrightarrow> (h \<and> v) \<and> (D \<and> d) \<and> (E \<and> e \<and> j) \<and> q" if D E for h v d j e q D E
      using that by blast
    have 5: "(\<forall>(bn, b) \<in> set (x # bs). validCatalogName ''bucket'' bn = None \<and> Datasets b \<noteq> None) \<longleftrightarrow>
        (validCatalogName ''bucket'' bn = None \<and> Datasets b \<noteq> None)
        \<and> (\<forall>(bn, b) \<in> set bs. validCatalogName ''bucket'' bn = None \<and> Datasets b \<noteq> None)"
      by (simp add: x)
    show ?thesis
      unfolding 3 Cons.IH 2 5 t map_append distinct_append fold_append o_apply 1(3) [symmetric] set_append ball_Un
      by (rule 4 [OF 1(1,2)])
  qed
qed

lemma checkRecords_iff:
  "checkRecords ids kvs counts = None \<longleftrightarrow>
     (\<forall>(k, v) \<in> set kvs. \<exists>i d. backendDatasetID k = Some i \<and> fmlookup ids i = Some d
        \<and> int (length v) \<le> bMaxValueBytes (iBounds d)
        \<and> countOf counts i + int (length (filter (\<lambda>(k, v). backendDatasetID k = Some i) kvs)) \<le> bMaxRecords (iBounds d))"
proof (induction kvs arbitrary: counts)
  case (Cons kv kvs)
  obtain k v where kv: "kv = (k, v)" by (cases kv)
  let ?n = "\<lambda>i xs. int (length (filter (\<lambda>(k, v). backendDatasetID k = Some i) xs))"
  show ?case
  proof (cases "\<exists>i d. backendDatasetID k = Some i \<and> fmlookup ids i = Some d")
    case False
    then show ?thesis by (auto simp: kv split: option.splits)
  next
    case True
    then obtain i d where id: "backendDatasetID k = Some i" "fmlookup ids i = Some d" by blast
    let ?c = "fmupd i (countOf counts i + 1) counts"
    have n: "countOf ?c j + ?n j kvs = countOf counts j + ?n j (kv # kvs)" for j
      using id(1) by (simp add: kv countOf_def)
    let ?R = "\<forall>(k, v) \<in> set kvs. \<exists>i d. backendDatasetID k = Some i \<and> fmlookup ids i = Some d
        \<and> int (length v) \<le> bMaxValueBytes (iBounds d) \<and> countOf counts i + ?n i (kv # kvs) \<le> bMaxRecords (iBounds d)"
    have n1: "?n i (kv # kvs) = 1 + ?n i kvs" using id(1) by (simp add: kv)
    have last: "countOf counts i + 1 \<le> bMaxRecords (iBounds d) \<longleftrightarrow> countOf counts i + ?n i (kv # kvs) \<le> bMaxRecords (iBounds d)" if ?R
    proof (cases "filter (\<lambda>(k, v). backendDatasetID k = Some i) kvs")
      case (Cons y ys)
      then have "y \<in> set (filter (\<lambda>(k, v). backendDatasetID k = Some i) kvs)" by (simp only: list.set_intros)
      then have "y \<in> set kvs" "backendDatasetID (fst y) = Some i" by (simp_all add: case_prod_unfold)
      with that id have "countOf counts i + ?n i (kv # kvs) \<le> bMaxRecords (iBounds d)" by fastforce
      then show ?thesis using n1 by linarith
    qed (use n1 in simp)
    have "checkRecords ids (kv # kvs) counts = None \<longleftrightarrow>
        int (length v) \<le> bMaxValueBytes (iBounds d) \<and> countOf counts i + 1 \<le> bMaxRecords (iBounds d) \<and> ?R"
      using Cons.IH [of ?c] id unfolding n by (auto simp: kv)
    also have "\<dots> \<longleftrightarrow> int (length v) \<le> bMaxValueBytes (iBounds d)
        \<and> countOf counts i + ?n i (kv # kvs) \<le> bMaxRecords (iBounds d) \<and> ?R" using last by blast
    finally show ?thesis using id by (simp add: kv)
  qed
qed simp


lemma lookup_fold_distinct:
  "distinct (map f xs) \<Longrightarrow>
   fmlookup (fold (\<lambda>x. fmupd (f x) (g x)) xs m) i = Some d \<longleftrightarrow>
     (\<exists>x \<in> set xs. f x = i \<and> g x = d) \<or> i \<notin> f ` set xs \<and> fmlookup m i = Some d"
proof (induction xs arbitrary: m)
  case (Cons x xs)
  then have "f x \<notin> f ` set xs" "distinct (map f xs)" by auto
  then show ?case using Cons.IH [of "fmupd (f x) (g x) m"] by (auto split: if_splits)
qed simp

lemma topology_ok_triples:
  "topology_ok st \<longleftrightarrow>
     \<not> (DatabaseID st = [] \<or> NextDatasetID st = 0 \<or> Buckets st = None)
     \<and> (\<forall>(bn, b) \<in> set (sorted_list_of_fmap (mapOf (Buckets st))). validCatalogName ''bucket'' bn = None \<and> Datasets b \<noteq> None)
     \<and> (\<forall>x \<in> set (catTriples st). \<not> invalidDataset st (fst x) (fst (snd x)) (snd (snd x)))
     \<and> distinct (map (\<lambda>x. iID (snd (snd x))) (catTriples st))"
proof -
  have "(\<forall>(bn, b) \<in> set (sorted_list_of_fmap m). P bn b) \<longleftrightarrow> (\<forall>bn b. fmlookup m bn = Some b \<longrightarrow> P bn b)"
    for m :: "(bytes, catalogBucket) fmap" and P
    by (auto simp: lookup_sorted_list)
  moreover have "(\<forall>x \<in> set (catTriples st). \<not> invalidDataset st (fst x) (fst (snd x)) (snd (snd x))) \<longleftrightarrow>
      (\<forall>bn n d. catEntry st bn n d \<longrightarrow> \<not> invalidDataset st bn n d)"
    unfolding set_catTriples [symmetric] by fastforce
  ultimately show ?thesis by (simp add: topology_ok_def allDatasets_triples o_def)
qed

theorem validateCatalogState_iff:
  "validateCatalogState st db = None \<longleftrightarrow> topology_ok st \<and> records_ok st (records db)"
proof (cases "checkBuckets st (sorted_list_of_fmap (mapOf (Buckets st))) fmempty")
  case (Inl e)
  then have "\<not> topology_ok st"
    using checkBuckets_iff [of st "sorted_list_of_fmap (mapOf (Buckets st))" fmempty
        "fold (\<lambda>x. fmupd (iID (snd (snd x))) (snd (snd x))) (catTriples st) fmempty"]
    unfolding topology_ok_triples by simp
  then show ?thesis using Inl by (simp add: validateCatalogState_def)
next
  case (Inr ids)
  let ?x = "catTriples st" and ?f = "\<lambda>x :: bytes \<times> bytes \<times> DatasetInfo. iID (snd (snd x))"
  from checkBuckets_iff [THEN iffD1, OF Inr]
  have c: "\<forall>(bn, b) \<in> set (sorted_list_of_fmap (mapOf (Buckets st))). validCatalogName ''bucket'' bn = None \<and> Datasets b \<noteq> None"
    "\<forall>x \<in> set ?x. \<not> invalidDataset st (fst x) (fst (snd x)) (snd (snd x))"
    and d: "distinct (map ?f ?x)" and i: "ids = fold (\<lambda>x. fmupd (?f x) (snd (snd x))) ?x fmempty"
    by blast+
  have t: "topology_ok st \<longleftrightarrow> \<not> (DatabaseID st = [] \<or> NextDatasetID st = 0 \<or> Buckets st = None)"
    using c d unfolding topology_ok_triples by blast
  have l: "fmlookup ids i = Some d \<longleftrightarrow> d \<in> set (allDatasets st) \<and> iID d = i" for i d
    unfolding i lookup_fold_distinct [OF d] allDatasets_triples by auto
  have "checkRecords ids (sorted_list_of_fmap (records db)) fmempty = None \<longleftrightarrow> records_ok st (records db)"
    unfolding checkRecords_iff records_ok_def l
    by (fastforce simp: lookup_sorted_list datasetEntries_def countOf_def)
  then show ?thesis using Inr by (simp add: validateCatalogState_def t)
qed

section \<open>Counting the records of a dataset\<close>

lemma alist_eq:
  "map fst xs = map fst ys \<Longrightarrow> distinct (map fst xs) \<Longrightarrow> set xs = set ys \<Longrightarrow> xs = ys"
proof -
  assume k: "map fst xs = map fst ys" "distinct (map fst xs)" "set xs = set ys"
  then have "map_of xs = map_of ys" by (simp add: map_of_inject_set)
  then have "zip (map fst xs) (map (the \<circ> map_of xs) (map fst xs)) = zip (map fst ys) (map (the \<circ> map_of ys) (map fst ys))"
    using k(1) by simp
  moreover have "zip (map fst zs) (map (the \<circ> map_of zs) (map fst zs)) = zs" if "distinct (map fst zs)"
    for zs :: "('a \<times> 'b) list"
    using that by (intro nth_equalityI) (auto simp: map_of_eq_Some_iff prod_eq_iff, metis map_of_is_SomeI nth_mem option.sel prod.collapse)
  ultimately show "xs = ys" using k by metis
qed

lemma datasetEntries_cong:
  assumes "\<And>k. fmlookup a (backendRecordKey i k) = fmlookup b (backendRecordKey i k)"
  shows "datasetEntries a i = datasetEntries b i"
proof -
  have s: "set (datasetEntries a i) = set (datasetEntries b i)"
    using assms set_datasetEntries by (metis (no_types, lifting) surj_pair subsetI subset_antisym)
  then have "map fst (datasetEntries a i) = map fst (datasetEntries b i)"
    using sorted_datasetEntries by (intro sorted_distinct_set_eq) (auto simp: image_iff)
  then show ?thesis using alist_eq s sorted_datasetEntries(2) by metis
qed

abbreviation inDataset :: "u64 \<Rightarrow> bytes \<Rightarrow> bool" where
  "inDataset i k \<equiv> backendDatasetID k = Some i"

lemma length_datasetEntries: "length (datasetEntries recs i) = fmsize (fmfilter (inDataset i) recs)"
proof -
  have "length (datasetEntries recs i) = length (filter (inDataset i) (map fst (sorted_list_of_fmap recs)))"
    by (metis datasetEntries_keys length_map)
  also have "\<dots> = card (set (filter (inDataset i) (map fst (sorted_list_of_fmap recs))))"
    by (rule distinct_card [symmetric]) (simp only: distinct_filter distinct_sorted_list_of_fmap)
  also have "set (filter (inDataset i) (map fst (sorted_list_of_fmap recs))) = fset (fmdom (fmfilter (inDataset i) recs))"
    unfolding set_filter set_sorted_keys by auto
  finally show ?thesis by (simp add: fmsize_def fcard.rep_eq)
qed

lemma filter_applyMutations:
  "fmfilter P (applyMutations ms recs) = applyMutations (filter (\<lambda>m. P (mKey m)) ms) (fmfilter P recs)"
proof (induction ms arbitrary: recs)
  case (Cons m ms)
  have "fmfilter P (fmdrop k recs) = (if P k then fmdrop k (fmfilter P recs) else fmfilter P recs)"
    "fmfilter P (fmupd k v recs) = (if P k then fmupd k v (fmfilter P recs) else fmfilter P recs)" for k v
    by (auto intro!: fmap_ext)
  then show ?case unfolding applyMutations.simps Cons.IH by simp
qed (unfold applyMutations.simps, simp)

lemma countOf_fmupd [simp]: "countOf (fmupd i n c) j = (if i = j then n else countOf c j)"
  by (simp add: countOf_def)

lemma countOf_records:
  "countOf (fold countRecord ks c) i = countOf c i + int (length (filter (inDataset i) ks))"
  by (induction ks arbitrary: c) (auto simp: countRecord_def split: option.split)

lemma countOf_writes:
  "countOf (fold (countWrite recs) kvs c) i =
     countAfter (fmfilter (inDataset i) recs) (filter (\<lambda>m. inDataset i (mKey m)) (map mutationOf kvs)) (countOf c i)"
  by (induction kvs arbitrary: c) (auto simp: countWrite_def Let_def split: option.split)

lemma countOf_validate:
  "countOf (fold (countWrite recs) (sorted_list_of_fmap ws) (fold countRecord (map fst (sorted_list_of_fmap recs)) fmempty)) i
     = int (length (datasetEntries (applyMutations (mutationsOf ws) recs) i))"
proof -
  let ?ms = "filter (\<lambda>m. inDataset i (mKey m)) (mutationsOf ws)"
  have d: "distinct (map mKey ?ms)" by (rule distinct_map_filter) simp
  have "length (filter (inDataset i) (map fst (sorted_list_of_fmap recs))) = fmsize (fmfilter (inDataset i) recs)"
    using length_datasetEntries [of recs i] by (metis datasetEntries_keys length_map)
  then show ?thesis
    unfolding countOf_writes countOf_records length_datasetEntries filter_applyMutations size_applyMutations [OF d]
    by (simp add: countOf_def mutationsOf_def)
qed

theorem validateDatasetBounds_iff:
  "validateDatasetBounds db tx = None \<longleftrightarrow>
     (\<forall>d \<in> set (allDatasets (catalog db)).
        int (length (datasetEntries (applyMutations (mutationsOf (writes tx)) (records db)) (iID d))) \<le> bMaxRecords (iBounds d))"
  unfolding validateDatasetBounds_def Let_def countOf_validate by (auto simp: list_ex_iff not_le)


section \<open>Transactions\<close>

text \<open>A handle of this database whose entry is in the catalog; a handle of another database is refused.\<close>

definition handle_ok :: "'a Database_scheme \<Rightarrow> Dataset \<Rightarrow> bool" where
  "handle_ok db d \<longleftrightarrow> (dsDB d = self db \<longrightarrow> dsInfo d \<in> set (allDatasets (catalog db)))"

definition write_ok :: "catalogState \<Rightarrow> bytes \<Rightarrow> bytes option \<Rightarrow> bool" where
  "write_ok st k w \<longleftrightarrow>
     (\<exists>d \<in> set (allDatasets st). inDataset (iID d) k \<and> (\<forall>v. w = Some v \<longrightarrow> int (length v) \<le> bMaxValueBytes (iBounds d)))"

definition writes_ok :: "catalogState \<Rightarrow> KeyedTx \<Rightarrow> bool" where
  "writes_ok st tx \<longleftrightarrow> (\<forall>k w. fmlookup (writes tx) k = Some w \<longrightarrow> write_ok st k w)"

lemma writes_ok_newTx [simp]: "writes_ok st newTx"
  by (simp add: writes_ok_def newTx_def)

lemma writes_ok_upd:
  "writes_ok st tx \<Longrightarrow> write_ok st k w \<Longrightarrow> writes_ok st (tx\<lparr>writes := fmupd k w (writes tx)\<rparr>)"
  by (simp add: writes_ok_def)

lemma ctx_Put_writes:
  assumes "writes_ok (catalog db) tx" "\<forall>x. ds = Some x \<longrightarrow> handle_ok db x" "ctx_Put db tx ds key v = (e, tx')"
  shows "writes_ok (catalog db) tx'"
proof (cases "validDataset db tx ds key ''put''")
  case None
  from validDataset_None [OF None] obtain d where d: "ds = Some d" "dsDB d = self db" by blast
  then have "dsInfo d \<in> set (allDatasets (catalog db))" using assms(2) by (simp add: handle_ok_def)
  then have "write_ok (catalog db) (backendRecordKey (iID (dsInfo d)) key) (Some b)"
    if "int (length b) \<le> bMaxValueBytes (iBounds (dsInfo d))" for b
    using that by (auto simp: write_ok_def)
  then show ?thesis using assms(1,3) None d(1)
    by (auto simp: ctx_Put_def Let_def split: option.splits if_splits intro!: writes_ok_upd)
qed (use assms in \<open>simp add: ctx_Put_def\<close>)

lemma ctx_Delete_writes:
  assumes "writes_ok (catalog db) tx" "\<forall>x. ds = Some x \<longrightarrow> handle_ok db x" "ctx_Delete db tx ds key = (e, tx')"
  shows "writes_ok (catalog db) tx'"
proof (cases "validDataset db tx ds key ''delete''")
  case None
  from validDataset_None [OF None] obtain d where d: "ds = Some d" "dsDB d = self db" by blast
  then have "dsInfo d \<in> set (allDatasets (catalog db))" using assms(2) by (simp add: handle_ok_def)
  then have "write_ok (catalog db) (backendRecordKey (iID (dsInfo d)) key) None" by (auto simp: write_ok_def)
  then show ?thesis using assms(1,3) None d(1) by (auto simp: ctx_Delete_def intro!: writes_ok_upd)
qed (use assms in \<open>simp add: ctx_Delete_def\<close>)

lemma runCatalog_writes:
  "writes_ok (catalog db) tx \<Longrightarrow> progAll (handle_ok db) p \<Longrightarrow> writes_ok (catalog db) (snd (runCatalog p db tx))"
  by (rule runCatalog_keeps [where Q = "handle_ok db"]) (auto intro: ctx_Put_writes ctx_Delete_writes)

text \<open>What a transaction that returned leaves is admissible for the next opening.\<close>

lemma records_ok_commit:
  assumes "records_ok (catalog db) (records db)" "writes_ok (catalog db) tx" "validateDatasetBounds db tx = None"
  shows "records_ok (catalog db) (applyMutations (mutationsOf (writes tx)) (records db))"
  unfolding records_ok_def
proof (intro allI impI)
  let ?r = "applyMutations (mutationsOf (writes tx)) (records db)"
  fix k v assume "fmlookup ?r k = Some v"
  then have "\<exists>d \<in> set (allDatasets (catalog db)). inDataset (iID d) k \<and> int (length v) \<le> bMaxValueBytes (iBounds d)"
    using assms(1,2) unfolding lookup_apply_mutationsOf records_ok_def writes_ok_def write_ok_def
    by (cases "fmlookup (writes tx) k") fastforce+
  then show "\<exists>d \<in> set (allDatasets (catalog db)). backendDatasetID k = Some (iID d) \<and> int (length v) \<le> bMaxValueBytes (iBounds d)
      \<and> int (length (datasetEntries ?r (iID d))) \<le> bMaxRecords (iBounds d)"
    using assms(3) unfolding validateDatasetBounds_iff by blast
qed

lemma catalogMutation_records:
  assumes "records_ok (catalog db) (records db)" "progAll (handle_ok db) p"
    and "catalogMutation p db newTx = (Returned v, tx)"
  shows "records_ok (catalog db) (applyMutations (mutationsOf (writes tx)) (records db))"
proof -
  obtain out tx' where r: "runCatalog p db newTx = (out, tx')" by fastforce
  then have "tx = tx'" "validateDatasetBounds db tx = None"
    using assms(3) by (auto simp: catalogMutation_def split: tx_outcome.splits option.splits)
  moreover have "writes_ok (catalog db) tx'" using runCatalog_writes [OF _ assms(2), of newTx] r by simp
  ultimately show ?thesis using records_ok_commit [OF assms(1)] by simp
qed

lemma executeCatalog_records:
  assumes "executeKeyed db (catalogRequest c command p) = ExecPersist r"
    and "records_ok (catalog db) (records db)" "progAll (handle_ok db) p"
  shows "records_ok (catalog db) (records (applyPlain r db))"
proof -
  let ?m = "catalogMutation p"
  obtain out tx where run: "?m db newTx = (out, tx)" by fastforce
  then have "runKeyedMutation db newTx ?m = (out, tx\<lparr>invalid := True\<rparr>)" by (simp add: runKeyedMutation_def)
  from executeKeyed_record [OF assms(1) _ this]
  have "rApplied r = False \<or> (\<exists>v. out = Returned v) \<and> rMutations r = mutationsOf (writes tx)"
    by (auto simp: catalogRequest_def)
  then show ?thesis
  proof
    assume "rApplied r = False"
    then show ?thesis using assms(2) by simp
  next
    assume "(\<exists>v. out = Returned v) \<and> rMutations r = mutationsOf (writes tx)"
    then show ?thesis using catalogMutation_records [OF assms(2,3)] run assms(2) by auto
  qed
qed

end
