(* ===== verification/Catalog_Keep.thy ===== *)
theory Catalog_Keep
  imports Catalog_Inv Keyed_Invariant
begin

text \<open>
  The catalog operations keep the invariant of the catalog database: commit groups of catalog
  commands, the creation of buckets and datasets, whichever storage call fails. What opening accepts
  has the part of the invariant that is about the catalog.
\<close>

section \<open>The invariant\<close>

definition cat_inv :: "'a Database_scheme \<Rightarrow> bool" where
  "cat_inv db \<longleftrightarrow>
     keyed_inv db \<and> format db = catalogKeyedFormatContents \<and> query_inv db
     \<and> topology_ok (catalog db) \<and> records_ok (catalog db) (records db)
     \<and> (\<forall>d \<in> set (allDatasets (catalog db)). bMaxValueBytes (iBounds d) \<le> MaxValueBytes (options db))"

definition ownHandle :: "'a Database_scheme \<Rightarrow> Dataset \<Rightarrow> bool" where
  "ownHandle db d \<longleftrightarrow> dsDB d = self db \<and> dsInfo d \<in> set (allDatasets (catalog db))"

definition ownRequest :: "'a Database_scheme \<Rightarrow> 'a Database_scheme keyedCommitRequest \<Rightarrow> bool" where
  "ownRequest db q \<longleftrightarrow> (\<exists>c command p. q = catalogRequest c command p \<and> progAll (ownHandle db) p)"

lemma progAll_mono: "progAll P p \<Longrightarrow> (\<And>d. P d \<Longrightarrow> Q d) \<Longrightarrow> progAll Q p"
  by (induction p) auto

lemma ownRequest_ok: "cat_inv db \<Longrightarrow> ownRequest db q \<Longrightarrow> request_ok (config db) q"
  by (auto simp: ownRequest_def config_def cat_inv_def ownHandle_def bounded_def intro!: catalogRequest_ok elim!: progAll_mono)

lemma ownRequest_cong: "self a = self b \<Longrightarrow> catalog a = catalog b \<Longrightarrow> ownRequest a q = ownRequest b q"
  by (simp add: ownRequest_def ownHandle_def [abs_def])

section \<open>Commit groups\<close>

lemma afterApply_catalog [simp]: "afterApply catalogHooks = applyQueryKeyMutations"
  by (simp add: catalogHooks_def)

lemma append_catalog:
  "appendKeyedFrame hooks r db w = (e, db', w') \<Longrightarrow>
   catalog db' = catalog db \<and> self db' = self db \<and> queryKeys db' = queryKeys db \<and> dstate db' = dstate db"
  by (auto simp: appendKeyedFrame_def Let_def dstate_def split: option.splits prod.splits if_splits)

lemma apply_catalog [simp]:
  "catalog (applyKeyed applyQueryKeyMutations r db) = catalog db"
  "self (applyKeyed applyQueryKeyMutations r db) = self db"
  "records (applyKeyed applyQueryKeyMutations r db) = records (applyPlain r db)"
  by (simp_all add: applyKeyed_def applyQueryKeyMutations_def Let_def)

lemma query_inv_cong: "queryKeys a = queryKeys b \<Longrightarrow> records a = records b \<Longrightarrow> query_inv a = query_inv b"
  by (simp add: query_inv_def)

lemma cat_inv_cong:
  "cat_inv a \<Longrightarrow> dstate b = dstate a \<Longrightarrow> catalog b = catalog a \<Longrightarrow> queryKeys b = queryKeys a \<Longrightarrow> cat_inv b"
  using keyed_inv_cong [of b a] dstateD [of b a] query_inv_cong [of b a] by (simp add: cat_inv_def)

lemma commitOne_catalog:
  assumes i: "cat_inv (gDB g)" "ownRequest (gDB g) q" "unat (sequence (gDB g)) + 1 < 2 ^ 64"
  shows "cat_inv (gDB (commitOne catalogHooks q g)) \<and> catalog (gDB (commitOne catalogHooks q g)) = catalog (gDB g)
    \<and> self (gDB (commitOne catalogHooks q g)) = self (gDB g)
    \<and> unat (sequence (gDB (commitOne catalogHooks q g))) \<le> unat (sequence (gDB g)) + 1"
proof (cases "attempt (gDB g) q")
  case None
  then show ?thesis using i by (simp add: commitOne_no_attempt)
next
  case (Some r)
  let ?g = "commitOne catalogHooks q g"
  obtain e db1 w1 where a: "appendKeyedFrame catalogHooks r (gDB g) (gWorld g) = (e, db1, w1)" by (metis prod_cases3)
  note ac = append_catalog [OF a]
  have k: "keyed_inv (gDB ?g)" "unat (sequence (gDB ?g)) \<le> unat (sequence (gDB g)) + 1"
    using commitOne_inv [OF hook_ok_catalog _ ownRequest_ok [OF i(1,2)] i(3)] i(1) by (simp_all add: cat_inv_def)
  have f: "format (gDB ?g) = catalogKeyedFormatContents" "options (gDB ?g) = options (gDB g)"
    using commitOne_config [OF hook_ok_catalog, of q g] i(1) by (simp_all add: config_def cat_inv_def)
  have db: "gDB ?g = (case e of None \<Rightarrow> applyKeyed applyQueryKeyMutations r db1 | Some _ \<Rightarrow> db1\<lparr>poisoned := True\<rparr>)"
    by (cases e) (simp_all add: commitOne_attempt(3) [OF Some] a Let_def)
  obtain c command p where q: "q = catalogRequest c command p" "progAll (ownHandle (gDB g)) p"
    using i(2) by (auto simp: ownRequest_def)
  have "progAll (handle_ok (gDB g)) p" by (rule progAll_mono [OF q(2)]) (simp add: ownHandle_def handle_ok_def)
  then have rec: "records_ok (catalog (gDB g)) (records (applyPlain r (gDB g)))"
    using executeCatalog_records [OF commitOne_attempt(1) [OF Some, unfolded q(1)]] i(1) unfolding cat_inv_def by blast
  have q1: "query_inv db1" "records db1 = records (gDB g)"
    using i(1) query_inv_cong [of db1 "gDB g"] ac dstateD [of db1 "gDB g"] by (simp_all add: cat_inv_def)
  then have "records (applyPlain r db1) = records (applyPlain r (gDB g))"
    using dstateD [OF dstate_applyPlain, of db1 "gDB g" r] ac by simp
  then have "catalog (gDB ?g) = catalog (gDB g)" "self (gDB ?g) = self (gDB g)" "query_inv (gDB ?g)"
    "records_ok (catalog (gDB g)) (records (gDB ?g))"
    using ac q1 rec query_inv_apply [OF q1(1), of r] query_inv_cong [of "db1\<lparr>poisoned := True\<rparr>" db1] i(1)
    by (auto simp: db cat_inv_def split: option.splits)
  then show ?thesis using k f i(1) by (simp add: cat_inv_def)
qed

lemma fold_commitOne_catalog:
  assumes "cat_inv (gDB g)" "list_all (ownRequest (gDB g)) qs" "unat (sequence (gDB g)) + length qs < 2 ^ 64"
  shows "cat_inv (gDB (fold (commitOne catalogHooks) qs g))
    \<and> catalog (gDB (fold (commitOne catalogHooks) qs g)) = catalog (gDB g)
    \<and> self (gDB (fold (commitOne catalogHooks) qs g)) = self (gDB g)"
  using assms
proof (induction qs arbitrary: g)
  case (Cons q qs)
  let ?g = "commitOne catalogHooks q g"
  have s: "cat_inv (gDB ?g)" "catalog (gDB ?g) = catalog (gDB g)" "self (gDB ?g) = self (gDB g)"
    "unat (sequence (gDB ?g)) \<le> unat (sequence (gDB g)) + 1"
    using commitOne_catalog [of g q] Cons.prems by auto
  then have "list_all (ownRequest (gDB ?g)) qs" using Cons.prems(2) ownRequest_cong [OF s(3,2)] by (auto simp: list_all_iff)
  then show ?case using Cons.IH [of ?g] s Cons.prems(3) by simp
qed simp

lemma group_frame:
  "processCommitGroup hooks qs db w = (results, db', w') \<Longrightarrow>
   catalog db' = catalog (gDB (fold (commitOne hooks) qs (groupStart db w qs)))
   \<and> queryKeys db' = queryKeys (gDB (fold (commitOne hooks) qs (groupStart db w qs)))
   \<and> self db' = self (gDB (fold (commitOne hooks) qs (groupStart db w qs)))"
  by (auto simp: processCommitGroup_def groupFinish_def Let_def split: prod.splits option.splits if_splits)

lemma group_catalog:
  assumes "cat_inv db" "list_all (ownRequest db) qs" "unat (sequence db) + length qs < 2 ^ 64"
    and "processCommitGroup catalogHooks qs db w = (results, db', w')"
  shows "cat_inv db' \<and> catalog db' = catalog db \<and> self db' = self db"
proof -
  let ?G = "fold (commitOne catalogHooks) qs (groupStart db w qs)"
  have "cat_inv (gDB ?G) \<and> catalog (gDB ?G) = catalog db \<and> self (gDB ?G) = self db"
    using fold_commitOne_catalog [of "groupStart db w qs" qs] assms(1-3) by (simp add: groupStart_def)
  moreover note group_frame [OF assms(4)] processCommitGroup_dstate [OF assms(4)]
  ultimately show ?thesis using cat_inv_cong [of "gDB ?G" db'] by simp
qed

section \<open>Buckets and datasets\<close>

lemma bucketDatasets_clone: "fmlookup (mapOf (Buckets (cloneCatalogState st))) bn
  = map_option (\<lambda>b. \<lparr>Datasets = Some (bucketDatasets b)\<rparr>) (fmlookup (mapOf (Buckets st)) bn)"
  by (simp add: cloneCatalogState_def)

lemma catEntry_clone [simp]: "catEntry (cloneCatalogState st) = catEntry st"
  by (intro ext) (auto simp: catEntry_def bucketDatasets_clone)

lemma invalidDataset_cong: "NextDatasetID st' = NextDatasetID st \<Longrightarrow> invalidDataset st' = invalidDataset st"
  by (intro ext) (simp add: invalidDataset_def)

lemma records_ok_mono:
  "records_ok st recs \<Longrightarrow> set (allDatasets st) \<subseteq> set (allDatasets st') \<Longrightarrow> records_ok st' recs"
  unfolding records_ok_def by (meson subsetD)

text \<open>The catalogs the two operations write.\<close>

definition withBucket :: "bytes \<Rightarrow> catalogState \<Rightarrow> catalogState" where
  "withBucket name st =
     (let clone = cloneCatalogState st in
      clone\<lparr>Buckets := Some (fmupd name \<lparr>Datasets = Some fmempty\<rparr> (mapOf (Buckets clone)))\<rparr>)"

lemma catEntry_withBucket:
  "fmlookup (mapOf (Buckets st)) name = None \<Longrightarrow> catEntry (withBucket name st) = catEntry st"
  by (intro ext) (auto simp: catEntry_def withBucket_def Let_def bucketDatasets_clone)

lemma topology_withBucket:
  assumes "topology_ok st" "fmlookup (mapOf (Buckets st)) name = None" "validCatalogName ''bucket'' name = None"
  shows "topology_ok (withBucket name st)" "set (allDatasets (withBucket name st)) = set (allDatasets st)"
proof -
  note e = catEntry_withBucket [OF assms(2)]
  have n: "NextDatasetID (withBucket name st) = NextDatasetID st" "DatabaseID (withBucket name st) = DatabaseID st"
    "Buckets (withBucket name st) \<noteq> None"
    by (simp_all add: withBucket_def Let_def cloneCatalogState_def)
  have "validCatalogName ''bucket'' bn = None \<and> Datasets b \<noteq> None"
    if "fmlookup (mapOf (Buckets (withBucket name st))) bn = Some b" for bn b
    using that assms(1,3) by (auto simp: withBucket_def Let_def bucketDatasets_clone topology_ok_def split: if_splits)
  then show "topology_ok (withBucket name st)"
    using assms(1) unfolding topology_ok_def distinct_ids e n invalidDataset_cong [OF n(1)] using n(3) by blast
  show "set (allDatasets (withBucket name st)) = set (allDatasets st)" by (auto simp: set_allDatasets e)
qed

lemma poisoned_cat_inv: "cat_inv db \<Longrightarrow> cat_inv (db\<lparr>poisoned := True\<rparr>)"
  by (erule cat_inv_cong) (simp_all add: dstate_def)

lemma Database_Bucket_eq:
  "Database_Bucket c name db w =
     (case validCatalogName ''bucket'' name of
        Some e \<Rightarrow> (Inl e, db, w)
      | None \<Rightarrow>
          (case enter db c ''bucket'' of
             Some e \<Rightarrow> (Inl e, db, w)
           | None \<Rightarrow>
               if fmlookup (mapOf (Buckets (catalog db))) name = None then
                 (case persistCatalog (withBucket name (catalog db)) w of
                    (Some e, w1) \<Rightarrow> (Inl e, db\<lparr>poisoned := True\<rparr>, w1)
                  | (None, w1) \<Rightarrow> (Inr \<lparr>bkDB = self db, bkName = name\<rparr>, db\<lparr>catalog := withBucket name (catalog db)\<rparr>, w1))
               else (Inr \<lparr>bkDB = self db, bkName = name\<rparr>, db, w)))"
  unfolding Database_Bucket_def withBucket_def Let_def ..

lemma Database_Bucket_inv:
  assumes "cat_inv db" "Database_Bucket c name db w = (res, db', w')"
  shows "cat_inv db' \<and> self db' = self db \<and> set (allDatasets (catalog db')) = set (allDatasets (catalog db))"
proof -
  consider "db' = db" | "db' = db\<lparr>poisoned := True\<rparr>" | "db' = db\<lparr>catalog := withBucket name (catalog db)\<rparr>"
    "fmlookup (mapOf (Buckets (catalog db))) name = None" "validCatalogName ''bucket'' name = None"
  proof (cases "validCatalogName ''bucket'' name = None \<and> enter db c ''bucket'' = None \<and> fmlookup (mapOf (Buckets (catalog db))) name = None")
    case True
    obtain e w1 where p: "persistCatalog (withBucket name (catalog db)) w = (e, w1)" by fastforce
    show ?thesis
    proof (cases e)
      case None
      have "db' = db\<lparr>catalog := withBucket name (catalog db)\<rparr>" using assms(2) True p None by (simp add: Database_Bucket_eq)
      from that(3) [OF this] True show ?thesis by simp
    next
      case (Some x)
      have "db' = db\<lparr>poisoned := True\<rparr>" using assms(2) True p Some by (simp add: Database_Bucket_eq)
      then show ?thesis by (rule that(2))
    qed
  next
    case False
    have "db' = db"
      using assms(2) False
      by (cases "validCatalogName ''bucket'' name"; cases "enter db c ''bucket''"; cases "fmlookup (mapOf (Buckets (catalog db))) name")
        (simp_all add: Database_Bucket_eq)
    then show ?thesis by (rule that(1))
  qed
  then show ?thesis
  proof cases
    case 3
    have i: "keyed_inv db'" using assms(1) keyed_inv_cong [of db' db] by (simp add: 3(1) cat_inv_def dstate_def)
    have "query_inv db'" using assms(1) query_inv_cong [of db' db] by (simp add: 3(1) cat_inv_def)
    moreover note t = topology_withBucket [OF _ 3(2,3)]
    moreover have "records_ok (withBucket name (catalog db)) (records db)"
      using records_ok_mono [of "catalog db"] assms(1) t(2) by (simp add: cat_inv_def)
    ultimately show ?thesis using assms(1) i by (simp add: cat_inv_def 3(1))
  qed (use assms(1) poisoned_cat_inv in auto)
qed

definition withDataset :: "bytes \<Rightarrow> bytes \<Rightarrow> DatasetInfo \<Rightarrow> catalogBucket \<Rightarrow> catalogState \<Rightarrow> catalogState" where
  "withDataset bn name info nextBucket st =
     (let clone = cloneCatalogState st in
      clone\<lparr>NextDatasetID := NextDatasetID clone + 1,
            Buckets := Some (fmupd bn \<lparr>Datasets = Some (fmupd name info (bucketDatasets nextBucket))\<rparr>
                              (mapOf (Buckets clone)))\<rparr>)"

lemma catEntry_withDataset:
  assumes "fmlookup (mapOf (Buckets st)) bn = Some b" "fmlookup (bucketDatasets b) name = None"
    "bucketDatasets nb = bucketDatasets b"
  shows "catEntry (withDataset bn name info nb st) x y d \<longleftrightarrow> catEntry st x y d \<or> x = bn \<and> y = name \<and> d = info"
  using assms by (auto simp: catEntry_def withDataset_def Let_def bucketDatasets_clone)

lemma topology_withDataset:
  assumes t: "topology_ok st" and b: "fmlookup (mapOf (Buckets st)) bn = Some b" "fmlookup (bucketDatasets b) name = None"
    "bucketDatasets nb = bucketDatasets b" and i: "iID info = NextDatasetID st" "NextDatasetID st + 1 \<noteq> 0"
    and v: "\<And>st'. NextDatasetID st' = NextDatasetID st + 1 \<Longrightarrow> \<not> invalidDataset st' bn name info"
  shows "topology_ok (withDataset bn name info nb st)"
    "set (allDatasets (withDataset bn name info nb st)) = insert info (set (allDatasets st))"
proof -
  let ?st = "withDataset bn name info nb st"
  note e = catEntry_withDataset [OF b]
  have n: "NextDatasetID ?st = NextDatasetID st + 1" "DatabaseID ?st = DatabaseID st" "Buckets ?st \<noteq> None"
    by (simp_all add: withDataset_def Let_def cloneCatalogState_def)
  have lt: "NextDatasetID st < NextDatasetID st + 1" using i(2) by (rule u64_succ_less)
  have old: "iID d < NextDatasetID st" "\<not> invalidDataset ?st x y d" if "catEntry st x y d" for x y d
  proof -
    have "\<not> invalidDataset st x y d" using t that by (simp add: topology_ok_def)
    then show "iID d < NextDatasetID st" "\<not> invalidDataset ?st x y d"
      using lt n(1) by (auto simp: invalidDataset_def not_le)
  qed
  have "validCatalogName ''bucket'' x = None \<and> Datasets y \<noteq> None" if "fmlookup (mapOf (Buckets ?st)) x = Some y" for x y
    using that t b(1) by (auto simp: withDataset_def Let_def bucketDatasets_clone topology_ok_def split: if_splits)
  moreover have "\<not> invalidDataset ?st x y d" if "catEntry ?st x y d" for x y d
    using that old(2) v [OF n(1)] unfolding e by blast
  moreover have "distinct (map iID (allDatasets ?st))"
    using t old(1) unfolding distinct_ids topology_ok_def e by (metis i(1) less_irrefl)
  ultimately show "topology_ok ?st"
    using t i(2) n(3) unfolding topology_ok_def n(1,2) by blast
  show "set (allDatasets ?st) = insert info (set (allDatasets st))"
    unfolding set_eq_iff insert_iff set_allDatasets e by blast
qed

lemma normalizeDatasetOptions_ok:
  assumes "normalizeDatasetOptions opts o' = Inr n" "options_ok o'"
  shows "oKind n = KeyedJSON \<and> 0 < oMaxRecords n \<and> 0 < oMaxValueBytes n \<and> oMaxValueBytes n \<le> MaxValueBytes o'"
  using assms by (auto simp: normalizeDatasetOptions_def options_ok_def Let_def split: if_splits)


lemma Bucket_Dataset_new:
  assumes "validCatalogName ''dataset'' name = None" "normalizeDatasetOptions opts (options db) = Inr n"
    "enter db c ''dataset'' = None" "fmlookup (mapOf (Buckets (catalog db))) (bkName b) = Some bk"
    "fmlookup (bucketDatasets bk) name = None"
  defines "info \<equiv> \<lparr>iID = NextDatasetID (catalog db), iBucketName = bkName b, iName = name, iKind = oKind n, iOrigin = GoCatalog,
      iTypeIdentity = oTypeIdentity n, iBounds = \<lparr>bMaxRecords = oMaxRecords n, bMaxValueBytes = oMaxValueBytes n\<rparr>\<rparr>"
  shows "Bucket_Dataset (Some b) c name opts db w =
    (case persistCatalog (withDataset (bkName b) name info \<lparr>Datasets = Some (bucketDatasets bk)\<rparr> (catalog db)) w of
       (Some e, w1) \<Rightarrow> (Inl e, db\<lparr>poisoned := True\<rparr>, w1)
     | (None, w1) \<Rightarrow> (Inr \<lparr>dsDB = self db, dsInfo = info\<rparr>,
          db\<lparr>catalog := withDataset (bkName b) name info \<lparr>Datasets = Some (bucketDatasets bk)\<rparr> (catalog db)\<rparr>, w1))"
proof -
  have n: "NextDatasetID (cloneCatalogState (catalog db)) = NextDatasetID (catalog db)" by (simp add: cloneCatalogState_def)
  show ?thesis
    unfolding Bucket_Dataset_def withDataset_def info_def Let_def option.case assms(1-5) sum.case bucketDatasets_clone option.map n ..
qed

lemma Bucket_Dataset_old:
  assumes "\<not> (\<exists>b n bk. bucket = Some b \<and> validCatalogName ''dataset'' name = None \<and> normalizeDatasetOptions opts (options db) = Inr n
    \<and> enter db c ''dataset'' = None \<and> fmlookup (mapOf (Buckets (catalog db))) (bkName b) = Some bk \<and> fmlookup (bucketDatasets bk) name = None)"
  shows "snd (Bucket_Dataset bucket c name opts db w) = (db, w)"
proof -
  have "snd (Bucket_Dataset (Some b) c name opts db w) = (db, w)"
    if b: "bucket = Some b" "validCatalogName ''dataset'' name = None" "normalizeDatasetOptions opts (options db) = Inr n" "enter db c ''dataset'' = None" for b n
  proof (cases "fmlookup (mapOf (Buckets (catalog db))) (bkName b)")
    case None
    then show ?thesis by (simp add: Bucket_Dataset_def b Let_def bucketDatasets_clone)
  next
    case (Some bk)
    then obtain d where "fmlookup (bucketDatasets bk) name = Some d" using assms b by (cases "fmlookup (bucketDatasets bk) name") auto
    then show ?thesis by (simp add: Bucket_Dataset_def b Let_def Some)
  qed
  then show ?thesis by (cases bucket; cases "validCatalogName ''dataset'' name"; cases "normalizeDatasetOptions opts (options db)";
      cases "enter db c ''dataset''") (simp_all add: Bucket_Dataset_def)
qed

lemma Bucket_Dataset_inv:
  assumes i: "cat_inv db" and n: "NextDatasetID (catalog db) + 1 \<noteq> 0"
    and r: "Bucket_Dataset bucket c name opts db w = (res, db', w')"
  shows "cat_inv db' \<and> self db' = self db
    \<and> set (allDatasets (catalog db)) \<subseteq> set (allDatasets (catalog db'))"
proof (cases "\<exists>b n bk. bucket = Some b \<and> validCatalogName ''dataset'' name = None \<and> normalizeDatasetOptions opts (options db) = Inr n
    \<and> enter db c ''dataset'' = None \<and> fmlookup (mapOf (Buckets (catalog db))) (bkName b) = Some bk \<and> fmlookup (bucketDatasets bk) name = None")
  case False
  from Bucket_Dataset_old [OF this, of w] have "db' = db" by (simp add: r)
  then show ?thesis using i by simp
next
  case True
  then obtain b n bk where h: "bucket = Some b" "validCatalogName ''dataset'' name = None"
    "normalizeDatasetOptions opts (options db) = Inr n" "enter db c ''dataset'' = None"
    "fmlookup (mapOf (Buckets (catalog db))) (bkName b) = Some bk" "fmlookup (bucketDatasets bk) name = None" by blast
  define info where "info = \<lparr>iID = NextDatasetID (catalog db), iBucketName = bkName b, iName = name, iKind = oKind n, iOrigin = GoCatalog,
      iTypeIdentity = oTypeIdentity n, iBounds = \<lparr>bMaxRecords = oMaxRecords n, bMaxValueBytes = oMaxValueBytes n\<rparr>\<rparr>"
  let ?st = "withDataset (bkName b) name info \<lparr>Datasets = Some (bucketDatasets bk)\<rparr> (catalog db)"
  obtain e w1 where p: "persistCatalog ?st w = (e, w1)" by fastforce
  note eq = Bucket_Dataset_new [OF h(2-6), of w, folded info_def, unfolded p prod.case]
  have o: "oKind n = KeyedJSON" "0 < oMaxRecords n" "0 < oMaxValueBytes n" "oMaxValueBytes n \<le> MaxValueBytes (options db)"
    using normalizeDatasetOptions_ok [OF h(3)] i by (simp_all add: cat_inv_def keyed_inv_def)
  have nz: "NextDatasetID (catalog db) \<noteq> 0" using i by (simp add: cat_inv_def topology_ok_def)
  have v: "\<not> invalidDataset st' (bkName b) name info" if "NextDatasetID st' = NextDatasetID (catalog db) + 1" for st'
    using that h(2) o nz u64_succ_less [OF n] by (simp add: invalidDataset_def info_def not_le)
  have t: "topology_ok ?st" "set (allDatasets ?st) = insert info (set (allDatasets (catalog db)))"
    using topology_withDataset [OF _ h(5,6) _ _ n v, of "\<lparr>Datasets = Some (bucketDatasets bk)\<rparr>"] i
    by (simp_all add: cat_inv_def info_def)
  show ?thesis
  proof (cases e)
    case None
    then have d: "db' = db\<lparr>catalog := ?st\<rparr>" using r eq h(1) by simp
    have "keyed_inv db'" "query_inv db'"
      using i keyed_inv_cong [of db' db] query_inv_cong [of db' db] by (simp_all add: d cat_inv_def dstate_def)
    moreover have "records_ok ?st (records db)"
      using records_ok_mono [of "catalog db"] i t(2) by (auto simp: cat_inv_def)
    ultimately show ?thesis using i t o(4) by (auto simp: cat_inv_def d info_def)
  next
    case (Some x)
    then have "db' = db\<lparr>poisoned := True\<rparr>" using r eq h(1) by simp
    then show ?thesis using i poisoned_cat_inv by simp
  qed
qed

section \<open>Opening\<close>

lemma loadOrCreate_cases:
  assumes "loadOrCreateCatalog random keyed w = (Inr st, w')"
  shows "validateCatalogState st keyed = None
    \<or> (\<exists>idBytes. random = Some idBytes \<and> st = \<lparr>DatabaseID = hex_encode idBytes, NextDatasetID = 1, Buckets = Some fmempty\<rparr>
        \<and> fmsize (records keyed) = 0)"
  using assms by (auto simp: loadOrCreateCatalog_def Let_def split: prod.splits sum.splits if_splits option.splits)

lemma fmsize_0: "fmsize m = 0 \<longleftrightarrow> m = fmempty"
proof
  assume "fmsize m = 0"
  then have "fmdom m = {||}" by (simp add: fmsize_def fcard.rep_eq) (metis bot_fset.rep_eq fset_inject)
  then show "m = fmempty" by (metis fmrestrict_fset_dom fmrestrict_fset_null)
qed simp

lemma hex_encode_Nil [simp]: "hex_encode bs = [] \<longleftrightarrow> bs = []"
  by (cases bs) (auto simp: hex_encode_def)

lemma loadOrCreate_ok:
  assumes "loadOrCreateCatalog random keyed w = (Inr st, w')" "random \<noteq> Some []"
  shows "topology_ok st \<and> records_ok st (records keyed)"
  using loadOrCreate_cases [OF assms(1)]
proof
  assume "validateCatalogState st keyed = None"
  then show ?thesis by (simp add: validateCatalogState_iff)
next
  assume "\<exists>idBytes. random = Some idBytes \<and> st = \<lparr>DatabaseID = hex_encode idBytes, NextDatasetID = 1, Buckets = Some fmempty\<rparr>
      \<and> fmsize (records keyed) = 0"
  then show ?thesis using assms(2)
    by (auto simp: topology_ok_def distinct_ids catEntry_def fmsize_0 records_ok_def)
qed

lemma OpenCatalog_ok:
  assumes "OpenCatalog object random c path opts w = (Inr db, w')" "random \<noteq> Some []"
  shows "topology_ok (catalog db) \<and> records_ok (catalog db) (records db) \<and> query_inv db"
proof -
  obtain keyed w1 st w2 where k: "openKeyed c path opts catalogKeyedFormatContents w = (Inr keyed, w1)"
    "loadOrCreateCatalog random keyed w1 = (Inr st, w2)"
    "db = KeyedDB.extend keyed (Database.fields st (initializeQueryKeys (records keyed)) object)"
    using assms(1) by (auto simp: OpenCatalog_def split: prod.splits sum.splits)
  have "catalog db = st" "records db = records keyed" "queryKeys db = initializeQueryKeys (records keyed)"
    by (simp_all add: k(3) KeyedDB.extend_def Database.fields_def)
  then show ?thesis using loadOrCreate_ok [OF k(2) assms(2)] tracksKeys_initialize by (simp add: query_inv_tracks)
qed

end
