(* ===== verification/Atomic_Replace.thy ===== *)
theory Atomic_Replace
  imports Keyed_Snapshot
begin

text \<open>
  Replacing a file: the new contents go to a temporary file, which is synchronised, closed and renamed
  over the old one, and the directory is synchronised. The storage code does this for the catalog,
  the format marker and the snapshots. The locale is about any pair of names; its lemmas say that
  whichever call fails, a power loss leaves the old contents or the new ones, and only the new ones
  when the replacement reported success.
\<close>

locale replaced_file =
  fixes tmp target :: fname
  assumes names: "tmp \<noteq> target"
begin

text \<open>The steps after the temporary file has been opened.\<close>

definition install :: "bytes \<Rightarrow> world \<Rightarrow> go_error option \<times> world" where
  "install env w =
     and_then (and_then (close_after (and_then (write_all tmp 0 env w) (file_Sync tmp)))
       (os_Rename tmp target)) syncDirectory"

text \<open>The file is settled with contents \<open>s\<close>, or the rename to \<open>env\<close> is pending.\<close>

definition steady :: "bytes option \<Rightarrow> world \<Rightarrow> bool" where
  "steady s w \<longleftrightarrow>
     \<not> windows w \<and> fmlookup (durable w) target = s \<and> fmlookup (files w) target = s
     \<and> (\<forall>op \<in> set (pend w). \<not> touches op target \<and> (touches op tmp \<longrightarrow> op = PendRemove tmp))"

definition ready :: "bytes \<Rightarrow> world \<Rightarrow> bool" where
  "ready env w \<longleftrightarrow>
     fmlookup (durable w) tmp = Some env \<and> fmlookup (files w) tmp = Some env \<and> PendRemove tmp \<notin> set (pend w)"

definition moving :: "bytes option \<Rightarrow> bytes \<Rightarrow> world \<Rightarrow> bool" where
  "moving s env w \<longleftrightarrow>
     \<not> windows w \<and> fmlookup (durable w) tmp = Some env
     \<and> fmlookup (durable w) target = s \<and> fmlookup (files w) target = Some env
     \<and> (\<exists>ops1 ops2. pend w = ops1 @ PendRename tmp target # ops2
          \<and> (\<forall>op \<in> set ops1. \<not> touches op tmp \<and> \<not> touches op target) \<and> set ops2 \<subseteq> {PendRemove tmp})"

definition tmpOnly :: "world \<Rightarrow> world \<Rightarrow> bool" where
  "tmpOnly w w' \<longleftrightarrow>
     windows w' = windows w \<and> set (pend w') \<subseteq> insert (PendRemove tmp) (set (pend w))
     \<and> (\<forall>n. n \<noteq> tmp \<longrightarrow> fmlookup (files w') n = fmlookup (files w) n \<and> fmlookup (durable w') n = fmlookup (durable w) n)"

lemma steady_tmpOnly: "steady s w \<Longrightarrow> tmpOnly w w' \<Longrightarrow> steady s w'"
  using names by (fastforce simp: steady_def tmpOnly_def)

lemma tmpOnly_trans: "tmpOnly a b \<Longrightarrow> tmpOnly b c \<Longrightarrow> tmpOnly a c"
  unfolding tmpOnly_def by (simp, blast)

lemma tmpOnly_calls:
  "tmpOnly w (ticked w)"
  "tmpOnly w (snd (os_Remove tmp w))"
  "tmpOnly w (snd (os_OpenTrunc tmp w))"
  "tmpOnly w (snd (os_OpenExcl tmp w))"
  "tmpOnly w (snd (write_all tmp off env w))"
  "tmpOnly w (snd (file_Sync tmp w))"
  by (auto simp: tmpOnly_def os_Remove_def os_OpenTrunc_def os_OpenExcl_def write_all_def file_Write_def file_Sync_def
      split: outcome.split prod.split option.split)

lemma tmpOnly_close: "tmpOnly w (snd r) \<Longrightarrow> tmpOnly w (snd (close_after r))"
  using tmpOnly_trans [OF _ tmpOnly_calls(1)]
  by (auto simp: close_after_def file_Close_def io_check_def split: prod.split)

lemma tmpOnly_and_then: "tmpOnly w (snd r) \<Longrightarrow> (\<And>v. tmpOnly v (snd (call v))) \<Longrightarrow> tmpOnly w (snd (and_then r call))"
  by (cases r; cases "fst r") (auto intro: tmpOnly_trans)

lemma written:
  assumes "contents tmp w = []" "close_after (and_then (write_all tmp 0 env w) (file_Sync tmp)) = (e, w')"
  shows "tmpOnly w w'" "e = None \<Longrightarrow> ready env w'"
proof -
  show "tmpOnly w w'"
    using tmpOnly_close [OF tmpOnly_and_then [OF tmpOnly_calls(5) [of w 0 env] tmpOnly_calls(6)]] assms(2) by simp
  show "ready env w'" if "e = None"
    using assms that
    by (auto simp: close_after_def write_all_def file_Write_def file_Sync_def file_Close_def io_check_def and_then_def
        ready_def write_at_def split: prod.splits option.splits if_splits outcome.splits)
qed

lemma renamed:
  assumes "steady s w" "ready env w" "os_Rename tmp target w = (e, w')"
  shows "e = None \<Longrightarrow> moving s env w'" "e \<noteq> None \<Longrightarrow> steady s w'"
proof -
  show "moving s env w'" if "e = None"
  proof -
    have w': "w' = (ticked w)\<lparr>files := apply_rename tmp target (files w), pend := pend w @ [PendRename tmp target]\<rparr>"
      using that assms(3) by (simp add: os_Rename_def split: if_splits)
    have "\<exists>ops1 ops2. pend w' = ops1 @ PendRename tmp target # ops2
        \<and> (\<forall>op \<in> set ops1. \<not> touches op tmp \<and> \<not> touches op target) \<and> set ops2 \<subseteq> {PendRemove tmp}"
      using assms(1,2) by (intro exI [of _ "pend w"] exI [of _ "[]"]) (auto simp: w' steady_def ready_def)
    then show ?thesis
      using assms(1,2) names unfolding moving_def by (simp add: w' steady_def ready_def apply_rename_def)
  qed
  show "steady s w'" if "e \<noteq> None"
    using that assms steady_tmpOnly [OF assms(1) tmpOnly_calls(1)] by (auto simp: os_Rename_def split: if_splits)
qed

lemma ticked_states [simp]: "moving s env (ticked w) = moving s env w" "steady s (ticked w) = steady s w"
  by (simp_all add: moving_def steady_def)

lemma moving_synced:
  assumes "moving s env w"
  shows "steady (Some env) (w\<lparr>durable := apply_pend (pend w) (durable w), pend := []\<rparr>)"
proof -
  obtain ops1 ops2 where p: "pend w = ops1 @ PendRename tmp target # ops2"
    "\<forall>op \<in> set ops1. \<not> touches op tmp \<and> \<not> touches op target" "set ops2 \<subseteq> {PendRemove tmp}"
    using assms by (auto simp: moving_def)
  have "fmlookup (apply_pend ops1 (durable w)) tmp = Some env"
    using p(2) assms by (subst apply_pend_other) (auto simp: moving_def)
  moreover have "fmlookup (apply_pend ops2 m) target = fmlookup m target" for m
    using p(3) names by (intro apply_pend_other) auto
  ultimately show ?thesis using assms by (simp add: steady_def moving_def p(1) apply_pend_append apply_rename_def)
qed

lemma directory_synced:
  assumes "moving s env w" "syncDirectory w = (e, w')"
  shows "if e = None then steady (Some env) w' else moving s env w' \<or> steady (Some env) w'"
proof -
  let ?x = "(ticked (ticked w))\<lparr>durable := apply_pend (pend w) (durable w), pend := []\<rparr>"
  have s: "steady (Some env) (ticked ?x)"
    using moving_synced [of s env "ticked (ticked w)"] assms(1) by simp
  have nw: "\<not> windows w" using assms(1) by (simp add: moving_def)
  have "w' = ticked w \<and> e \<noteq> None \<or> w' = ticked ?x \<or> w' = ticked (ticked (ticked w)) \<and> e \<noteq> None"
  proof (cases "next_outcome w = OpOk")
    case True
    then have "(e, w') = close_after (directory_Sync (ticked w))"
      using assms(2) nw by (simp add: syncDirectory_def io_check_def)
    then show ?thesis
      by (cases "next_outcome (ticked w) = OpOk")
        (simp_all add: directory_Sync_def close_after_def file_Close_def io_check_def)
  qed (use assms(2) nw in \<open>auto simp: syncDirectory_def io_check_def\<close>)
  then show ?thesis using assms(1) s by (elim disjE conjE) auto
qed

text \<open>Where a replacement may stop.\<close>

definition replacing :: "bytes option \<Rightarrow> bytes \<Rightarrow> world \<Rightarrow> bool" where
  "replacing s env w \<longleftrightarrow> steady s w \<or> moving s env w \<or> steady (Some env) w"

theorem install_replaces:
  assumes "steady s w" "contents tmp w = []" "install env w = (e, w')"
  shows "if e = None then steady (Some env) w' else replacing s env w'"
proof -
  obtain e1 w1 where 1: "close_after (and_then (write_all tmp 0 env w) (file_Sync tmp)) = (e1, w1)" by fastforce
  obtain e2 w2 where 2: "os_Rename tmp target w1 = (e2, w2)" by fastforce
  have s: "steady s w1" using steady_tmpOnly [OF assms(1) written(1) [OF assms(2) 1]] .
  show ?thesis
  proof (cases "e1 = None \<and> e2 = None")
    case True
    then have "moving s env w2" using renamed(1) [OF s written(2) [OF assms(2) 1] 2] by simp
    moreover have "syncDirectory w2 = (e, w')" using assms(3) True by (simp add: install_def 1 2)
    ultimately show ?thesis using directory_synced [of s env w2] by (auto simp: replacing_def split: if_splits)
  next
    case False
    show ?thesis
    proof (cases e1)
      case None
      then have "steady s w2" using False renamed(2) [OF s written(2) [OF assms(2) 1] 2] by simp
      then show ?thesis using assms(3) None False by (auto simp: install_def 1 2 replacing_def)
    next
      case (Some x)
      then show ?thesis using assms(3) s by (auto simp: install_def 1 replacing_def)
    qed
  qed
qed

lemma replacing_remove: "replacing s env w \<Longrightarrow> replacing s env (snd (os_Remove tmp w))"
proof -
  have "moving s env (snd (os_Remove tmp w))" if m: "moving s env w"
  proof (cases "next_outcome w = OpOk")
    case True
    obtain ops1 ops2 where p: "pend w = ops1 @ PendRename tmp target # ops2"
      "\<forall>op \<in> set ops1. \<not> touches op tmp \<and> \<not> touches op target" "set ops2 \<subseteq> {PendRemove tmp}"
      using m by (auto simp: moving_def)
    then have "\<exists>a b. pend w @ [PendRemove tmp] = a @ PendRename tmp target # b
        \<and> (\<forall>op \<in> set a. \<not> touches op tmp \<and> \<not> touches op target) \<and> set b \<subseteq> {PendRemove tmp}"
      by (intro exI [of _ ops1] exI [of _ "ops2 @ [PendRemove tmp]"]) auto
    then show ?thesis using m True names by (auto simp: moving_def os_Remove_def)
  qed (use m in \<open>simp add: os_Remove_def\<close>)
  then show "replacing s env w \<Longrightarrow> replacing s env (snd (os_Remove tmp w))"
    using steady_tmpOnly [OF _ tmpOnly_calls(2)] by (auto simp: replacing_def)
qed

text \<open>Power loss.\<close>

lemma crash_steady: "steady s w \<Longrightarrow> crash w m \<Longrightarrow> fmlookup m target = s"
  using crash_settled [of w m target] by (simp add: steady_def untouched_def)

lemma crash_moving:
  assumes "moving s env w" "crash w m"
  shows "fmlookup m target = s \<or> fmlookup m target = Some env"
proof -
  obtain ops1 ops2 where p: "pend w = ops1 @ PendRename tmp target # ops2"
    "\<forall>op \<in> set ops1. \<not> touches op tmp \<and> \<not> touches op target" "set ops2 \<subseteq> {PendRemove tmp}"
    using assms(1) by (auto simp: moving_def)
  obtain k where k: "case fmlookup (apply_pend (take k (pend w)) (durable w)) target of
      Some d \<Rightarrow> (case fmlookup m target of None \<Rightarrow> False
        | Some c \<Rightarrow> survives d (if list_ex (\<lambda>op. touches op target) (drop k (pend w)) then d else contents target w) c)
    | None \<Rightarrow> (case fmlookup m target of None \<Rightarrow> True
        | Some c \<Rightarrow> \<not> list_ex (\<lambda>op. touches op target) (drop k (pend w)) \<and> target |\<in>| fmdom (files w) \<and> prefix c (contents target w))"
    using assms(2) unfolding crash_def Let_def by blast
  have f: "contents target w = env" "fmlookup (durable w) target = s"
    using assms(1) by (auto simp: moving_def contents_def)
  show ?thesis
  proof (cases "k \<le> length ops1")
    case True
    have "fmlookup (apply_pend (take k (pend w)) (durable w)) target = s"
      using p(1,2) True f(2) by (subst apply_pend_other) (auto dest: in_set_takeD)
    moreover have "list_ex (\<lambda>op. touches op target) (drop k (pend w))" using True by (simp add: p(1))
    ultimately show ?thesis using k by (auto simp: survives_def prefix_order.antisym split: option.splits)
  next
    case False
    then obtain j where j: "take k (pend w) = ops1 @ PendRename tmp target # take j ops2"
      by (cases "k - length ops1") (auto simp: p(1))
    have "fmlookup (apply_pend ops1 (durable w)) tmp = Some env"
      using p(2) assms(1) by (subst apply_pend_other) (auto simp: moving_def)
    moreover have "fmlookup (apply_pend (take j ops2) x) target = fmlookup x target" for x
      using p(3) names by (intro apply_pend_other) (auto dest: in_set_takeD)
    ultimately have "fmlookup (apply_pend (take k (pend w)) (durable w)) target = Some env"
      by (simp add: j apply_pend_append apply_rename_def)
    then show ?thesis using k f(1) by (auto simp: survives_def prefix_order.antisym split: option.splits if_splits)
  qed
qed

theorem crash_replacing:
  "replacing s env w \<Longrightarrow> crash w m \<Longrightarrow> fmlookup m target = s \<or> fmlookup m target = Some env"
  unfolding replacing_def using crash_steady crash_moving by blast

end

end
