(* ===== verification/Catalog_Codec.thy ===== *)
theory Catalog_Codec
  imports Catalog_Inv Atomic_Replace
begin

text \<open>
  The JSON encoding of the catalog is read back as it was written, when its names are UTF-8 and its
  bounds fit a signed 64-bit integer, and the catalog file that \<open>persistCatalog\<close> leaves is the one
  \<open>loadOrCreateCatalog\<close> accepts.
\<close>

section \<open>Maps and bounds\<close>

lemma unmarshalMap_marshalMap:
  assumes "\<And>k v. fmlookup m k = Some v \<Longrightarrow> utf8_valid k \<and> jvalue d (f v) \<and> g (f v) = Some v"
  shows "unmarshalMap g (marshalMap f (Some m)) None = Some (Some m)" "jvalue (Suc d) (marshalMap f (Some m))"
proof -
  let ?ms = "map (\<lambda>(k, v). (k, f v)) (sorted_list_of_fmap m)"
  have ok: "\<forall>kv \<in> set ?ms. jvalue d (snd kv)" using assms by (auto simp: lookup_sorted_list)
  show "jvalue (Suc d) (marshalMap f (Some m))"
    unfolding marshalMap_def option.case by (rule jvalue_jobj [OF ok])
  have "map (\<lambda>(k, v). (sanitize k, v)) ?ms = ?ms"
    using assms by (intro map_idI) (auto simp: lookup_sorted_list sanitize_valid)
  then have j: "json_members (marshalMap f (Some m)) = Some ?ms"
    unfolding marshalMap_def option.case by (simp add: json_members_jobj [OF ok])
  have "setMembers (mapMember g) (map (\<lambda>(k, v). (k, f v)) kvs) n = Some (fold (\<lambda>(k, v). fmupd k v) kvs n)"
    if "\<forall>(k, v) \<in> set kvs. g (f v) = Some v" for kvs n
    using that by (induction kvs arbitrary: n) (auto simp: mapMember_def)
  moreover have "\<forall>(k, v) \<in> set (sorted_list_of_fmap m). g (f v) = Some v" using assms by (auto simp: lookup_sorted_list)
  ultimately have "setMembers (mapMember g) ?ms fmempty = Some m" by (simp add: fold_sorted_list_of_fmap)
  then show "unmarshalMap g (marshalMap f (Some m)) None = Some (Some m)"
    using j by (simp add: unmarshalMap_def) (simp add: marshalMap_def)
qed

lemma jvalue_dec_int: "0 \<le> z \<Longrightarrow> jvalue d (dec_int z)"
  by (simp add: dec_int_def jvalue_dec_nat)

lemma unmarshalInt_dec_int: "0 \<le> z \<Longrightarrow> z < 2 ^ 63 \<Longrightarrow> unmarshalInt (dec_int z) old = Some z"
proof -
  assume z: "0 \<le> z" "z < 2 ^ 63"
  have "hd (dec_nat (nat z)) \<noteq> 0x2D"
    using dec_nat_digits [of "nat z"] by (cases "dec_nat (nat z)") (auto simp: jdigit_def word_le_nat_alt)
  then show ?thesis using z by (simp add: unmarshalInt_def dec_int_def)
qed

lemma catalog_field_names:
  "\<not> field_is ''id'' (str ''bucket_name'')" "\<not> field_is ''id'' (str ''name'')" "\<not> field_is ''id'' (str ''kind'')"
  "\<not> field_is ''id'' (str ''origin'')" "\<not> field_is ''id'' (str ''type_identity'')" "\<not> field_is ''id'' (str ''bounds'')"
  "\<not> field_is ''bucket_name'' (str ''name'')" "\<not> field_is ''bucket_name'' (str ''kind'')"
  "\<not> field_is ''bucket_name'' (str ''origin'')" "\<not> field_is ''bucket_name'' (str ''type_identity'')"
  "\<not> field_is ''bucket_name'' (str ''bounds'')"
  "\<not> field_is ''name'' (str ''kind'')" "\<not> field_is ''name'' (str ''origin'')"
  "\<not> field_is ''name'' (str ''type_identity'')" "\<not> field_is ''name'' (str ''bounds'')"
  "\<not> field_is ''kind'' (str ''origin'')" "\<not> field_is ''kind'' (str ''type_identity'')" "\<not> field_is ''kind'' (str ''bounds'')"
  "\<not> field_is ''origin'' (str ''type_identity'')" "\<not> field_is ''origin'' (str ''bounds'')"
  "\<not> field_is ''type_identity'' (str ''bounds'')" "\<not> field_is ''max_records'' (str ''max_value_bytes'')"
  "\<not> field_is ''database_id'' (str ''next_dataset_id'')" "\<not> field_is ''database_id'' (str ''buckets'')"
  "\<not> field_is ''next_dataset_id'' (str ''buckets'')"
  by code_simp+

section \<open>Entries\<close>

definition utf8Info :: "DatasetInfo \<Rightarrow> bool" where
  "utf8Info i \<longleftrightarrow>
     utf8_valid (iBucketName i) \<and> utf8_valid (iName i) \<and> utf8_valid (iKind i) \<and> utf8_valid (iOrigin i)
     \<and> utf8_valid (iTypeIdentity i)
     \<and> 0 \<le> bMaxRecords (iBounds i) \<and> bMaxRecords (iBounds i) < 2 ^ 63
     \<and> 0 \<le> bMaxValueBytes (iBounds i) \<and> bMaxValueBytes (iBounds i) < 2 ^ 63"

definition utf8Catalog :: "catalogState \<Rightarrow> bool" where
  "utf8Catalog st \<longleftrightarrow>
     utf8_valid (DatabaseID st)
     \<and> (\<forall>bn b. fmlookup (mapOf (Buckets st)) bn = Some b \<longrightarrow> utf8_valid bn
          \<and> (\<forall>n d. fmlookup (bucketDatasets b) n = Some d \<longrightarrow> utf8_valid n \<and> utf8Info d))"

definition boundsMembers :: "DatasetBounds \<Rightarrow> (bytes \<times> bytes) list" where
  "boundsMembers b = [(str ''max_records'', dec_int (bMaxRecords b)), (str ''max_value_bytes'', dec_int (bMaxValueBytes b))]"

definition infoMembers :: "DatasetInfo \<Rightarrow> (bytes \<times> bytes) list" where
  "infoMembers i =
     [(str ''id'', dec_nat (unat (iID i))), (str ''bucket_name'', jstr (iBucketName i)),
       (str ''name'', jstr (iName i)), (str ''kind'', jstr (iKind i)), (str ''origin'', jstr (iOrigin i))]
      @ (if iTypeIdentity i = [] then [] else [(str ''type_identity'', jstr (iTypeIdentity i))])
      @ [(str ''bounds'', jobj (boundsMembers (iBounds i)))]"

lemma marshalInfo_members: "marshalInfo i = jobj (infoMembers i)"
  by (simp add: marshalInfo_def infoMembers_def boundsMembers_def)

lemma boundsMembers_ok:
  assumes "utf8Info i"
  shows "\<forall>kv \<in> set (boundsMembers (iBounds i)). jvalue 0 (snd kv)" "asciiMembers (boundsMembers (iBounds i))"
    "jvalue 1 (jobj (boundsMembers (iBounds i)))"
    "unmarshalStruct boundsField b (jobj (boundsMembers (iBounds i))) = Some (iBounds i)"
proof -
  show ok: "\<forall>kv \<in> set (boundsMembers (iBounds i)). jvalue 0 (snd kv)" "asciiMembers (boundsMembers (iBounds i))"
    using assms by (auto simp: boundsMembers_def utf8Info_def jvalue_dec_int asciiMembers_def)
  show "jvalue 1 (jobj (boundsMembers (iBounds i)))" using jvalue_jobj [OF ok(1)] by simp
  show "unmarshalStruct boundsField b (jobj (boundsMembers (iBounds i))) = Some (iBounds i)"
    using assms unfolding unmarshalStruct_jobj [OF ok]
    by (cases "iBounds i")
      (auto simp: boundsMembers_def boundsField_def catalog_field_names utf8Info_def unmarshalInt_dec_int simp del: str_simps)
qed

lemma infoMembers_ok:
  assumes "utf8Info i"
  shows "\<forall>kv \<in> set (infoMembers i). jvalue 1 (snd kv)" "asciiMembers (infoMembers i)"
  using boundsMembers_ok(3) [OF assms]
  by (auto simp: infoMembers_def jvalue_dec_nat jvalue_jstr asciiMembers_def)

lemma info_roundtrip:
  assumes "utf8Info i"
  shows "unmarshalStruct infoField zeroInfo (marshalInfo i) = Some i" "jvalue 2 (marshalInfo i)"
proof -
  note ok = infoMembers_ok [OF assms]
  have s: "sanitize (iBucketName i) = iBucketName i" "sanitize (iName i) = iName i" "sanitize (iKind i) = iKind i"
    "sanitize (iOrigin i) = iOrigin i" "sanitize (iTypeIdentity i) = iTypeIdentity i"
    using assms by (auto simp: utf8Info_def sanitize_valid)
  show "jvalue 2 (marshalInfo i)" unfolding marshalInfo_members by (rule jvalue_jobj_le [OF ok(1)]) simp
  show "unmarshalStruct infoField zeroInfo (marshalInfo i) = Some i"
    using s boundsMembers_ok(4) [OF assms] unfolding marshalInfo_members unmarshalStruct_jobj [OF ok]
    by (cases i) (auto simp: infoMembers_def infoField_def catalog_field_names zeroInfo_def simp del: str_simps)
qed

section \<open>The catalog\<close>

lemma bucket_roundtrip:
  assumes "\<And>n d. fmlookup m n = Some d \<Longrightarrow> utf8_valid n \<and> utf8Info d"
  shows "unmarshalStruct bucketField \<lparr>Datasets = None\<rparr> (marshalBucket \<lparr>Datasets = Some m\<rparr>) = Some \<lparr>Datasets = Some m\<rparr>"
    "jvalue 4 (marshalBucket \<lparr>Datasets = Some m\<rparr>)"
proof -
  have f: "unmarshalMap (unmarshalStruct infoField zeroInfo) (marshalMap marshalInfo (Some m)) None = Some (Some m)"
    "jvalue 3 (marshalMap marshalInfo (Some m))"
    using unmarshalMap_marshalMap [of m 2 marshalInfo "unmarshalStruct infoField zeroInfo"] assms info_roundtrip
    by (simp_all add: numeral_3_eq_3 [symmetric] numeral_2_eq_2)
  then have ok: "\<forall>kv \<in> set [(str ''datasets'', marshalMap marshalInfo (Some m))]. jvalue 3 (snd kv)"
    "asciiMembers [(str ''datasets'', marshalMap marshalInfo (Some m))]"
    by (auto simp: asciiMembers_def)
  show "jvalue 4 (marshalBucket \<lparr>Datasets = Some m\<rparr>)"
    unfolding marshalBucket_def by (rule jvalue_jobj_le [where d = 3]) (use ok in auto)
  show "unmarshalStruct bucketField \<lparr>Datasets = None\<rparr> (marshalBucket \<lparr>Datasets = Some m\<rparr>) = Some \<lparr>Datasets = Some m\<rparr>"
    using f(1) unfolding marshalBucket_def catalogBucket.select_convs unmarshalStruct_jobj [OF ok]
    by (simp add: bucketField_def del: str_simps)
qed

definition catalogMembers :: "catalogState \<Rightarrow> (bytes \<times> bytes) list" where
  "catalogMembers st =
     [(str ''database_id'', jstr (DatabaseID st)), (str ''next_dataset_id'', dec_nat (unat (NextDatasetID st))),
      (str ''buckets'', marshalMap marshalBucket (Buckets st))]"

lemma buckets_roundtrip:
  assumes "utf8Catalog st" "topology_ok st"
  shows "unmarshalMap (unmarshalStruct bucketField \<lparr>Datasets = None\<rparr>) (marshalMap marshalBucket (Buckets st)) None = Some (Buckets st)"
    "jvalue 5 (marshalMap marshalBucket (Buckets st))"
proof -
  obtain m where m: "Buckets st = Some m" using assms(2) by (auto simp: topology_ok_def)
  have b: "utf8_valid bn \<and> jvalue 4 (marshalBucket b) \<and> unmarshalStruct bucketField \<lparr>Datasets = None\<rparr> (marshalBucket b) = Some b"
    if "fmlookup m bn = Some b" for bn b
  proof -
    have "Datasets b \<noteq> None" using assms(2) that by (auto simp: topology_ok_def m)
    then obtain ds where b: "b = \<lparr>Datasets = Some ds\<rparr>" by (cases b) auto
    show ?thesis using bucket_roundtrip [of ds] assms(1) that by (auto simp: utf8Catalog_def m b)
  qed
  show "unmarshalMap (unmarshalStruct bucketField \<lparr>Datasets = None\<rparr>) (marshalMap marshalBucket (Buckets st)) None = Some (Buckets st)"
    "jvalue 5 (marshalMap marshalBucket (Buckets st))"
    using unmarshalMap_marshalMap [of m 4 marshalBucket "unmarshalStruct bucketField \<lparr>Datasets = None\<rparr>", OF b] by (simp_all add: m)
qed

lemma catalog_roundtrip:
  assumes "utf8Catalog st" "topology_ok st"
  shows "unmarshalCatalog (marshalCatalog st) = Some st" "jvalue 6 (marshalCatalog st)"
proof -
  note b = buckets_roundtrip [OF assms]
  have m: "marshalCatalog st = jobj (catalogMembers st)" by (simp add: marshalCatalog_def catalogMembers_def)
  have ok: "\<forall>kv \<in> set (catalogMembers st). jvalue 5 (snd kv)" "asciiMembers (catalogMembers st)"
    using b(2) by (auto simp: catalogMembers_def jvalue_jstr jvalue_dec_nat asciiMembers_def)
  show v: "jvalue 6 (marshalCatalog st)" unfolding m by (rule jvalue_jobj_le [OF ok(1)]) simp
  have "sanitize (DatabaseID st) = DatabaseID st" using assms(1) by (simp add: utf8Catalog_def sanitize_valid)
  then have "setMembers catalogField (catalogMembers st) \<lparr>DatabaseID = [], NextDatasetID = 0, Buckets = None\<rparr> = Some st"
    using b(1) by (cases st) (auto simp: catalogMembers_def catalogField_def catalog_field_names simp del: str_simps)
  moreover have "json_valid (marshalCatalog st)" by (rule json_valid_jvalue [OF v]) (simp add: maxNestingDepth_def)
  moreover have "jtrim (marshalCatalog st) = marshalCatalog st" using v by (intro jtrim_jedges) (auto simp: jvalue_def)
  ultimately show "unmarshalCatalog (marshalCatalog st) = Some st"
    by (simp add: unmarshalCatalog_def) (simp add: m unmarshalStruct_jobj [OF ok])
qed


section \<open>The catalog file\<close>

lemma catalogImage_envelope:
  assumes "utf8Catalog st" "topology_ok st"
  defines "p \<equiv> marshalCatalog st"
  shows "unmarshalEnvelope (catalogImage st) = Some \<lparr>eMagic = catalogMagic, eVersion = 1, ePayload = p, eSHA256 = hex_encode (sha256 p)\<rparr>"
proof -
  have "sanitize catalogMagic = catalogMagic" unfolding catalogMagic_def by (rule sanitize_str) simp
  then show ?thesis
    unfolding catalogImage_def Let_def p_def
    by (intro unmarshal_marshalEnvelope) (simp_all add: catalog_roundtrip(2) [OF assms(1,2)] sanitize_hex)
qed

lemma load_catalogImage:
  assumes "utf8Catalog st" "topology_ok st" "records_ok st (records keyed)"
    and "fmlookup (files w) CATALOG_file = Some (catalogImage st)" "next_outcome w = OpOk"
  shows "fst (loadOrCreateCatalog random keyed w) = Inr st"
proof -
  have "os_ReadFile CATALOG_file w = (Inr (catalogImage st), ticked w)" using assms(4,5) by (simp add: os_ReadFile_def)
  moreover have "validateCatalogState st keyed = None" using assms(2,3) by (simp add: validateCatalogState_iff)
  ultimately show ?thesis
    using assms(1,2) by (simp add: loadOrCreateCatalog_def catalogImage_envelope catalog_roundtrip(1))
qed

interpretation catalog_file: replaced_file CATALOG_tmp CATALOG_file
  by unfold_locales simp

lemma persistCatalog_install:
  "persistCatalog st w =
     (case os_OpenTrunc CATALOG_tmp w of
        (Some e, w1) \<Rightarrow> (Some (Error ErrorStorage ''catalog_write'' ''open''), w1)
      | (None, w1) \<Rightarrow>
          (case catalog_file.install (catalogImage st) w1 of
             (None, w2) \<Rightarrow> (None, w2)
           | (Some e, w2) \<Rightarrow> (Some (Error ErrorStorage ''catalog_write'' ''write''), snd (os_Remove CATALOG_tmp w2))))"
  unfolding persistCatalog_def catalog_file.install_def Let_def ..

lemma persistCatalog_replaces:
  assumes "catalog_file.steady s w" "persistCatalog st w = (e, w')"
  shows "if e = None then catalog_file.steady (Some (catalogImage st)) w' else catalog_file.replacing s (catalogImage st) w'"
proof -
  obtain e1 w1 where 1: "os_OpenTrunc CATALOG_tmp w = (e1, w1)" by fastforce
  have s: "catalog_file.steady s w1"
    using catalog_file.steady_tmpOnly [OF assms(1) catalog_file.tmpOnly_calls(3)] 1 by simp
  show ?thesis
  proof (cases e1)
    case (Some x)
    then show ?thesis using assms(2) s by (auto simp: persistCatalog_install 1 catalog_file.replacing_def)
  next
    case None
    then have c: "contents CATALOG_tmp w1 = []" using 1 by (auto simp: os_OpenTrunc_def split: if_splits)
    obtain e2 w2 where 2: "catalog_file.install (catalogImage st) w1 = (e2, w2)" by fastforce
    note r = catalog_file.install_replaces [OF s c 2]
    show ?thesis
    proof (cases e2)
      case None
      then show ?thesis using r assms(2) \<open>e1 = None\<close> by (auto simp: persistCatalog_install 1 2)
    next
      case (Some x)
      then show ?thesis using catalog_file.replacing_remove [of s "catalogImage st" w2] r assms(2) \<open>e1 = None\<close>
        by (auto simp: persistCatalog_install 1 2)
    qed
  qed
qed

end
