(* ===== verification/Catalog_Theorems.thy ===== *)
theory Catalog_Theorems
  imports Catalog_Keep Catalog_Codec
begin

text \<open>
  The properties of the catalog database, each followed by an instance on a small concrete catalog
  with one bucket and one dataset.
\<close>

section \<open>A concrete catalog\<close>

definition exInfo :: DatasetInfo where
  "exInfo = \<lparr>iID = 1, iBucketName = str ''b'', iName = str ''d'', iKind = KeyedJSON, iOrigin = GoCatalog,
     iTypeIdentity = [], iBounds = \<lparr>bMaxRecords = 2, bMaxValueBytes = 8\<rparr>\<rparr>"

definition exCatalog :: catalogState where
  "exCatalog = \<lparr>DatabaseID = str ''id'', NextDatasetID = 2,
     Buckets = Some (fmupd (str ''b'') \<lparr>Datasets = Some (fmupd (str ''d'') exInfo fmempty)\<rparr> fmempty)\<rparr>"

definition exCatOpts :: KeyedOptions where
  "exCatOpts = \<lparr>MaxRecords = 4, DedupeHorizon = 2, MaxValueBytes = 16, MaxTransactionBytes = 64\<rparr>"

definition exCatDB :: Database where
  "exCatDB = KeyedDB.extend ((freshKeyed exCatOpts catalogKeyedFormatContents)\<lparr>walOpen := True\<rparr>)
     (Database.fields exCatalog fmempty 7)"

definition exDataset :: Dataset where
  "exDataset = \<lparr>dsDB = 7, dsInfo = exInfo\<rparr>"

definition exProg :: ctx_prog where
  "exProg = CPut (Some exDataset) (str ''k'') (Some (str ''1'')) (\<lambda>_. CReturn (Some (str ''true'')))"

lemma ex_catalog:
  "topology_ok exCatalog" "set (allDatasets exCatalog) = {exInfo}" "utf8Catalog exCatalog"
proof -
  have a: "allDatasets exCatalog = [exInfo]" by code_simp
  then show "set (allDatasets exCatalog) = {exInfo}" by simp
  have v: "validCatalogName ''bucket'' (str ''b'') = None" "\<not> invalidDataset exCatalog (str ''b'') (str ''d'') exInfo"
    by code_simp+
  show "topology_ok exCatalog"
    unfolding topology_ok_def a using v
    by (auto simp: exCatalog_def catEntry_def str_def split: if_splits)
  have "utf8_valid (str ''b'')" "utf8_valid (str ''d'')" "utf8_valid (str ''id'')" "utf8Info exInfo"
    by (simp_all add: utf8_valid_ascii utf8Info_def exInfo_def KeyedJSON_def GoCatalog_def str_def)
  then show "utf8Catalog exCatalog" by (auto simp: utf8Catalog_def exCatalog_def split: if_splits)
qed

lemma ex_catdb:
  "catalog exCatDB = exCatalog" "self exCatDB = 7" "queryKeys exCatDB = fmempty" "records exCatDB = fmempty"
  "options exCatDB = exCatOpts" "format exCatDB = catalogKeyedFormatContents" "sequence exCatDB = 0"
  "\<not> closed exCatDB" "\<not> poisoned exCatDB"
  by (simp_all add: exCatDB_def KeyedDB.extend_def Database.fields_def freshKeyed_def)

lemma ex_cat_inv: "cat_inv exCatDB"
proof -
  have "fresh (freshKeyed exCatOpts catalogKeyedFormatContents)"
    by (simp add: fresh_def freshKeyed_def options_ok_def exCatOpts_def)
  from fresh_based [OF this] have "keyed_inv (freshKeyed exCatOpts catalogKeyedFormatContents)"
    by (simp add: based_def)
  moreover have "dstate exCatDB = dstate (freshKeyed exCatOpts catalogKeyedFormatContents)"
    by (simp add: exCatDB_def KeyedDB.extend_def dstate_def)
  ultimately have "keyed_inv exCatDB" using keyed_inv_cong [of exCatDB] by blast
  then show ?thesis using ex_catalog(1,2)
    by (simp add: cat_inv_def ex_catdb query_inv_def keysOf_def records_ok_def exInfo_def exCatOpts_def)
qed

lemma ex_own: "ownRequest exCatDB (catalogRequest CtxLive (str ''c'') exProg)"
proof -
  have "progAll (ownHandle exCatDB) exProg"
    using ex_catalog(2) by (simp add: exProg_def ownHandle_def exDataset_def ex_catdb)
  then show ?thesis unfolding ownRequest_def by blast
qed

lemma crash_complete: "crash w (apply_pend (pend w) (durable w))"
  unfolding crash_def Let_def by (rule exI [of _ "length (pend w)"]) (auto simp: survives_def split: option.splits)

section \<open>The catalog file\<close>


definition exCatWorld :: world where
  "exCatWorld = \<lparr>files = fmupd CATALOG_file (catalogImage exCatalog) fmempty,
     durable = fmupd CATALOG_file (catalogImage exCatalog) fmempty, pend = [], tick = 0,
     faults = (\<lambda>n. if n = 4 then OpFail 0 else OpOk), windows = False\<rparr>"






lemma persist_calm: "calm w \<Longrightarrow> \<exists>w'. persistCatalog st w = (None, w')"
  by (simp add: persistCatalog_def Let_def os_OpenTrunc_def write_all_def file_Write_def file_Sync_def close_after_def
      file_Close_def io_check_def os_Rename_def syncDirectory_def directory_Sync_def)

definition exNewWorld :: world where
  "exNewWorld = \<lparr>files = fmupd FORMAT catalogKeyedFormatContents fmempty, durable = fmupd FORMAT catalogKeyedFormatContents fmempty,
     pend = [], tick = 0, faults = (\<lambda>_. OpOk), windows = False\<rparr>"


section \<open>Commands\<close>

text \<open>C24. The invariant of the catalog database is kept by every group of catalog commands over handles of
  the database, whatever the callbacks do and whichever storage call fails: no dataset exceeds its
  record bound or holds a value beyond its bound, and the cursors stay those of the records.\<close>

theorem catalog_commit_keeps_invariant:
  assumes "cat_inv db" "list_all (ownRequest db) qs" "unat (sequence db) + length qs < 2 ^ 64"
    and "processCommitGroup catalogHooks qs db w = (results, db', w')"
  shows "cat_inv db' \<and> catalog db' = catalog db"
  using group_catalog [OF assms] by blast

theorem catalog_commit_keeps_invariant_witness:
  "\<exists>results db' w'. processCommitGroup catalogHooks [catalogRequest CtxLive (str ''c'') exProg] exCatDB exCatWorld = (results, db', w')
     \<and> cat_inv db'"
proof -
  obtain results db' w' where g:
    "processCommitGroup catalogHooks [catalogRequest CtxLive (str ''c'') exProg] exCatDB exCatWorld = (results, db', w')"
    by (metis prod_cases3)
  from catalog_commit_keeps_invariant [OF ex_cat_inv _ _ g] ex_own have "cat_inv db'" by (simp add: ex_catdb)
  with g show ?thesis by blast
qed

lemma Bucket_Dataset_handle:
  assumes "cat_inv db" "Bucket_Dataset bucket c name opts db w = (Inr d, db', w')"
  shows "ownHandle db' d \<and> (dsInfo d \<in> set (allDatasets (catalog db)) \<or> iID (dsInfo d) \<notin> iID ` set (allDatasets (catalog db)))"
proof -
  obtain b where b: "bucket = Some b" using assms(2) by (cases bucket) (auto simp: Bucket_Dataset_def)
  obtain n where h: "validCatalogName ''dataset'' name = None" "normalizeDatasetOptions opts (options db) = Inr n"
    "enter db c ''dataset'' = None"
    using assms(2) by (auto simp: Bucket_Dataset_def b split: option.splits sum.splits)
  obtain bk where bk: "fmlookup (mapOf (Buckets (catalog db))) (bkName b) = Some bk"
    using assms(2) by (cases "fmlookup (mapOf (Buckets (catalog db))) (bkName b)")
      (auto simp: Bucket_Dataset_def b h Let_def bucketDatasets_clone)
  show ?thesis
  proof (cases "fmlookup (bucketDatasets bk) name")
    case (Some x)
    then have "d = \<lparr>dsDB = self db, dsInfo = x\<rparr>" "db' = db"
      using assms(2) by (auto simp: Bucket_Dataset_def b h Let_def bk split: if_splits)
    moreover have "x \<in> set (allDatasets (catalog db))" using Some bk by (auto simp: set_allDatasets catEntry_def)
    ultimately show ?thesis by (simp add: ownHandle_def)
  next
    case None
    define info where "info = \<lparr>iID = NextDatasetID (catalog db), iBucketName = bkName b, iName = name, iKind = oKind n, iOrigin = GoCatalog,
        iTypeIdentity = oTypeIdentity n, iBounds = \<lparr>bMaxRecords = oMaxRecords n, bMaxValueBytes = oMaxValueBytes n\<rparr>\<rparr>"
    let ?st = "withDataset (bkName b) name info \<lparr>Datasets = Some (bucketDatasets bk)\<rparr> (catalog db)"
    obtain w1 where p: "persistCatalog ?st w = (None, w1)" "d = \<lparr>dsDB = self db, dsInfo = info\<rparr>" "db' = db\<lparr>catalog := ?st\<rparr>"
      using assms(2) Bucket_Dataset_new [OF h bk None, of w, folded info_def]
      by (auto simp: b split: prod.splits option.splits)
    have "iID x < NextDatasetID (catalog db)" if "x \<in> set (allDatasets (catalog db))" for x
      using assms(1) that by (auto simp: cat_inv_def topology_ok_def set_allDatasets invalidDataset_def not_le)
    then have "iID info \<notin> iID ` set (allDatasets (catalog db))" by (fastforce simp: info_def)
    moreover have "info \<in> set (allDatasets ?st)"
      using catEntry_withDataset [OF bk None, of "\<lparr>Datasets = Some (bucketDatasets bk)\<rparr>" info] by (auto simp: set_allDatasets)
    ultimately show ?thesis using p(2,3) by (simp add: ownHandle_def)
  qed
qed



text \<open>C29. Datasets are isolated: a command whose callback does not use a handle of a dataset leaves every
  record of that dataset as it was.\<close>

theorem datasets_are_isolated:
  assumes "executeKeyed db (catalogRequest c command p) = ExecPersist r" "progAll (\<lambda>d. iID (dsInfo d) \<noteq> i) p"
  shows "datasetEntries (records (applyPlain r db)) i = datasetEntries (records db) i"
proof -
  let ?P = "\<lambda>tx. \<forall>k. fmlookup (writes tx) (backendRecordKey i k) = None"
  obtain out tx where run: "runCatalog p db newTx = (out, tx)" by fastforce
  have "?P (snd (runCatalog p db newTx))"
    by (rule runCatalog_keeps [OF _ _ _ assms(2)])
      (auto simp: ctx_Put_def ctx_Delete_def Let_def newTx_def split: option.splits if_splits dest!: validDataset_None)
  then have w: "?P tx" using run by simp
  have "snd (catalogMutation p db newTx) = tx"
    using run by (simp add: catalogMutation_def split: tx_outcome.split option.split)
  then obtain out' where m: "catalogMutation p db newTx = (out', tx)" by (cases "catalogMutation p db newTx") simp
  then have "runKeyedMutation db newTx (catalogMutation p) = (out', tx\<lparr>invalid := True\<rparr>)" by (simp add: runKeyedMutation_def)
  from executeKeyed_record [OF assms(1) _ this]
  have "rApplied r = False \<or> rMutations r = mutationsOf (writes tx)" by (auto simp: catalogRequest_def)
  then have "fmlookup (records (applyPlain r db)) (backendRecordKey i k) = fmlookup (records db) (backendRecordKey i k)" for k
    using w by (auto simp: lookup_apply_mutationsOf)
  then show ?thesis by (rule datasetEntries_cong)
qed

lemma ex_cat_execute: "\<exists>r. executeKeyed exCatDB (catalogRequest CtxLive (str ''c'') exProg) = ExecPersist r"
proof -
  have "executeKeyed exCatDB (catalogRequest CtxLive (str ''c'') exProg) = ExecPersist
      (zeroRecord\<lparr>rSequence := 1, rCommandID := str ''c'', rApplied := True, rResult := str ''true'',
        rMutations := [\<lparr>mKey = backendRecordKey 1 (str ''k''), mValue = str ''1'', mDelete = False\<rparr>]\<rparr>)"
    by code_simp
  then show ?thesis by blast
qed

theorem datasets_are_isolated_witness:
  "\<exists>r. executeKeyed exCatDB (catalogRequest CtxLive (str ''c'') exProg) = ExecPersist r
     \<and> datasetEntries (records (applyPlain r exCatDB)) 2 = []"
proof -
  obtain r where r: "executeKeyed exCatDB (catalogRequest CtxLive (str ''c'') exProg) = ExecPersist r"
    using ex_cat_execute by blast
  have "progAll (\<lambda>d. iID (dsInfo d) \<noteq> 2) exProg" by (simp add: exProg_def exDataset_def exInfo_def)
  from datasets_are_isolated [OF r this] r show ?thesis
    by (simp add: ex_catdb datasetEntries_def sorted_list_of_fmap_def sorted_list_of_fset.rep_eq)
qed

section \<open>Cursors and scans\<close>

definition exScanDB :: Database where
  "exScanDB = exCatDB\<lparr>records := fmupd (backendRecordKey 1 (str ''k'')) (str ''1'') fmempty,
     queryKeys := fmupd 1 [str ''k''] fmempty\<rparr>"

lemma ex_scan_inv: "query_inv exScanDB"
proof -
  have "queryKeys exScanDB = initializeQueryKeys (records exScanDB)" by code_simp
  then show ?thesis using tracksKeys_initialize [of "records exScanDB"] by (simp add: query_inv_tracks)
qed



text \<open>C25. A scan visits exactly the records of its dataset, each once, in ascending order of their keys:
  it is the reference scan over the records of the dataset in key order, with the same cancellation
  points, early stop and errors.\<close>

theorem scan_visits_dataset:
  assumes "query_inv db" "iKind (dsInfo d) = KeyedJSON" "enterKeyed db c ''dataset_scan'' = None"
  shows "scan (Some d) c cancelled visit db s
      = scanEntries cancelled visit 0 (datasetEntries (records db) (iID (dsInfo d))) s
    \<and> sorted (map fst (datasetEntries (records db) (iID (dsInfo d))))
    \<and> distinct (map fst (datasetEntries (records db) (iID (dsInfo d))))
    \<and> (\<forall>k v. (k, v) \<in> set (datasetEntries (records db) (iID (dsInfo d)))
          \<longleftrightarrow> fmlookup (records db) (backendRecordKey (iID (dsInfo d)) k) = Some v)"
proof -
  let ?i = "iID (dsInfo d)" and ?es = "datasetEntries (records db) (iID (dsInfo d))"
  have "scan (Some d) c cancelled visit db s = scanLoop cancelled visit (records db) ?i 0 (map fst ?es) s"
    using assms(2,3) by (simp add: scan_def cursor_entries [OF assms(1)])
  also have "\<dots> = scanEntries cancelled visit 0 ?es s" by (rule scanLoop_entries) (simp add: set_datasetEntries)
  finally show ?thesis using sorted_datasetEntries set_datasetEntries by blast
qed


theorem scan_visits_dataset_witness:
  "scan (Some exDataset) CtxLive (\<lambda>_. None) (\<lambda>s k v. (s @ [(k, v)], Inr ScanContinue)) exScanDB [] = (None, [(str ''k'', str ''1'')])"
proof -
  have e: "iKind (dsInfo exDataset) = KeyedJSON" "enterKeyed exScanDB CtxLive ''dataset_scan'' = None" by code_simp+
  have "datasetEntries (records exScanDB) (iID (dsInfo exDataset)) = [(str ''k'', str ''1'')]" by code_simp
  then show ?thesis using scan_visits_dataset [OF ex_scan_inv e, of "\<lambda>_. None" "\<lambda>s k v. (s @ [(k, v)], Inr ScanContinue)" "[]"]
    by (simp add: ScanContinue_def)
qed

section \<open>Findings\<close>

text \<open>What recovery makes of a log whose only record is \<open>r\<close>.\<close>

lemma replay_one:
  assumes "length (marshalRecord r) \<le> maxFrameBytes"
  shows "replayFrames (db, 0) 0 (walImage [r]) =
    (case replayRecord (db, 0) (sanRecord r) of Inl e \<Rightarrow> Inl e | Inr st \<Rightarrow> Inr (st, length (walImage [r])))"
proof -
  have "replayPayload (db, 0) (marshalRecord r) = replayRecord (db, 0) (sanRecord r)"
    by (simp add: replayPayload_def unmarshal_marshalRecord)
  then show ?thesis
    using keyed_log.replay_frames [of "[marshalRecord r]" "(db, 0)" 0 "[]"] admissible_record [OF assms]
    by (simp add: walImage_def keyed_log.replay_end split: sum.split)
qed

definition exHighDB :: Database where
  "exHighDB = exCatDB\<lparr>catalog := exCatalog\<lparr>NextDatasetID := 129,
     Buckets := Some (fmupd (str ''b'') \<lparr>Datasets = Some (fmupd (str ''d'') (exInfo\<lparr>iID := 128\<rparr>) fmempty)\<rparr> fmempty)\<rparr>\<rparr>"

definition exHighProg :: ctx_prog where
  "exHighProg = CPut (Some \<lparr>dsDB = 7, dsInfo = exInfo\<lparr>iID := 128\<rparr>\<rparr>) (str ''k'') (Some (str ''1'')) (\<lambda>_. CReturn (Some (str ''true'')))"

definition exHighRec :: keyedWALRecord where
  "exHighRec = \<lparr>rSequence = 1, rCommandID = str ''c'', rApplied = True, rCode = [], rResult = str ''true'',
     rMutations = [\<lparr>mKey = backendRecordKey 128 (str ''k''), mValue = str ''1'', mDelete = False\<rparr>]\<rparr>"

text \<open>C35. A finding: the key of a record holds the dataset identity as raw bytes, and the log is JSON, which
  replaces bytes that are not UTF-8. With dataset identity 128 a command is committed, its record comes
  back under another identity, and opening the database reports corruption.\<close>

theorem high_dataset_identities_are_lost:
  "executeKeyed exHighDB (catalogRequest CtxLive (str ''c'') exHighProg) = ExecPersist exHighRec
   \<and> validateCatalogState (catalog exHighDB) exHighDB = None
   \<and> (\<exists>db' l. replayFrames (exHighDB, 0) 0 (walImage [exHighRec]) = Inr ((db', l), length (walImage [exHighRec]))
        \<and> validateCatalogState (catalog exHighDB) db' = Some (catalogCorrupt ''record references an unknown dataset''))"
proof -
  have e: "executeKeyed exHighDB (catalogRequest CtxLive (str ''c'') exHighProg) = ExecPersist exHighRec"
    "validateCatalogState (catalog exHighDB) exHighDB = None" by code_simp+
  have "length (marshalRecord exHighRec) < 1000" by code_simp
  then have len: "length (marshalRecord exHighRec) \<le> maxFrameBytes" by (simp add: maxFrameBytes_def)
  have "\<not> isl (replayRecord (exHighDB, 0) (sanRecord exHighRec))"
    "validateCatalogState (catalog exHighDB) (fst (projr (replayRecord (exHighDB, 0) (sanRecord exHighRec))))
      = Some (catalogCorrupt ''record references an unknown dataset'')" by code_simp+
  then show ?thesis using e replay_one [OF len, of exHighDB]
    by (cases "replayRecord (exHighDB, 0) (sanRecord exHighRec)") auto
qed

definition exTightDB :: Database where
  "exTightDB = exCatDB\<lparr>options := exCatOpts\<lparr>MaxValueBytes := 4\<rparr>\<rparr>"

definition exWideProg :: ctx_prog where
  "exWideProg = CPut (Some exDataset) (str ''k'') (Some (str ''123456'')) (\<lambda>_. CReturn (Some (str ''1'')))"

definition exWideRec :: keyedWALRecord where
  "exWideRec = \<lparr>rSequence = 1, rCommandID = str ''c'', rApplied = True, rCode = [], rResult = str ''1'',
     rMutations = [\<lparr>mKey = backendRecordKey 1 (str ''k''), mValue = str ''123456'', mDelete = False\<rparr>]\<rparr>"

text \<open>C36. A finding: opening does not compare the bounds of a dataset with the options it is given, and
  \<open>Put\<close> compares a value with the bound of the dataset only. With a smaller \<open>MaxValueBytes\<close> than the
  dataset was created with, a command is committed, and recovery with the same options refuses the log.\<close>

theorem dataset_bound_above_options:
  "validateCatalogState (catalog exTightDB) exTightDB = None
   \<and> executeKeyed exTightDB (catalogRequest CtxLive (str ''c'') exWideProg) = ExecPersist exWideRec
   \<and> replayFrames (exTightDB, 0) 0 (walImage [exWideRec]) = Inl (capacity ''WAL value exceeds configured bound'')"
proof -
  have e: "validateCatalogState (catalog exTightDB) exTightDB = None"
    "executeKeyed exTightDB (catalogRequest CtxLive (str ''c'') exWideProg) = ExecPersist exWideRec" by code_simp+
  have "length (marshalRecord exWideRec) < 1000" by code_simp
  then have len: "length (marshalRecord exWideRec) \<le> maxFrameBytes" by (simp add: maxFrameBytes_def)
  have "replayRecord (exTightDB, 0) (sanRecord exWideRec) = Inl (capacity ''WAL value exceeds configured bound'')"
    by code_simp
  then show ?thesis using e replay_one [OF len, of exTightDB] by simp
qed

end
