(* ===== verification/Keyed_Coordinator.thy ===== *)
theory Keyed_Coordinator
  imports Keyed_Recovery
begin

text \<open>
  The commit coordinator of \<open>src/keyed.go\<close>: the goroutines of a keyed database, the queue they share,
  and their interleavings. Every client call of \<open>SubmitKeyed\<close>, the coordinator started by \<open>openKeyed\<close>,
  the call of \<open>Close\<close> that wins the compare-and-swap, and one call at a time that holds the admission
  token are modelled by where they stand; a step is what one of them does between two points at which
  another can interfere (a critical section of \<open>commit.mu\<close>, an atomic access, a channel operation, or
  the work done while the admission token is held).
\<close>

section \<open>The shared state\<close>

text \<open>Where a call of \<open>SubmitKeyed\<close> stands: past the checks made without the lock, with its request in the
  queue, waiting for its result, or back at its caller.\<close>

datatype clientPhase = Checked | Appended | Awaiting | Returned keyedCommitResult

text \<open>A call with its request and the one-slot channel \<open>result\<close> of the request.\<close>

record 's client =
  cRequest :: "'s keyedCommitRequest"
  cPhase :: clientPhase
  cResult :: "keyedCommitResult option"

text \<open>Where \<open>runCommitCoordinator\<close> stands: at \<open><-wake\<close>, at the head of the inner loop, at \<open><-admission\<close> with
  a group, inside \<open>processCommitGroup\<close>, or returned, with \<open>done\<close> closed.\<close>

datatype coordinatorPhase = Blocked | Draining | Taken "nat list" | Admitted "nat list" | Exited

datatype closePhase = NotClosing | Marked | Signalled | CloseReturned "go_error option"

datatype tokenCall = ReadCall | SnapshotCall

text \<open>
  The database, the queue (requests are named by the position of their call), the one-slot channel
  \<open>wake\<close>, the admission token, and the goroutines. \<open>sAccepted\<close> and \<open>sServed\<close> are history variables: the
  order in which requests entered the queue, and the groups that were processed.
\<close>

record 's system =
  sDB :: 's
  sWorld :: world
  sQueue :: "nat list"
  sWake :: bool
  sAdmission :: bool
  sDisabled :: bool
  sCoordinator :: coordinatorPhase
  sClients :: "'s client list"
  sClose :: closePhase
  sInside :: "tokenCall option"
  sAccepted :: "nat list"
  sServed :: "nat list list"

definition opened :: "bool \<Rightarrow> 's \<Rightarrow> world \<Rightarrow> 's system" where
  "opened disabled db w =
     \<lparr>sDB = db, sWorld = w, sQueue = [], sWake = False, sAdmission = True, sDisabled = disabled, sCoordinator = Blocked,
      sClients = [], sClose = NotClosing, sInside = None, sAccepted = [], sServed = []\<rparr>"

definition updClient :: "nat \<Rightarrow> ('s client \<Rightarrow> 's client) \<Rightarrow> 's system \<Rightarrow> 's system" where
  "updClient i f s = s\<lparr>sClients := (sClients s)[i := f (sClients s ! i)]\<rparr>"

abbreviation phaseOf :: "'s system \<Rightarrow> nat \<Rightarrow> clientPhase" where
  "phaseOf s i \<equiv> cPhase (sClients s ! i)"

text \<open>The non-blocking send on \<open>wake\<close>, which does nothing when the slot is full.\<close>

definition signal :: "'s system \<Rightarrow> 's system" where
  "signal s = s\<lparr>sWake := True\<rparr>"

section \<open>The calls of a client\<close>

definition submitBegin :: "'a KeyedDB_scheme keyedCommitRequest \<Rightarrow> 'a KeyedDB_scheme system \<Rightarrow> 'a KeyedDB_scheme system" where
  "submitBegin q s =
     s\<lparr>sClients := sClients s @
        [\<lparr>cRequest = q,
          cPhase = (case submitCheck (sDB s) (qCtx q) of
                      Some e \<Rightarrow> Returned (zeroResult\<lparr>crErr := Some e\<rparr>) | None \<Rightarrow> Checked),
          cResult = None\<rparr>]\<rparr>"

definition submitEnqueue :: "nat \<Rightarrow> 'a KeyedDB_scheme system \<Rightarrow> 'a KeyedDB_scheme system" where
  "submitEnqueue i s =
     (if closed (sDB s)
      then updClient i (cPhase_update (\<lambda>_. Returned (zeroResult\<lparr>crErr := Some (closedError ''submit_keyed'')\<rparr>))) s
      else (updClient i (cPhase_update (\<lambda>_. Appended)) s)\<lparr>sQueue := sQueue s @ [i], sAccepted := sAccepted s @ [i]\<rparr>)"

definition submitWake :: "nat \<Rightarrow> 's system \<Rightarrow> 's system" where
  "submitWake i s = signal (updClient i (cPhase_update (\<lambda>_. Awaiting)) s)"

definition submitReceive :: "nat \<Rightarrow> keyedCommitResult \<Rightarrow> 's system \<Rightarrow> 's system" where
  "submitReceive i res s = updClient i (\<lambda>c. c\<lparr>cPhase := Returned res, cResult := None\<rparr>) s"

section \<open>The coordinator\<close>

definition coordinatorReceive :: "'s system \<Rightarrow> 's system" where
  "coordinatorReceive s = s\<lparr>sWake := False, sCoordinator := Draining\<rparr>"

text \<open>The critical section at the head of the inner loop.\<close>

definition groupLimit :: "'s system \<Rightarrow> nat" where
  "groupLimit s = min (if sDisabled s then 1 else keyedMaxCommitGroup) (length (sQueue s))"

definition coordinatorTake :: "'a KeyedDB_scheme system \<Rightarrow> 'a KeyedDB_scheme system" where
  "coordinatorTake s =
     (if sQueue s = []
      then s\<lparr>sCoordinator := (if closed (sDB s) then Exited else Blocked)\<rparr>
      else s\<lparr>sCoordinator := Taken (take (groupLimit s) (sQueue s)), sQueue := drop (groupLimit s) (sQueue s)\<rparr>)"

definition coordinatorAdmit :: "nat list \<Rightarrow> 's system \<Rightarrow> 's system" where
  "coordinatorAdmit g s = s\<lparr>sAdmission := False, sCoordinator := Admitted g\<rparr>"

text \<open>\<open>request.result <- results[index]\<close> for every request of the group; the slot of a request is empty.\<close>

definition deliver :: "(nat \<times> keyedCommitResult) list \<Rightarrow> 's client list \<Rightarrow> 's client list" where
  "deliver answers cs = fold (\<lambda>(i, res) cs. cs[i := (cs ! i)\<lparr>cResult := Some res\<rparr>]) answers cs"

definition coordinatorServe ::
  "'a KeyedDB_scheme keyedHooks \<Rightarrow> nat list \<Rightarrow> 'a KeyedDB_scheme system \<Rightarrow> 'a KeyedDB_scheme system" where
  "coordinatorServe hooks g s =
     (case processCommitGroup hooks (map (\<lambda>i. cRequest (sClients s ! i)) g) (sDB s) (sWorld s) of
        (results, db, w) \<Rightarrow>
          s\<lparr>sDB := db, sWorld := w, sClients := deliver (zip g results) (sClients s), sAdmission := True,
            sCoordinator := Draining, sServed := sServed s @ [g]\<rparr>)"

section \<open>Closing, and the other calls that take the admission token\<close>

definition closeMark :: "'a KeyedDB_scheme system \<Rightarrow> 'a KeyedDB_scheme system" where
  "closeMark s = s\<lparr>sDB := (sDB s)\<lparr>closed := True\<rparr>, sClose := Marked\<rparr>"

definition closeWake :: "'s system \<Rightarrow> 's system" where
  "closeWake s = signal (s\<lparr>sClose := Signalled\<rparr>)"

text \<open>The rest of \<open>Close\<close>, once \<open>done\<close> is closed and the token was received; the token is given back.\<close>

definition closeStorage :: "'a KeyedDB_scheme \<Rightarrow> world \<Rightarrow> go_error option \<times> 'a KeyedDB_scheme \<times> world" where
  "closeStorage db w =
     (if poisoned db then walClose db w
      else case snapshotKeyed db w of
          (Some e, db2, w2) \<Rightarrow> (case walClose db2 w2 of (_, db3, w3) \<Rightarrow> (Some e, db3, w3))
        | (None, db2, w2) \<Rightarrow> walClose db2 w2)"

definition closeFinish :: "'a KeyedDB_scheme system \<Rightarrow> 'a KeyedDB_scheme system" where
  "closeFinish s =
     (case closeStorage (sDB s) (sWorld s) of
        (e, db, w) \<Rightarrow> s\<lparr>sDB := db, sWorld := w, sClose := CloseReturned e\<rparr>)"

definition tokenEnter :: "tokenCall \<Rightarrow> 's system \<Rightarrow> 's system" where
  "tokenEnter c s = s\<lparr>sAdmission := False, sInside := Some c\<rparr>"

text \<open>The body of \<open>GetKeyed\<close>, which changes nothing, or of \<open>SnapshotKeyed\<close>, and \<open>leaveKeyed\<close>.\<close>

definition tokenLeave :: "tokenCall \<Rightarrow> 'a KeyedDB_scheme system \<Rightarrow> 'a KeyedDB_scheme system" where
  "tokenLeave c s =
     (case c of
        ReadCall \<Rightarrow> s\<lparr>sAdmission := True, sInside := None\<rparr>
      | SnapshotCall \<Rightarrow>
          (case snapshotKeyed (sDB s) (sWorld s) of
             (e, db, w) \<Rightarrow>
               s\<lparr>sDB := (if e = None then db else db\<lparr>poisoned := True\<rparr>), sWorld := w,
                 sAdmission := True, sInside := None\<rparr>))"

section \<open>The interleavings\<close>

text \<open>The steps that the system takes of itself: each of them continues a call that has begun.\<close>

inductive progress :: "'a KeyedDB_scheme keyedHooks \<Rightarrow> 'a KeyedDB_scheme system \<Rightarrow> 'a KeyedDB_scheme system \<Rightarrow> bool"
  for hooks where
  enqueue: "i < length (sClients s) \<Longrightarrow> phaseOf s i = Checked \<Longrightarrow> progress hooks s (submitEnqueue i s)"
| wake: "i < length (sClients s) \<Longrightarrow> phaseOf s i = Appended \<Longrightarrow> progress hooks s (submitWake i s)"
| receive: "i < length (sClients s) \<Longrightarrow> phaseOf s i = Awaiting \<Longrightarrow> cResult (sClients s ! i) = Some res \<Longrightarrow>
    progress hooks s (submitReceive i res s)"
| woken: "sCoordinator s = Blocked \<Longrightarrow> sWake s \<Longrightarrow> progress hooks s (coordinatorReceive s)"
| taken: "sCoordinator s = Draining \<Longrightarrow> progress hooks s (coordinatorTake s)"
| admitted: "sCoordinator s = Taken g \<Longrightarrow> sAdmission s \<Longrightarrow> progress hooks s (coordinatorAdmit g s)"
| served: "sCoordinator s = Admitted g \<Longrightarrow> progress hooks s (coordinatorServe hooks g s)"
| close_wake: "sClose s = Marked \<Longrightarrow> progress hooks s (closeWake s)"
| close_finish: "sClose s = Signalled \<Longrightarrow> sCoordinator s = Exited \<Longrightarrow> sAdmission s \<Longrightarrow> progress hooks s (closeFinish s)"
| leave: "sInside s = Some c \<Longrightarrow> progress hooks s (tokenLeave c s)"

text \<open>The steps by which the environment begins a call.\<close>

inductive arrival :: "'a KeyedDB_scheme system \<Rightarrow> 'a KeyedDB_scheme system \<Rightarrow> bool" where
  submit: "arrival s (submitBegin q s)"
| close: "sClose s = NotClosing \<Longrightarrow> arrival s (closeMark s)"
| enter: "sAdmission s \<Longrightarrow> \<not> closed (sDB s) \<Longrightarrow> \<not> poisoned (sDB s) \<Longrightarrow> arrival s (tokenEnter c s)"

inductive reachable ::
  "'a KeyedDB_scheme keyedHooks \<Rightarrow> bool \<Rightarrow> 'a KeyedDB_scheme \<Rightarrow> world \<Rightarrow> 'a KeyedDB_scheme system \<Rightarrow> bool"
  for hooks disabled db w where
  opened: "reachable hooks disabled db w (opened disabled db w)"
| progress: "reachable hooks disabled db w s \<Longrightarrow> progress hooks s s' \<Longrightarrow> reachable hooks disabled db w s'"
| arrival: "reachable hooks disabled db w s \<Longrightarrow> arrival s s' \<Longrightarrow> reachable hooks disabled db w s'"

inductive_cases progressE: "progress hooks s s'"
inductive_cases arrivalE: "arrival s s'"

section \<open>Termination\<close>

fun phaseWeight :: "clientPhase \<Rightarrow> nat" where
  "phaseWeight Checked = 8"
| "phaseWeight Appended = 4"
| "phaseWeight Awaiting = 1"
| "phaseWeight (Returned _) = 0"

fun coordinatorWeight :: "coordinatorPhase \<Rightarrow> nat" where
  "coordinatorWeight (Taken _) = 3"
| "coordinatorWeight (Admitted _) = 2"
| "coordinatorWeight Draining = 1"
| "coordinatorWeight _ = 0"

fun closeWeight :: "closePhase \<Rightarrow> nat" where
  "closeWeight Marked = 4"
| "closeWeight Signalled = 1"
| "closeWeight _ = 0"

text \<open>What the calls that have begun still have to do.\<close>

definition clientsWork :: "'s client list \<Rightarrow> nat" where
  "clientsWork cs = sum_list (map (\<lambda>c. phaseWeight (cPhase c)) cs)"

definition work :: "'s system \<Rightarrow> nat" where
  "work s = clientsWork (sClients s) + 3 * length (sQueue s) + (if sWake s then 2 else 0)
     + coordinatorWeight (sCoordinator s) + closeWeight (sClose s) + (if sInside s = None then 0 else 1)"

lemma clientsWork_update:
  "i < length cs \<Longrightarrow> clientsWork (cs[i := c]) + phaseWeight (cPhase (cs ! i)) = clientsWork cs + phaseWeight (cPhase c)"
proof (induction cs arbitrary: i)
  case (Cons y ys)
  then show ?case by (cases i) (auto simp: clientsWork_def)
qed simp

lemma deliver_length [simp]: "length (deliver as cs) = length cs"
  unfolding deliver_def by (induction as arbitrary: cs) auto

lemma deliver_phase: "map cPhase (deliver as cs) = map cPhase cs"
proof -
  have "map cPhase (cs[i := (cs ! i)\<lparr>cResult := r\<rparr>]) = map cPhase cs" for i r and cs :: "'a client list"
    by (metis client.select_convs(2) client.surjective client.update_convs(3) list_update_id map_update)
  then show ?thesis unfolding deliver_def by (induction as arbitrary: cs) auto
qed

lemma clientsWork_deliver [simp]: "clientsWork (deliver as cs) = clientsWork cs"
proof -
  have "clientsWork ds = sum_list (map phaseWeight (map cPhase ds))" for ds :: "'a client list"
    by (simp add: clientsWork_def comp_def)
  then show ?thesis by (simp only: deliver_phase)
qed

lemma work_client:
  assumes "i < length (sClients s)" "phaseOf s i = p"
  shows "work (updClient i f s) + phaseWeight p = work s + phaseWeight (cPhase (f (sClients s ! i)))"
  using clientsWork_update [OF assms(1), of "f (sClients s ! i)"] assms(2) by (simp add: work_def updClient_def)

lemma work_queue: "sQueue t = q \<Longrightarrow> work (t\<lparr>sQueue := q @ [i], sAccepted := a\<rparr>) = work t + 3"
  by (simp add: work_def)

lemma work_signal: "work (signal s) \<le> work s + 2"
  by (simp add: work_def signal_def)

lemma work_decreases:
  assumes "progress hooks s s'"
  shows "work s' < work s"
  using assms
proof cases
  case (enqueue i)
  have q: "sQueue (updClient i f s) = sQueue s" for f by (simp add: updClient_def)
  show ?thesis
  proof (cases "closed (sDB s)")
    case True
    then show ?thesis
      using work_client [OF enqueue(2,3), of "cPhase_update (\<lambda>_. Returned (zeroResult\<lparr>crErr := Some (closedError ''submit_keyed'')\<rparr>))"]
        enqueue(1) by (simp add: submitEnqueue_def)
  next
    case False
    then show ?thesis
      using work_client [OF enqueue(2,3), of "cPhase_update (\<lambda>_. Appended)"] enqueue(1) work_queue [OF q]
      by (simp add: submitEnqueue_def)
  qed
next
  case (wake i)
  then show ?thesis
    using work_client [OF wake(2,3), of "cPhase_update (\<lambda>_. Awaiting)"] work_signal [of "updClient i (cPhase_update (\<lambda>_. Awaiting)) s"]
    by (simp add: submitWake_def)
next
  case (receive i res)
  then show ?thesis
    using work_client [OF receive(2,3), of "\<lambda>c. c\<lparr>cPhase := Returned res, cResult := None\<rparr>"] by (simp add: submitReceive_def)
next
  case taken
  have "0 < groupLimit s" if "sQueue s \<noteq> []" using that by (simp add: groupLimit_def keyedMaxCommitGroup_def)
  then show ?thesis using taken by (cases "sQueue s") (auto simp: coordinatorTake_def work_def)
next
  case (leave c)
  then show ?thesis by (cases c) (auto simp: tokenLeave_def work_def split: prod.split)
qed (auto simp: work_def coordinatorReceive_def coordinatorAdmit_def coordinatorServe_def closeWake_def signal_def closeFinish_def
    split: prod.split)

section \<open>The invariant of the queue\<close>

fun inHand :: "coordinatorPhase \<Rightarrow> nat list" where
  "inHand (Taken g) = g"
| "inHand (Admitted g) = g"
| "inHand _ = []"

abbreviation pending :: "'s system \<Rightarrow> nat list" where
  "pending s \<equiv> inHand (sCoordinator s) @ sQueue s"

text \<open>A call waits either for its turn or with its result in its channel, never both and never neither.\<close>

definition clientOk :: "nat list \<Rightarrow> nat list \<Rightarrow> nat \<Rightarrow> 's client \<Rightarrow> bool" where
  "clientOk accepted waiting i c \<longleftrightarrow>
     (case cPhase c of
        Checked \<Rightarrow> cResult c = None \<and> i \<notin> set accepted
      | Appended \<Rightarrow> i \<in> set accepted \<and> (i \<in> set waiting \<longleftrightarrow> cResult c = None)
      | Awaiting \<Rightarrow> i \<in> set accepted \<and> (i \<in> set waiting \<longleftrightarrow> cResult c = None)
      | Returned _ \<Rightarrow> cResult c = None \<and> i \<notin> set waiting)"

definition groupOk :: "nat list \<Rightarrow> bool" where
  "groupOk g \<longleftrightarrow> g \<noteq> [] \<and> length g \<le> keyedMaxCommitGroup"

definition requestsOk :: "'s system \<Rightarrow> bool" where
  "requestsOk s \<longleftrightarrow>
     (\<forall>i < length (sClients s). clientOk (sAccepted s) (pending s) i (sClients s ! i))
     \<and> sAccepted s = concat (sServed s) @ pending s \<and> distinct (sAccepted s) \<and> set (sAccepted s) \<subseteq> {..<length (sClients s)}
     \<and> list_all groupOk (sServed s) \<and> (\<forall>g. sCoordinator s = Taken g \<or> sCoordinator s = Admitted g \<longrightarrow> groupOk g)"

text \<open>No wake-up is lost, the token is where it is said to be, and \<open>Close\<close> comes after the coordinator.\<close>

definition signalsOk :: "'a KeyedDB_scheme system \<Rightarrow> bool" where
  "signalsOk s \<longleftrightarrow>
     (sCoordinator s = Blocked \<and> sQueue s \<noteq> [] \<longrightarrow> sWake s \<or> (\<exists>i < length (sClients s). phaseOf s i = Appended))
     \<and> (sCoordinator s = Blocked \<and> closed (sDB s) \<longrightarrow> sWake s \<or> sClose s = Marked)
     \<and> (closed (sDB s) \<longleftrightarrow> sClose s \<noteq> NotClosing)
     \<and> (sCoordinator s = Exited \<longrightarrow> sQueue s = [] \<and> closed (sDB s))
     \<and> (\<forall>e. sClose s = CloseReturned e \<longrightarrow> sCoordinator s = Exited)
     \<and> (sAdmission s \<longleftrightarrow> (\<forall>g. sCoordinator s \<noteq> Admitted g) \<and> sInside s = None)
     \<and> ((\<exists>g. sCoordinator s = Admitted g) \<longrightarrow> sInside s = None)"

subsection \<open>What a group keeps\<close>

lemma commitOne_shape:
  assumes "hook_ok hooks"
  shows "closed (gDB (commitOne hooks q g)) = closed (gDB g)"
    "length (gResults (commitOne hooks q g)) = Suc (length (gResults g))"
    "length (gDurable (commitOne hooks q g)) = Suc (length (gDurable g))"
proof -
  have a: "closed db' = closed db" if "appendKeyedFrame hooks r db w = (e, db', w')" for r db w e db' w'
    using that by (auto simp: appendKeyedFrame_def Let_def split: option.splits if_splits prod.splits)
  show "closed (gDB (commitOne hooks q g)) = closed (gDB g)"
    using a applyKeyed_hook(5) [OF assms]
    by (auto simp: commitOne_def Let_def split: option.split ctx.split prod.split)
  show "length (gResults (commitOne hooks q g)) = Suc (length (gResults g))"
    "length (gDurable (commitOne hooks q g)) = Suc (length (gDurable g))"
    by (auto simp: commitOne_def Let_def split: option.split ctx.split prod.split)
qed

lemma processCommitGroup_shape:
  assumes "hook_ok hooks" "processCommitGroup hooks qs db w = (results, db', w')"
  shows "closed db' = closed db" "length results = length qs"
proof -
  let ?g = "fold (commitOne hooks) qs (groupStart db w qs)"
  have "closed (gDB (fold (commitOne hooks) qs g)) = closed (gDB g)
      \<and> length (gResults (fold (commitOne hooks) qs g)) = length (gResults g) + length qs
      \<and> length (gDurable (fold (commitOne hooks) qs g)) = length (gDurable g) + length qs" for g
    by (induction qs arbitrary: g) (auto simp: commitOne_shape [OF assms(1)])
  from this [of "groupStart db w qs"] show "closed db' = closed db" "length results = length qs"
    using assms(2) by (auto simp: processCommitGroup_def groupFinish_def groupStart_def Let_def split: if_splits option.splits prod.splits)
qed

lemma snapshotKeyed_closed: "snapshotKeyed db w = (e, db', w') \<Longrightarrow> closed db' = closed db"
  by (auto simp: snapshotKeyed_def Let_def split: if_splits prod.splits option.splits)

lemma closeStorage_closed: "closeStorage db w = (e, db', w') \<Longrightarrow> closed db' = closed db"
  by (auto simp: closeStorage_def walClose_def dest!: snapshotKeyed_closed split: if_splits prod.splits option.splits)

lemma CloseKeyed_storage: "\<not> closed db \<Longrightarrow> CloseKeyed db w = closeStorage (db\<lparr>closed := True\<rparr>) w"
  by (simp add: CloseKeyed_def closeStorage_def Let_def)

lemma deliver_nth:
  "distinct (map fst as) \<Longrightarrow> i < length cs \<Longrightarrow>
   deliver as cs ! i = (case map_of as i of None \<Rightarrow> cs ! i | Some res \<Rightarrow> (cs ! i)\<lparr>cResult := Some res\<rparr>)"
proof (induction as arbitrary: cs)
  case (Cons a as)
  obtain j res where a: "a = (j, res)" by (cases a)
  have "map_of as j = None" using Cons.prems(1) a by (simp add: map_of_eq_None_iff)
  then show ?case using Cons a by (auto simp: deliver_def nth_list_update split: option.split)
qed (simp add: deliver_def)

subsection \<open>Every step keeps it\<close>

lemma requestsOkI:
  assumes "\<And>i. i < length (sClients s) \<Longrightarrow> clientOk (sAccepted s) (pending s) i (sClients s ! i)"
    and "sAccepted s = concat (sServed s) @ pending s" "distinct (sAccepted s)" "set (sAccepted s) \<subseteq> {..<length (sClients s)}"
    and "list_all groupOk (sServed s)" "\<And>g. sCoordinator s = Taken g \<or> sCoordinator s = Admitted g \<Longrightarrow> groupOk g"
  shows "requestsOk s"
  using assms unfolding requestsOk_def by blast

lemma requestsOkD:
  assumes "requestsOk s"
  shows "i < length (sClients s) \<Longrightarrow> clientOk (sAccepted s) (pending s) i (sClients s ! i)"
    and "sAccepted s = concat (sServed s) @ pending s" "distinct (sAccepted s)" "set (sAccepted s) \<subseteq> {..<length (sClients s)}"
    and "list_all groupOk (sServed s)" "sCoordinator s = Taken g \<Longrightarrow> groupOk g" "sCoordinator s = Admitted g \<Longrightarrow> groupOk g"
  using assms unfolding requestsOk_def by blast+

text \<open>A step that leaves the requests and the clients alone.\<close>

lemma requestsOk_cong:
  assumes "requestsOk s" "sClients s' = sClients s" "sAccepted s' = sAccepted s" "sServed s' = sServed s" "pending s' = pending s"
    and "\<And>g. sCoordinator s' = Taken g \<or> sCoordinator s' = Admitted g \<Longrightarrow> groupOk g"
  shows "requestsOk s'"
  using assms unfolding requestsOk_def by metis

lemma pending_fields [simp]:
  "pending (updClient i f s) = pending s" "sAccepted (updClient i f s) = sAccepted s" "sServed (updClient i f s) = sServed s"
  "sCoordinator (updClient i f s) = sCoordinator s" "length (sClients (updClient i f s)) = length (sClients s)"
  "sDB (updClient i f s) = sDB s" "sWake (updClient i f s) = sWake s" "sClose (updClient i f s) = sClose s"
  "sAdmission (updClient i f s) = sAdmission s" "sInside (updClient i f s) = sInside s" "sQueue (updClient i f s) = sQueue s"
  by (simp_all add: updClient_def)

lemma updClient_nth:
  "j < length (sClients s) \<Longrightarrow> sClients (updClient i f s) ! j = (if j = i then f (sClients s ! i) else sClients s ! j)"
  by (simp add: updClient_def nth_list_update)

lemma requestsOk_client:
  assumes "requestsOk s" "i < length (sClients s)" "clientOk (sAccepted s) (pending s) i (f (sClients s ! i))"
  shows "requestsOk (updClient i f s)"
  using requestsOkD [OF assms(1)] assms(3)
  by (intro requestsOkI) (auto simp: updClient_nth)

lemma requestsOk_enqueue:
  assumes r: "requestsOk s" "i < length (sClients s)" "phaseOf s i = Checked"
  shows "requestsOk (submitEnqueue i s)"
proof -
  note D = requestsOkD [OF r(1)]
  have n: "i \<notin> set (sAccepted s)" "cResult (sClients s ! i) = None" using D(1) [OF r(2)] r(3) by (simp_all add: clientOk_def)
  then have p: "i \<notin> set (pending s)" using D(2) by auto
  have "clientOk (sAccepted s @ [i]) (pending s @ [i]) j (sClients s ! j)" if "j < length (sClients s)" "j \<noteq> i" for j
    using D(1) [OF that(1)] that(2) by (auto simp: clientOk_def split: clientPhase.splits)
  then have "requestsOk (submitEnqueue i s)" if "\<not> closed (sDB s)" using D n r(2) that
    by (intro requestsOkI) (auto simp: submitEnqueue_def updClient_nth clientOk_def)
  moreover have "requestsOk (submitEnqueue i s)" if "closed (sDB s)"
    using n p r that by (simp add: submitEnqueue_def) (rule requestsOk_client, auto simp: clientOk_def)
  ultimately show ?thesis by blast
qed

lemma requestsOk_take:
  assumes r: "requestsOk s" "sCoordinator s = Draining"
  shows "requestsOk (coordinatorTake s)"
proof -
  have "groupOk (take (groupLimit s) (sQueue s))" if "sQueue s \<noteq> []"
    using that by (auto simp: groupOk_def groupLimit_def keyedMaxCommitGroup_def)
  then show ?thesis by (intro requestsOk_cong [OF r(1)]) (auto simp: coordinatorTake_def r(2) split: if_splits)
qed

lemma requestsOk_serve:
  assumes r: "requestsOk s" "sCoordinator s = Admitted g" and h: "hook_ok hooks"
  shows "requestsOk (coordinatorServe hooks g s)"
proof -
  note D = requestsOkD [OF r(1)]
  obtain results db w where p: "processCommitGroup hooks (map (\<lambda>i. cRequest (sClients s ! i)) g) (sDB s) (sWorld s) = (results, db, w)"
    by (metis prod_cases3)
  have l: "length results = length g" using processCommitGroup_shape(2) [OF h p] by simp
  have d: "distinct (g @ sQueue s)" "set (g @ sQueue s) \<subseteq> set (sAccepted s)" using D(2,3) r(2) by auto
  have n: "deliver (zip g results) (sClients s) ! i =
      (case map_of (zip g results) i of None \<Rightarrow> sClients s ! i | Some res \<Rightarrow> (sClients s ! i)\<lparr>cResult := Some res\<rparr>)"
    if "i < length (sClients s)" for i using deliver_nth [OF _ that] d(1) l by simp
  have "clientOk (sAccepted s) (sQueue s) i (deliver (zip g results) (sClients s) ! i)" if i: "i < length (sClients s)" for i
  proof (cases "i \<in> set g")
    case True
    then obtain res where "map_of (zip g results) i = Some res" using l by (metis map_of_zip_is_Some)
    then show ?thesis using D(1) [OF i] True d r(2) by (auto simp: n [OF i] clientOk_def split: clientPhase.splits)
  next
    case False
    then have "map_of (zip g results) i = None" using l by (simp add: map_of_zip_is_None)
    then show ?thesis using D(1) [OF i] False r(2) by (auto simp: n [OF i] clientOk_def split: clientPhase.splits)
  qed
  then show ?thesis using D r(2) p by (intro requestsOkI) (auto simp: coordinatorServe_def)
qed

lemma requestsOk_progress:
  assumes "progress hooks s s'" "requestsOk s" "hook_ok hooks"
  shows "requestsOk s'"
  using assms(1)
proof cases
  case (wake i)
  have "requestsOk (updClient i (cPhase_update (\<lambda>_. Awaiting)) s)"
    using requestsOkD(1) [OF assms(2) wake(2)] wake by (intro requestsOk_client assms(2)) (auto simp: clientOk_def)
  then show ?thesis by (rule requestsOk_cong) (use requestsOkD(6,7) [OF assms(2)] wake(1) in \<open>auto simp: submitWake_def signal_def\<close>)
next
  case (receive i res)
  then show ?thesis
    using requestsOkD(1) [OF assms(2) receive(2)] by (auto simp: submitReceive_def clientOk_def intro!: requestsOk_client assms(2))
next
  case (leave c)
  then show ?thesis using requestsOkD(6,7) [OF assms(2)]
    by (intro requestsOk_cong [OF assms(2)]) (auto simp: tokenLeave_def split: tokenCall.splits prod.splits)
next
  case (close_finish)
  then show ?thesis by (intro requestsOk_cong [OF assms(2)]) (auto simp: closeFinish_def split: prod.splits)
next
  case (enqueue i)
  then show ?thesis by (simp add: requestsOk_enqueue [OF assms(2)])
next
  case taken
  then show ?thesis by (simp add: requestsOk_take [OF assms(2)])
next
  case (served g)
  then show ?thesis by (simp add: requestsOk_serve [OF assms(2) _ assms(3)])
qed (use requestsOkD(6,7) [OF assms(2)] in \<open>auto simp: coordinatorReceive_def coordinatorAdmit_def closeWake_def signal_def
    intro!: requestsOk_cong [OF assms(2)]\<close>)

lemma requestsOk_arrival:
  assumes "arrival s s'" "requestsOk s"
  shows "requestsOk s'"
  using assms(1)
proof cases
  case (submit q)
  have "i \<notin> set (pending s) \<and> i \<notin> set (sAccepted s)" if "\<not> i < length (sClients s)" for i
    using requestsOkD(2,4) [OF assms(2)] that by auto
  then show ?thesis using requestsOkD [OF assms(2)] submit
    by (intro requestsOkI) (auto simp: submitBegin_def nth_append clientOk_def less_Suc_eq split: option.split)
qed (use requestsOkD(6,7) [OF assms(2)] in \<open>auto simp: closeMark_def tokenEnter_def intro!: requestsOk_cong [OF assms(2)]\<close>)

lemma signalsOk_cong:
  assumes "signalsOk s" "closed (sDB s') = closed (sDB s)" "sClose s' = sClose s" "sWake s' = sWake s" "sQueue s' = sQueue s"
    "sCoordinator s' = sCoordinator s" "sAdmission s' = sAdmission s" "sInside s' = sInside s"
    and "\<And>i. i < length (sClients s) \<Longrightarrow> phaseOf s i = Appended \<Longrightarrow> sWake s \<or> (\<exists>j < length (sClients s'). phaseOf s' j = Appended)"
  shows "signalsOk s'"
  using assms unfolding signalsOk_def by metis

lemma signalsOk_enqueue:
  assumes "signalsOk s" "i < length (sClients s)" "phaseOf s i = Checked"
  shows "signalsOk (submitEnqueue i s)"
proof (cases "closed (sDB s)")
  case True
  have "\<exists>k < length (sClients s). phaseOf (submitEnqueue i s) k = Appended"
    if j: "j < length (sClients s)" "phaseOf s j = Appended" for j
    using j assms(3) True by (intro exI [of _ j]) (auto simp: submitEnqueue_def updClient_nth)
  then show ?thesis using True by (intro signalsOk_cong [OF assms(1)]) (auto simp: submitEnqueue_def)
next
  case False
  then have "phaseOf (submitEnqueue i s) i = Appended" "sQueue (submitEnqueue i s) \<noteq> []"
    "\<not> closed (sDB (submitEnqueue i s))" "sCoordinator (submitEnqueue i s) = sCoordinator s" "sClose (submitEnqueue i s) = sClose s"
    "sAdmission (submitEnqueue i s) = sAdmission s" "sInside (submitEnqueue i s) = sInside s"
    "length (sClients (submitEnqueue i s)) = length (sClients s)"
    using assms(2) by (simp_all add: submitEnqueue_def updClient_nth)
  with False assms(1,2) show ?thesis unfolding signalsOk_def by auto
qed

lemma signalsOk_serve:
  assumes "signalsOk s" "sCoordinator s = Admitted g" "hook_ok hooks"
  shows "signalsOk (coordinatorServe hooks g s)"
proof -
  obtain results db w where p: "processCommitGroup hooks (map (\<lambda>i. cRequest (sClients s ! i)) g) (sDB s) (sWorld s) = (results, db, w)"
    by (metis prod_cases3)
  show ?thesis using assms(1,2) p processCommitGroup_shape(1) [OF assms(3) p] by (auto simp: signalsOk_def coordinatorServe_def)
qed

lemma signalsOk_progress:
  assumes "progress hooks s s'" "signalsOk s" "hook_ok hooks"
  shows "signalsOk s'"
  using assms(1)
proof cases
  case (enqueue i)
  then show ?thesis by (simp add: signalsOk_enqueue [OF assms(2)])
next
  case (served g)
  then show ?thesis by (simp add: signalsOk_serve [OF assms(2) _ assms(3)])
next
  case (receive i res)
  have "\<exists>k < length (sClients s). phaseOf s' k = Appended"
    if j: "j < length (sClients s)" "phaseOf s j = Appended" for j
    using j receive by (intro exI [of _ j]) (auto simp: submitReceive_def updClient_nth)
  then show ?thesis using receive(1) by (intro signalsOk_cong [OF assms(2)]) (auto simp: submitReceive_def)
next
  case (leave c)
  then show ?thesis using assms(2)
    by (cases c) (auto simp: signalsOk_def tokenLeave_def dest!: snapshotKeyed_closed split: prod.splits)
next
  case close_finish
  then show ?thesis using assms(2) by (auto simp: signalsOk_def closeFinish_def dest!: closeStorage_closed split: prod.splits)
qed (use assms(2) in \<open>auto simp: signalsOk_def submitWake_def signal_def coordinatorReceive_def coordinatorTake_def coordinatorAdmit_def
    closeWake_def\<close>)

lemma signalsOk_arrival:
  assumes "arrival s s'" "signalsOk s"
  shows "signalsOk s'"
  using assms(1)
proof cases
  case (submit q)
  have "\<exists>k < Suc (length (sClients s)). phaseOf s' k = Appended"
    if j: "j < length (sClients s)" "phaseOf s j = Appended" for j
    using j submit by (intro exI [of _ j]) (auto simp: submitBegin_def nth_append)
  then show ?thesis using submit by (intro signalsOk_cong [OF assms(2)]) (auto simp: submitBegin_def)
qed (use assms(2) in \<open>auto simp: signalsOk_def closeMark_def tokenEnter_def\<close>)

lemma reachable_ok:
  assumes "reachable hooks disabled db w s" "hook_ok hooks" "\<not> closed db"
  shows "requestsOk s \<and> signalsOk s"
  using assms
proof induction
  case opened
  then show ?case by (simp add: opened_def requestsOk_def signalsOk_def)
qed (blast intro: requestsOk_progress signalsOk_progress requestsOk_arrival signalsOk_arrival)+

section \<open>Progress\<close>

text \<open>Every call that began has returned.\<close>

definition finished :: "'a KeyedDB_scheme system \<Rightarrow> bool" where
  "finished s \<longleftrightarrow>
     list_all (\<lambda>c. case cPhase c of Returned _ \<Rightarrow> True | _ \<Rightarrow> False) (sClients s) \<and> sQueue s = [] \<and> sInside s = None
     \<and> (closed (sDB s) \<longleftrightarrow> (\<exists>e. sClose s = CloseReturned e))"

lemma not_stuck:
  assumes "requestsOk s" "signalsOk s" "\<not> finished s"
  shows "\<exists>s'. progress hooks s s'"
proof (rule ccontr)
  assume stuck: "\<not> (\<exists>s'. progress hooks s s')"
  have inside: "sInside s = None" using stuck progress.leave [of s] by (cases "sInside s") blast+
  have "sCoordinator s \<noteq> Draining" "\<And>g. sCoordinator s \<noteq> Admitted g" "sCoordinator s = Blocked \<Longrightarrow> \<not> sWake s"
    "\<And>g. sCoordinator s = Taken g \<Longrightarrow> \<not> sAdmission s"
    using stuck progress.taken [of s] progress.served [of s] progress.woken [of s] progress.admitted [of s] by blast+
  then have co: "sCoordinator s = Blocked \<and> \<not> sWake s \<or> sCoordinator s = Exited"
    using assms(2) inside by (cases "sCoordinator s") (auto simp: signalsOk_def)
  have c: "(\<exists>r. phaseOf s i = Returned r) \<or> phaseOf s i = Awaiting \<and> i \<in> set (pending s)" if i: "i < length (sClients s)" for i
  proof -
    have "phaseOf s i \<noteq> Checked" "phaseOf s i \<noteq> Appended" using stuck progress.enqueue [OF i] progress.wake [OF i] by blast+
    moreover have "cResult (sClients s ! i) = None" if "phaseOf s i = Awaiting"
      using stuck progress.receive [OF i that] by (cases "cResult (sClients s ! i)") blast+
    ultimately show ?thesis using requestsOkD(1) [OF assms(1) i] by (cases "phaseOf s i") (auto simp: clientOk_def)
  qed
  have q: "sQueue s = []" using assms(2) co c unfolding signalsOk_def by force
  then have "pending s = []" using co by auto
  then have r: "\<exists>r. phaseOf s i = Returned r" if "i < length (sClients s)" for i using c [OF that] by auto
  have "sClose s \<noteq> Marked" "sClose s = Signalled \<Longrightarrow> sCoordinator s \<noteq> Exited \<or> \<not> sAdmission s"
    using stuck progress.close_wake [of s] progress.close_finish [of s] by blast+
  then have "closed (sDB s) \<longleftrightarrow> (\<exists>e. sClose s = CloseReturned e)"
    using assms(2) co inside by (cases "sClose s") (auto simp: signalsOk_def)
  moreover have "list_all (\<lambda>c. case cPhase c of Returned _ \<Rightarrow> True | _ \<Rightarrow> False) (sClients s)"
    unfolding list_all_length using r by fastforce
  ultimately show False using q inside assms(3) by (simp add: finished_def)
qed

text \<open>Whatever the order in which the calls that have begun are continued, they all return.\<close>

lemma progress_ok: "(progress hooks)\<^sup>*\<^sup>* s s' \<Longrightarrow> hook_ok hooks \<Longrightarrow> requestsOk s \<and> signalsOk s \<Longrightarrow> requestsOk s' \<and> signalsOk s'"
  by (induction rule: rtranclp_induct) (auto intro: requestsOk_progress signalsOk_progress)

lemma some_run_finishes:
  assumes "hook_ok hooks" "requestsOk s" "signalsOk s"
  shows "\<exists>s'. (progress hooks)\<^sup>*\<^sup>* s s' \<and> finished s'"
  using assms(2,3)
proof (induction "work s" arbitrary: s rule: less_induct)
  case less
  show ?case
  proof (cases "finished s")
    case False
    then obtain t where t: "progress hooks s t" using not_stuck less.prems by blast
    then show ?thesis
      using less.hyps [OF work_decreases [OF t]] requestsOk_progress [OF t _ assms(1)] signalsOk_progress [OF t _ assms(1)] less.prems
      by (meson converse_rtranclp_into_rtranclp)
  qed blast
qed

lemma run_length: "(progress hooks ^^ n) s s' \<Longrightarrow> work s' + n \<le> work s"
proof (induction n arbitrary: s')
  case (Suc n)
  then obtain t where "(progress hooks ^^ n) s t" "progress hooks t s'" by auto
  then show ?case using Suc.IH [of t] work_decreases [of hooks t s'] by simp
qed simp

end
