(* ===== verification/Coordinator_Theorems.thy ===== *)
theory Coordinator_Theorems
  imports Keyed_Coordinator Keyed_Theorems
begin

text \<open>
  The correctness of the commit coordinator: every call returns, the work to do is bounded, and requests
  are processed in the order of the queue, once each.
\<close>

definition exCalled :: "KeyedDB system" where
  "exCalled = submitBegin exReq (opened False exDB exWorld)"

lemma ex_called: "reachable noHooks False exDB exWorld exCalled" "phaseOf exCalled 0 = Checked" "length (sClients exCalled) = 1"
proof -
  show "reachable noHooks False exDB exWorld exCalled"
    unfolding exCalled_def by (rule reachable.arrival [OF reachable.opened arrival.submit])
  have "qCtx exReq = CtxLive" by (simp add: exReq_def)
  then show "phaseOf exCalled 0 = Checked" "length (sClients exCalled) = 1"
    using ex_db by (simp_all add: exCalled_def submitBegin_def opened_def submitCheck_def)
qed

text \<open>C4. Every call returns: from any state that any interleaving of submissions, reads, snapshots and a
  close can reach, the calls that have begun can be completed, and they are all complete whenever the
  system has no step left to take; no wake-up is lost, no request is left in the queue, and \<open>Close\<close>
  does not wait for ever.\<close>

theorem every_call_returns:
  assumes "reachable hooks disabled db w s" "hook_ok hooks" "\<not> closed db"
  shows "(\<exists>s'. (progress hooks)\<^sup>*\<^sup>* s s' \<and> finished s')
    \<and> (\<forall>s'. (progress hooks)\<^sup>*\<^sup>* s s' \<and> (\<nexists>t. progress hooks s' t) \<longrightarrow> finished s')"
  using reachable_ok [OF assms] some_run_finishes [OF assms(2)] progress_ok [OF _ assms(2)] not_stuck by blast

theorem every_call_returns_witness:
  "\<not> finished exCalled \<and> (\<exists>s'. (progress noHooks)\<^sup>*\<^sup>* exCalled s' \<and> finished s')"
proof -
  have "\<not> finished exCalled" using ex_called(2,3) by (auto simp: finished_def list_all_length)
  then show ?thesis using every_call_returns [OF ex_called(1) hook_ok_noHooks ex_db(3)] by blast
qed

text \<open>C11. The calls that have begun cannot go on for ever: no infinite sequence of steps continues them, and
  the number of steps is bounded by the work that is left, which is at most eight steps for each call,
  three for each queued request, and ten more.\<close>

theorem calls_terminate:
  fixes t :: "'a KeyedDB_scheme system"
  shows "wfp (\<lambda>s' s. progress hooks s s') \<and> (\<nexists>n s s'. (progress hooks ^^ n) s s' \<and> work s < n)
   \<and> work t \<le> 8 * length (sClients t) + 3 * length (sQueue t) + 10"
proof (intro conjI)
  show "wfp (\<lambda>s' s. progress hooks s s')"
    by (rule wfp_if_convertible_to_nat [of _ work]) (rule work_decreases)
  show "\<nexists>n s s'. (progress hooks ^^ n) s s' \<and> work s < n" using run_length by fastforce
  have "phaseWeight p \<le> 8" for p by (cases p) auto
  then have "clientsWork cs \<le> 8 * length cs" for cs :: "'a KeyedDB_scheme client list"
    unfolding clientsWork_def by (induction cs) (simp_all add: add_mono)
  from this [of "sClients t"] show "work t \<le> 8 * length (sClients t) + 3 * length (sQueue t) + 10"
    by (cases "sCoordinator t"; cases "sClose t") (auto simp: work_def)
qed

text \<open>C10. First come, first served, and once: in every reachable state the requests that entered the queue
  are, in this order, those of the groups processed so far, those of the group in hand and those still
  queued, none of them twice; a group has at least one and at most 64 requests; the group in hand is
  processed by the only holder of the admission token; and once \<open>Close\<close> has returned every request that
  entered the queue has been processed.\<close>

theorem requests_in_order:
  assumes "reachable hooks disabled db w s" "hook_ok hooks" "\<not> closed db"
  shows "sAccepted s = concat (sServed s) @ inHand (sCoordinator s) @ sQueue s \<and> distinct (sAccepted s)
    \<and> list_all (\<lambda>g. g \<noteq> [] \<and> length g \<le> 64) (sServed s)
    \<and> (\<forall>g. sCoordinator s = Admitted g \<longrightarrow> \<not> sAdmission s \<and> sInside s = None)
    \<and> (\<forall>e. sClose s = CloseReturned e \<longrightarrow> sAccepted s = concat (sServed s))"
proof -
  have r: "requestsOk s" "signalsOk s" using reachable_ok [OF assms] by simp_all
  then have "list_all (\<lambda>g. g \<noteq> [] \<and> length g \<le> 64) (sServed s)"
    using requestsOkD(5) [of s] by (simp add: groupOk_def keyedMaxCommitGroup_def [symmetric] list_all_iff)
  moreover have "sAccepted s = concat (sServed s)" if "sClose s = CloseReturned e" for e
  proof -
    have "sCoordinator s = Exited" "sQueue s = []" using r(2) that unfolding signalsOk_def by blast+
    then show ?thesis using requestsOkD(2) [OF r(1)] by simp
  qed
  moreover have "\<forall>g. sCoordinator s = Admitted g \<longrightarrow> \<not> sAdmission s \<and> sInside s = None"
    using r(2) unfolding signalsOk_def by blast
  ultimately show ?thesis using requestsOkD(2,3) [OF r(1)] by blast
qed

theorem requests_in_order_witness:
  "\<exists>s. reachable noHooks False exDB exWorld s \<and> sAccepted s = [0] \<and> sServed s = [[0]]
     \<and> sAccepted s = concat (sServed s) @ inHand (sCoordinator s) @ sQueue s"
proof -
  let ?a = "submitEnqueue 0 exCalled"
  let ?b = "coordinatorReceive (submitWake 0 ?a)"
  let ?c = "coordinatorServe noHooks [0] (coordinatorAdmit [0] (coordinatorTake ?b))"
  have a: "reachable noHooks False exDB exWorld ?a" "sQueue ?a = [0]" "phaseOf ?a 0 = Appended" "length (sClients ?a) = 1"
    "sCoordinator ?a = Blocked" "sAdmission ?a" "\<not> sDisabled ?a" "sAccepted ?a = [0]" "sServed ?a = []"
    using reachable.progress [OF ex_called(1) progress.enqueue] ex_called(2,3) ex_db(3)
    by (auto simp: submitEnqueue_def updClient_def exCalled_def submitBegin_def opened_def)
  have b: "reachable noHooks False exDB exWorld ?b"
    using reachable.progress [OF reachable.progress [OF a(1) progress.wake] progress.woken] a
    by (auto simp: submitWake_def signal_def updClient_def)
  have "sCoordinator ?b = Draining" "sAdmission ?b" "sQueue ?b = [0]" "groupLimit ?b = 1"
    using a by (auto simp: coordinatorReceive_def submitWake_def signal_def updClient_def groupLimit_def keyedMaxCommitGroup_def)
  then have "reachable noHooks False exDB exWorld ?c"
    using reachable.progress [OF reachable.progress [OF reachable.progress [OF b progress.taken] progress.admitted [of _ "[0]"]] progress.served [of _ "[0]"]]
    by (auto simp: coordinatorTake_def coordinatorAdmit_def)
  moreover have "sAccepted ?c = [0]" "sServed ?c = [[0]]"
    using a by (auto simp: coordinatorServe_def coordinatorAdmit_def coordinatorTake_def coordinatorReceive_def submitWake_def signal_def
        updClient_def split: prod.split)
  ultimately show ?thesis using requests_in_order [OF _ hook_ok_noHooks ex_db(3)] by blast
qed

end
