(* ===== verification/Core_Types.thy ===== *)
theory Core_Types
  imports Octet_Base
begin

text \<open>
  The account domain, \<^verbatim>\<open>internal/core/types.go\<close>: accounts, commands, results and the decision
  function. Amounts, balances and tags are Go \<open>int\<close> values of a 64-bit platform: words that wrap
  around and are compared by their signed reading.
\<close>

section \<open>Values\<close>

type_synonym AccountID = u64
type_synonym i64 = "64 word"

definition slt :: "i64 \<Rightarrow> i64 \<Rightarrow> bool" where
  "slt a b \<longleftrightarrow> sint a < sint b"

record Account =
  aID :: AccountID
  aBalance :: i64
  aStatus :: i64
  aVersion :: u64

definition zeroAccount :: Account where
  "zeroAccount = \<lparr>aID = 0, aBalance = 0, aStatus = 0, aVersion = 0\<rparr>"

definition StatusOpen :: i64 where "StatusOpen = 1"
definition StatusFrozen :: i64 where "StatusFrozen = 2"

record CommandKind =
  Tag :: i64

definition kCreate :: CommandKind where "kCreate = \<lparr>Tag = 0\<rparr>"
definition kDeposit :: CommandKind where "kDeposit = \<lparr>Tag = 1\<rparr>"
definition kWithdraw :: CommandKind where "kWithdraw = \<lparr>Tag = 2\<rparr>"
definition kTransfer :: CommandKind where "kTransfer = \<lparr>Tag = 3\<rparr>"
definition kFreeze :: CommandKind where "kFreeze = \<lparr>Tag = 4\<rparr>"
definition kUnfreeze :: CommandKind where "kUnfreeze = \<lparr>Tag = 5\<rparr>"
definition kBeginTransfer :: CommandKind where "kBeginTransfer = \<lparr>Tag = 6\<rparr>"
definition kConfirm :: CommandKind where "kConfirm = \<lparr>Tag = 7\<rparr>"
definition kCancel :: CommandKind where "kCancel = \<lparr>Tag = 8\<rparr>"

lemmas kind_defs = kCreate_def kDeposit_def kWithdraw_def kTransfer_def kFreeze_def kUnfreeze_def
  kBeginTransfer_def kConfirm_def kCancel_def

record Command =
  cID :: bytes
  cKind :: CommandKind
  cAccount :: AccountID
  cOther :: AccountID
  cAmount :: i64

record Result =
  resSequence :: u64
  resCommandID :: bytes
  resAccepted :: bool
  resReasonTag :: i64
  resEffectTag :: i64
  resTransitionCount :: i64
  resDuplicate :: bool

definition zeroResultC :: Result where
  "zeroResultC = \<lparr>resSequence = 0, resCommandID = [], resAccepted = False, resReasonTag = 0, resEffectTag = 0,
                  resTransitionCount = 0, resDuplicate = False\<rparr>"

datatype DurabilityMode = MemoryOnly | BatchSync | SyncEach

definition isKind :: "CommandKind \<Rightarrow> CommandKind \<Rightarrow> bool" where
  "isKind kind expected \<longleftrightarrow> Tag kind = Tag expected"

definition ValidateCommand :: "Command \<Rightarrow> go_error option" where
  "ValidateCommand command =
     (if cID command = [] \<or> cAccount command = 0
      then Some (RuntimeError InvalidCommand ''command ID and account are required'')
      else if (isKind (cKind command) kTransfer \<or> isKind (cKind command) kBeginTransfer \<or> isKind (cKind command) kConfirm)
              \<and> (cOther command = 0 \<or> cOther command = cAccount command)
      then Some (RuntimeError InvalidCommand ''multi-account command requires a distinct destination'')
      else None)"

record LedgerEntry =
  lSequence :: u64
  lCommandID :: bytes
  lFrom :: AccountID
  lTo :: AccountID
  lAmount :: i64
  lEffectTag :: i64

text \<open>The durations of the statistics are clock readings; the counters are modelled.\<close>

record RecoveryStats =
  SnapshotSequence :: u64
  SnapshotBytes :: nat
  WALBytesScanned :: nat
  RecordsReplayed :: nat

record StorageStats =
  WALBytesWritten :: u64
  SnapshotBytesWritten :: u64
  Syncs :: u64
  Committed :: u64

definition zeroStats :: StorageStats where
  "zeroStats = \<lparr>WALBytesWritten = 0, SnapshotBytesWritten = 0, Syncs = 0, Committed = 0\<rparr>"

record pendingTransfer =
  pActive :: bool
  pTarget :: AccountID
  pAmount :: i64

definition noPending :: pendingTransfer where
  "noPending = \<lparr>pActive = False, pTarget = 0, pAmount = 0\<rparr>"

section \<open>Decisions\<close>

record coreDecision =
  dAccepted :: bool
  dReason :: i64
  dEffect :: i64
  dBalanceA :: i64
  dBalanceB :: i64
  dStatus :: i64

text \<open>The reason tags of \<open>decideGo\<close>.\<close>

definition appliedReason :: i64 where "appliedReason = 0"
definition invalidAmount :: i64 where "invalidAmount = 3"
definition missing :: i64 where "missing = 4"
definition exists :: i64 where "exists = 5"
definition frozen :: i64 where "frozen = 6"
definition insufficient :: i64 where "insufficient = 7"
definition invalidWorkflow :: i64 where "invalidWorkflow = 8"

lemmas reason_defs = appliedReason_def invalidAmount_def missing_def exists_def frozen_def insufficient_def invalidWorkflow_def

definition noneDecision :: "Account \<Rightarrow> Account \<Rightarrow> i64 \<Rightarrow> coreDecision" where
  "noneDecision a b reason =
     \<lparr>dAccepted = False, dReason = reason, dEffect = 0, dBalanceA = aBalance a, dBalanceB = aBalance b, dStatus = aStatus a\<rparr>"

definition decideGo :: "Command \<Rightarrow> Account \<Rightarrow> bool \<Rightarrow> Account \<Rightarrow> bool \<Rightarrow> pendingTransfer \<Rightarrow> coreDecision" where
  "decideGo c a aok b bok pending =
     (let none = noneDecision a b; k = cKind c in
      if isKind k kCreate then
        (if aok then none exists
         else if slt (cAmount c) 0 then none invalidAmount
         else \<lparr>dAccepted = True, dReason = appliedReason, dEffect = 1, dBalanceA = cAmount c, dBalanceB = aBalance b, dStatus = StatusOpen\<rparr>)
      else if isKind k kDeposit then
        (if \<not> slt 0 (cAmount c) then none invalidAmount
         else if \<not> aok then none missing
         else \<lparr>dAccepted = True, dReason = appliedReason, dEffect = 2, dBalanceA = aBalance a + cAmount c, dBalanceB = aBalance b, dStatus = aStatus a\<rparr>)
      else if isKind k kWithdraw then
        (if \<not> slt 0 (cAmount c) then none invalidAmount
         else if \<not> aok then none missing
         else if aStatus a = StatusFrozen then none frozen
         else if slt (aBalance a) (cAmount c) then none insufficient
         else \<lparr>dAccepted = True, dReason = appliedReason, dEffect = 2, dBalanceA = aBalance a - cAmount c, dBalanceB = aBalance b, dStatus = aStatus a\<rparr>)
      else if isKind k kTransfer \<or> isKind k kConfirm then
        (if isKind k kConfirm \<and> (\<not> pActive pending \<or> pTarget pending \<noteq> cOther c \<or> pAmount pending \<noteq> cAmount c)
         then none invalidWorkflow
         else if \<not> slt 0 (cAmount c) then none invalidAmount
         else if \<not> aok \<or> \<not> bok then none missing
         else if aStatus a = StatusFrozen then none frozen
         else if slt (aBalance a) (cAmount c) then none insufficient
         else \<lparr>dAccepted = True, dReason = appliedReason, dEffect = 3, dBalanceA = aBalance a - cAmount c,
               dBalanceB = aBalance b + cAmount c, dStatus = aStatus a\<rparr>)
      else if isKind k kFreeze then
        (if \<not> aok then none missing
         else \<lparr>dAccepted = True, dReason = appliedReason, dEffect = 4, dBalanceA = aBalance a, dBalanceB = aBalance b, dStatus = StatusFrozen\<rparr>)
      else if isKind k kUnfreeze then
        (if \<not> aok then none missing
         else \<lparr>dAccepted = True, dReason = appliedReason, dEffect = 4, dBalanceA = aBalance a, dBalanceB = aBalance b, dStatus = StatusOpen\<rparr>)
      else if isKind k kBeginTransfer then
        (if \<not> slt 0 (cAmount c) then none invalidAmount
         else \<lparr>dAccepted = True, dReason = 1, dEffect = 0, dBalanceA = aBalance a, dBalanceB = aBalance b, dStatus = aStatus a\<rparr>)
      else if isKind k kCancel then
        \<lparr>dAccepted = True, dReason = 2, dEffect = 0, dBalanceA = aBalance a, dBalanceB = aBalance b, dStatus = aStatus a\<rparr>
      else none invalidWorkflow)"

end
