(* ===== verification/Core_State.thy ===== *)
theory Core_State
  imports Core_Types Framing Go_IO
begin

text \<open>
  The state of the account engine, \<^verbatim>\<open>internal/core/core.go\<close>: dense account slots with the map that
  resolves identities to them, the per-account agents, the staging area of the running batch, the ledger,
  the retained results with their compacting queue; and the operations on single slots.

  \<open>recordBuf\<close> and \<open>batchIDs\<close> are buffers that every batch clears, so that they are local variables of
  the model; the capacities of slices and maps have no counterpart. A slot is an index into four slices
  of the same length, which the invariant of the engine states.
\<close>

section \<open>State\<close>

record CoreConfig =
  StorageDir :: bytes
  Durability :: DurabilityMode
  DedupeWindow :: int
  MaxAccounts :: int
  BatchMax :: int
  AccountHint :: int
  RecordHint :: int

record agentState =
  Pending :: pendingTransfer
  Turns :: i64

definition zeroAgent :: agentState where
  "zeroAgent = \<lparr>Pending = noPending, Turns = 0\<rparr>"

record walRecord =
  wSequence :: u64
  wCommandID :: bytes
  wKind :: i64
  wA :: AccountID
  wB :: AccountID
  wAmount :: i64
  wAccepted :: bool
  wReason :: i64
  wEffect :: i64
  wTurns :: i64
  wNewBalanceA :: i64
  wNewBalanceB :: i64
  wNewStatus :: i64
  wExpectedA :: u64
  wExpectedB :: u64
  wPendingActive :: bool
  wPendingTarget :: AccountID
  wPendingAmount :: i64

text \<open>\<open>wfFile\<close> is nil for a database in memory; \<open>wfOffset\<close> is the position of the next \<open>Write\<close>.\<close>

datatype fileState = NoFile | OpenedFile | ClosedFile

record walFile =
  wfFile :: fileState
  wfOffset :: nat
  wfMode :: DurabilityMode
  wfStats :: StorageStats

record Core =
  cfg :: CoreConfig
  ids :: "(AccountID, u32) fmap"
  accounts :: "Account list"
  present :: "bool list"
  agents :: "agentState list"
  ledger :: "LedgerEntry list"
  scratch :: "Account list"
  marks :: "u32 list"
  epoch :: u32
  results :: "(bytes, Result) fmap"
  order :: "bytes list"
  orderHead :: nat
  cSequence :: u64
  cWal :: walFile
  cClosed :: bool
  cPoisoned :: "go_error option"
  recoveryStats :: RecoveryStats

section \<open>Slots\<close>

definition slot :: "AccountID \<Rightarrow> bool \<Rightarrow> Core \<Rightarrow> (u32 \<times> bool) \<times> Core" where
  "slot i create e =
     (case fmlookup (ids e) i of
        Some s \<Rightarrow> ((s, True), e)
      | None \<Rightarrow>
          if \<not> create then ((0, False), e)
          else
            let s = of_nat (length (accounts e)) in
            ((s, True),
             e\<lparr>ids := fmupd i s (ids e), accounts := accounts e @ [zeroAccount\<lparr>aID := i\<rparr>],
               present := present e @ [False], agents := agents e @ [zeroAgent],
               scratch := scratch e @ [zeroAccount], marks := marks e @ [0]\<rparr>))"

abbreviation at :: "'a list \<Rightarrow> u32 \<Rightarrow> 'a" where
  "at xs s \<equiv> xs ! unat s"

definition staged :: "u32 \<Rightarrow> Core \<Rightarrow> bool" where
  "staged s e \<longleftrightarrow> epoch e \<noteq> 0 \<and> at (marks e) s = epoch e"

definition accountFor :: "u32 \<Rightarrow> bool \<Rightarrow> Core \<Rightarrow> Account" where
  "accountFor s ok e =
     (if \<not> ok then zeroAccount
      else if staged s e then at (scratch e) s
      else at (accounts e) s)"

definition stage :: "u32 \<Rightarrow> Account \<Rightarrow> Core \<Rightarrow> Core" where
  "stage s a e = e\<lparr>scratch := (scratch e)[unat s := a], marks := (marks e)[unat s := epoch e]\<rparr>"

definition stageEffect :: "u32 \<Rightarrow> u32 \<Rightarrow> walRecord \<Rightarrow> Core \<Rightarrow> Core" where
  "stageEffect aSlot bSlot r e =
     (if wEffect r = 1 then
        stage aSlot \<lparr>aID = wA r, aBalance = wNewBalanceA r, aStatus = StatusOpen, aVersion = 1\<rparr> e
      else if wEffect r = 2 then
        let a = accountFor aSlot True e in
        stage aSlot (a\<lparr>aBalance := wNewBalanceA r, aVersion := aVersion a + 1\<rparr>) e
      else if wEffect r = 3 then
        let a = accountFor aSlot True e; b = accountFor bSlot True e in
        stage bSlot (b\<lparr>aBalance := wNewBalanceB r, aVersion := aVersion b + 1\<rparr>)
          (stage aSlot (a\<lparr>aBalance := wNewBalanceA r, aVersion := aVersion a + 1\<rparr>) e)
      else if wEffect r = 4 then
        let a = accountFor aSlot True e in
        stage aSlot (a\<lparr>aStatus := wNewStatus r, aVersion := aVersion a + 1\<rparr>) e
      else e)"

section \<open>Retained results\<close>

definition remember :: "bytes \<Rightarrow> Result \<Rightarrow> Core \<Rightarrow> Core" where
  "remember i result e =
     (let e1 = e\<lparr>results := fmupd i result (results e), order := order e @ [i]\<rparr>;
          e2 = (if DedupeWindow (cfg e1) < int (length (order e1)) - int (orderHead e1)
                then e1\<lparr>results := fmdrop (order e1 ! orderHead e1) (results e1), orderHead := orderHead e1 + 1\<rparr>
                else e1)
      in if DedupeWindow (cfg e2) \<le> int (orderHead e2) \<and> length (order e2) \<le> orderHead e2 * 2
         then e2\<lparr>order := drop (orderHead e2) (order e2), orderHead := 0\<rparr>
         else e2)"

section \<open>Applying a record\<close>

definition resultOf :: "walRecord \<Rightarrow> Result" where
  "resultOf r =
     \<lparr>resSequence = wSequence r, resCommandID = wCommandID r, resAccepted = wAccepted r, resReasonTag = wReason r,
      resEffectTag = wEffect r, resTransitionCount = wTurns r, resDuplicate = False\<rparr>"

definition setAccount :: "u32 \<Rightarrow> Account \<Rightarrow> Core \<Rightarrow> Core" where
  "setAccount s a e = e\<lparr>accounts := (accounts e)[unat s := a]\<rparr>"

definition applyEffect :: "u32 \<Rightarrow> u32 \<Rightarrow> walRecord \<Rightarrow> Core \<Rightarrow> Core" where
  "applyEffect aSlot bSlot r e =
     (if wEffect r = 1 then
        (setAccount aSlot \<lparr>aID = wA r, aBalance = wNewBalanceA r, aStatus = StatusOpen, aVersion = 1\<rparr> e)
          \<lparr>present := (present e)[unat aSlot := True]\<rparr>
      else if wEffect r = 2 then
        let a = at (accounts e) aSlot in
        setAccount aSlot (a\<lparr>aBalance := wNewBalanceA r, aVersion := aVersion a + 1\<rparr>) e
      else if wEffect r = 3 then
        let a = at (accounts e) aSlot; b = at (accounts e) bSlot in
        setAccount bSlot (b\<lparr>aBalance := wNewBalanceB r, aVersion := aVersion b + 1\<rparr>)
          (setAccount aSlot (a\<lparr>aBalance := wNewBalanceA r, aVersion := aVersion a + 1\<rparr>) e)
      else if wEffect r = 4 then
        let a = at (accounts e) aSlot in
        setAccount aSlot (a\<lparr>aStatus := wNewStatus r, aVersion := aVersion a + 1\<rparr>) e
      else e)"

definition applyLedger :: "walRecord \<Rightarrow> Core \<Rightarrow> Core" where
  "applyLedger r e =
     (if wEffect r \<in> {1, 2, 3, 4}
      then e\<lparr>ledger := ledger e @
               [\<lparr>lSequence = wSequence r, lCommandID = wCommandID r, lFrom = wA r, lTo = wB r,
                 lAmount = wAmount r, lEffectTag = wEffect r\<rparr>]\<rparr>
      else e)"

definition applyDurable :: "walRecord \<Rightarrow> Core \<Rightarrow> Core" where
  "applyDurable r e =
     (let ((aSlot, _), e1) = slot (wA r) True e;
          bSlot = (if wB r \<noteq> 0 then fst (fst (slot (wB r) False e1)) else 0);
          e2 = (if wAccepted r then applyLedger r (applyEffect aSlot bSlot r e1) else e1);
          e3 = e2\<lparr>agents := (agents e2)[unat aSlot :=
                 \<lparr>Pending = \<lparr>pActive = wPendingActive r, pTarget = wPendingTarget r, pAmount = wPendingAmount r\<rparr>,
                  Turns = wTurns r\<rparr>]\<rparr>
      in (remember (wCommandID r) (resultOf r) e3)\<lparr>cSequence := wSequence r\<rparr>)"

definition applyRecovered :: "walRecord \<Rightarrow> Core \<Rightarrow> Core res" where
  "applyRecovered r e =
     (if (case fmlookup (results e) (wCommandID r) of None \<Rightarrow> False | Some prior \<Rightarrow> resSequence prior \<noteq> wSequence r)
      then Inl (OtherError ''core duplicate durable command ID'')
      else
        let ((aSlot, aok), e1) = slot (wA r) (wEffect r = 1 \<and> wAccepted r) e;
            (bSlot, bok) = (if wB r \<noteq> 0 then fst (slot (wB r) False e1) else (0, False));
            a = accountFor aSlot aok e1;
            b = accountFor bSlot bok e1
        in if aVersion a \<noteq> wExpectedA r \<or> aVersion b \<noteq> wExpectedB r
           then Inl (OtherError ''core version mismatch'')
           else Inr (applyDurable r e1))"

section \<open>Reads\<close>

definition Core_Account :: "AccountID \<Rightarrow> Core \<Rightarrow> Account \<times> bool" where
  "Core_Account i e =
     (case fmlookup (ids e) i of
        None \<Rightarrow> (zeroAccount, False)
      | Some s \<Rightarrow> if at (present e) s then (at (accounts e) s, True) else (zeroAccount, False))"

definition StorageMetrics :: "Core \<Rightarrow> StorageStats" where
  "StorageMetrics e = wfStats (cWal e)"

definition RecoveryMetrics :: "Core \<Rightarrow> RecoveryStats" where
  "RecoveryMetrics e = recoveryStats e"

definition LedgerLen :: "Core \<Rightarrow> nat" where
  "LedgerLen e = length (ledger e)"

record CoreStats =
  csCommittedSequence :: u64
  csSnapshotSequence :: u64
  csWALBytes :: u64
  csDedupeEntries :: nat
  csAccountCount :: nat

definition Core_Stats :: "Core \<Rightarrow> CoreStats" where
  "Core_Stats e =
     \<lparr>csCommittedSequence = cSequence e, csSnapshotSequence = SnapshotSequence (recoveryStats e),
      csWALBytes = WALBytesWritten (wfStats (cWal e)), csDedupeEntries = fmsize (results e),
      csAccountCount = length (accounts e)\<rparr>"

text \<open>\<open>sort.Slice\<close> by distinct identities: the stable sort gives the one sorted order.\<close>

definition SortedAccounts :: "Core \<Rightarrow> Account list" where
  "SortedAccounts e = sort_key aID (map fst (filter snd (zip (accounts e) (present e))))"

end
