(* ===== verification/Core_Codec.thy ===== *)
theory Core_Codec
  imports Core_State
begin

text \<open>
  The binary formats of \<^verbatim>\<open>internal/core/core.go\<close>: log records, the log header, and snapshots. A parser
  is a reader over the bytes that are left; reading beyond them is the panic of a slice expression out of
  range, which is not an error value and no caller recovers from. The loops over counted items are
  recursive in the number of items left.
\<close>

unbundle bit_operations_syntax

section \<open>Writers\<close>

text \<open>\<open>appendU32\<close>, \<open>appendU64\<close> and \<open>appendI64\<close> extend the buffer they are given.\<close>

definition appendU32 :: "bytes \<Rightarrow> u32 \<Rightarrow> bytes" where
  "appendU32 dst v = dst @ le32 v"

definition appendU64 :: "bytes \<Rightarrow> u64 \<Rightarrow> bytes" where
  "appendU64 dst v = dst @ le64 v"

definition appendI64 :: "bytes \<Rightarrow> i64 \<Rightarrow> bytes" where
  "appendI64 dst v = appendU64 dst v"

definition flagByte :: "bool \<Rightarrow> bool \<Rightarrow> byte" where
  "flagByte one two = (if one then 1 else 0) OR (if two then 2 else 0)"

definition appendWALRecord :: "bytes \<Rightarrow> walRecord \<Rightarrow> bytes" where
  "appendWALRecord dst r =
     (let dst = appendU64 dst (wSequence r);
          dst = appendU32 dst (of_nat (length (wCommandID r)));
          dst = dst @ wCommandID r;
          dst = appendI64 dst (wKind r);
          dst = appendU64 dst (wA r);
          dst = appendU64 dst (wB r);
          dst = appendI64 dst (wAmount r);
          dst = dst @ [flagByte (wAccepted r) (wPendingActive r)];
          dst = fold (\<lambda>v d. appendI64 d v)
                  [wReason r, wEffect r, wTurns r, wNewBalanceA r, wNewBalanceB r, wNewStatus r] dst;
          dst = appendU64 dst (wExpectedA r);
          dst = appendU64 dst (wExpectedB r);
          dst = appendU64 dst (wPendingTarget r)
      in appendI64 dst (wPendingAmount r))"

section \<open>Readers\<close>

type_synonym 'a reader = "bytes \<Rightarrow> go_error + 'a \<times> bytes"

definition rreturn :: "'a \<Rightarrow> 'a reader" where
  "rreturn x src = Inr (x, src)"

definition rfail :: "go_error \<Rightarrow> 'a reader" where
  "rfail e src = Inl e"

definition rbind :: "'a reader \<Rightarrow> ('a \<Rightarrow> 'b reader) \<Rightarrow> 'b reader" where
  "rbind p f src = (case p src of Inl e \<Rightarrow> Inl e | Inr (x, rest) \<Rightarrow> f x rest)"

text \<open>\<open>remaining\<close> is \<open>len(src)-pos\<close>.\<close>

definition remaining :: "(nat \<Rightarrow> 'a reader) \<Rightarrow> 'a reader" where
  "remaining f src = f (length src) src"

definition sliceBounds :: go_error where
  "sliceBounds = Panic ''slice bounds out of range''"

definition unexpectedEOF :: go_error where
  "unexpectedEOF = OtherError ''unexpected EOF''"

definition takeBytes :: "nat \<Rightarrow> bytes reader" where
  "takeBytes n src = (if length src < n then Inl sliceBounds else Inr (take n src, drop n src))"

definition takeU32 :: "u32 reader" where
  "takeU32 src = (if length src < 4 then Inl sliceBounds else Inr (get32 src, drop 4 src))"

definition takeU64 :: "u64 reader" where
  "takeU64 src = (if length src < 8 then Inl sliceBounds else Inr (get64 src, drop 8 src))"

definition takeI64 :: "i64 reader" where
  "takeI64 = takeU64"

definition takeByte :: "byte reader" where
  "takeByte src = (case src of [] \<Rightarrow> Inl sliceBounds | b # rest \<Rightarrow> Inr (b, rest))"

section \<open>Log records\<close>

definition fixed :: nat where
  "fixed = 8 + 4 + 8 + 8 + 8 + 1 + 6 * 8 + 8 + 8 + 8 + 8"

definition parseWALRecord :: "walRecord reader" where
  "parseWALRecord = remaining (\<lambda>left.
     if left < fixed then rfail unexpectedEOF else
     rbind takeU64 (\<lambda>sequence.
     rbind takeU32 (\<lambda>idLen. remaining (\<lambda>left.
     if idLen = 0 \<or> left < unat idLen \<or> left - unat idLen < fixed - 12
     then rfail (OtherError ''invalid command ID length'') else
     rbind (takeBytes (unat idLen)) (\<lambda>commandID.
     rbind takeI64 (\<lambda>kind.
     rbind takeU64 (\<lambda>a.
     rbind takeU64 (\<lambda>b.
     rbind takeI64 (\<lambda>amount.
     rbind takeByte (\<lambda>flags.
     rbind takeI64 (\<lambda>reason.
     rbind takeI64 (\<lambda>effect.
     rbind takeI64 (\<lambda>turns.
     rbind takeI64 (\<lambda>newBalanceA.
     rbind takeI64 (\<lambda>newBalanceB.
     rbind takeI64 (\<lambda>newStatus.
     rbind takeU64 (\<lambda>expectedA.
     rbind takeU64 (\<lambda>expectedB.
     rbind takeU64 (\<lambda>target.
     rbind takeI64 (\<lambda>amount64.
     rreturn
       \<lparr>wSequence = sequence, wCommandID = commandID, wKind = kind, wA = a, wB = b, wAmount = amount,
        wAccepted = (flags AND 1 \<noteq> 0), wReason = reason, wEffect = effect, wTurns = turns,
        wNewBalanceA = newBalanceA, wNewBalanceB = newBalanceB, wNewStatus = newStatus,
        wExpectedA = expectedA, wExpectedB = expectedB, wPendingActive = (flags AND 2 \<noteq> 0),
        wPendingTarget = target, wPendingAmount = amount64\<rparr>))))))))))))))))))))"

section \<open>The log\<close>

definition walFileVersion :: u32 where "walFileVersion = 1"
definition snapshotVersion :: u32 where "snapshotVersion = 1"
definition walHeaderSize :: nat where "walHeaderSize = 24"
definition snapshotHeaderSize :: nat where "snapshotHeaderSize = 52"
definition walFileMagic :: bytes where "walFileMagic = str ''OCTWAL01''"
definition snapshotMagic :: bytes where "snapshotMagic = str ''OCTSNP01''"

definition walHeader :: bytes where
  "walHeader = (let h = walFileMagic @ le32 walFileVersion @ str ''SAFEGO01'' in h @ le32 (crc32 h))"

text \<open>The payload of a batch; \<open>appendBatch\<close> frames it.\<close>

definition batchPayload :: "walRecord list \<Rightarrow> bytes" where
  "batchPayload records =
     fold (\<lambda>r d. appendWALRecord d r) records (appendU32 [] (of_nat (length records)))"

text \<open>The inner loop of \<open>scanWAL\<close> over the records of one frame.\<close>

fun scanRecords :: "nat \<Rightarrow> u64 \<Rightarrow> walRecord list \<Rightarrow> walRecord list reader" where
  "scanRecords 0 after records src = Inr (records, src)"
| "scanRecords (Suc n) after records src =
     (case parseWALRecord src of
        Inl (Panic p) \<Rightarrow> Inl (Panic p)
      | Inl e \<Rightarrow> Inl (Wrapped ''core WAL record'' e)
      | Inr (r, rest) \<Rightarrow>
          scanRecords n after (if after < wSequence r then records @ [r] else records) rest)"

definition scanPayload :: "u64 \<Rightarrow> walRecord list \<Rightarrow> bytes \<Rightarrow> walRecord list res" where
  "scanPayload after records payload =
     (case scanRecords (unat (get32 payload)) after records (drop 4 payload) of
        Inl e \<Rightarrow> Inl e
      | Inr (records', rest) \<Rightarrow>
          if rest \<noteq> [] then Inl (OtherError ''core WAL trailing bytes'') else Inr records')"

function scanFrames :: "u64 \<Rightarrow> walRecord list \<Rightarrow> nat \<Rightarrow> bytes \<Rightarrow> (walRecord list \<times> nat) res" where
  "scanFrames after records pos data =
     (case read_frame 4 data of
        FrameEOF \<Rightarrow> Inr (records, pos)
      | FrameTorn \<Rightarrow> Inr (records, pos)
      | FrameBadLength \<Rightarrow> Inl (OtherError ''invalid core WAL frame length'')
      | FrameBadChecksum \<Rightarrow> Inl (OtherError ''core WAL checksum failure'')
      | Frame payload rest \<Rightarrow>
          (case scanPayload after records payload of
             Inl e \<Rightarrow> Inl e
           | Inr records' \<Rightarrow> scanFrames after records' (pos + length payload + 8) rest))"
  by pat_completeness auto
termination
  by (relation "measure (\<lambda>(_, _, _, data). length data)") (auto dest: read_frame_shorter)

declare scanFrames.simps [simp del]

text \<open>\<open>scanWAL\<close> on the bytes that \<open>io.ReadAll\<close> returns.\<close>

definition scanWAL :: "u64 \<Rightarrow> bytes \<Rightarrow> (walRecord list \<times> nat) res" where
  "scanWAL after data =
     (if 12 \<le> length data \<and> take 8 data = walFileMagic \<and> get32 (drop 8 data) \<noteq> walFileVersion
      then Inl (RuntimeError RecoveryIncompatible ''WAL format version'')
      else if length data < walHeaderSize \<or> take 8 data \<noteq> walFileMagic \<or> get32 (drop 20 data) \<noteq> crc32 (take 20 data)
      then Inl (OtherError ''invalid WAL header or format version'')
      else scanFrames after [] walHeaderSize (drop walHeaderSize data))"

section \<open>Snapshots\<close>

definition appendAccount :: "bytes \<Rightarrow> Account \<times> bool \<times> agentState \<Rightarrow> bytes" where
  "appendAccount b x =
     (case x of (a, p, agent) \<Rightarrow>
      let b = appendU64 b (aID a);
          b = appendI64 b (aBalance a);
          b = appendI64 b (aStatus a);
          b = appendU64 b (aVersion a);
          b = b @ [flagByte p (pActive (Pending agent))];
          b = appendU64 b (pTarget (Pending agent));
          b = appendI64 b (pAmount (Pending agent))
      in appendI64 b (Turns agent))"

definition appendLedgerEntry :: "bytes \<Rightarrow> LedgerEntry \<Rightarrow> bytes" where
  "appendLedgerEntry b entry =
     (let b = appendU64 b (lSequence entry);
          b = appendU32 b (of_nat (length (lCommandID entry)));
          b = b @ lCommandID entry;
          b = appendU64 b (lFrom entry);
          b = appendU64 b (lTo entry);
          b = appendI64 b (lAmount entry)
      in appendI64 b (lEffectTag entry))"

definition appendResult :: "bytes \<Rightarrow> bytes \<times> Result \<Rightarrow> bytes" where
  "appendResult b x =
     (case x of (i, r) \<Rightarrow>
      let b = appendU32 b (of_nat (length i));
          b = b @ i;
          b = appendU64 b (resSequence r);
          b = b @ [if resAccepted r then 1 else 0];
          b = appendI64 b (resReasonTag r);
          b = appendI64 b (resEffectTag r)
      in appendI64 b (resTransitionCount r))"

definition resultFor :: "bytes \<Rightarrow> Core \<Rightarrow> Result" where
  "resultFor i e = (case fmlookup (results e) i of None \<Rightarrow> zeroResultC | Some r \<Rightarrow> r)"

definition active :: "Core \<Rightarrow> bytes list" where
  "active e = drop (orderHead e) (order e)"

definition snapshotBody :: "Core \<Rightarrow> bytes" where
  "snapshotBody e =
     (let b = appendU64 [] (cSequence e);
          b = appendU32 b (of_nat (length (accounts e)));
          b = fold (\<lambda>x b. appendAccount b x) (zip (accounts e) (zip (present e) (agents e))) b;
          b = appendU64 b (of_nat (length (ledger e)));
          b = fold (\<lambda>x b. appendLedgerEntry b x) (ledger e) b;
          b = appendU32 b (of_int (DedupeWindow (cfg e)));
          b = appendU32 b (of_nat (length (active e)))
      in fold (\<lambda>i b. appendResult b (i, resultFor i e)) (active e) b)"

definition encodeSnapshot :: "Core \<Rightarrow> bytes" where
  "encodeSnapshot e =
     (let body = snapshotBody e in
      snapshotMagic @ le32 snapshotVersion @ le64 (of_nat (length body)) @ sha256 body @ body)"

text \<open>The three loops of \<open>loadSnapshot\<close>.\<close>

definition installAccount :: "Account \<Rightarrow> bool \<Rightarrow> agentState \<Rightarrow> Core \<Rightarrow> Core" where
  "installAccount a p agent e =
     (case slot (aID a) True e of ((s, _), e1) \<Rightarrow>
        e1\<lparr>accounts := (accounts e1)[unat s := a], present := (present e1)[unat s := p],
           agents := (agents e1)[unat s := agent]\<rparr>)"

fun loadAccounts :: "nat \<Rightarrow> Core \<Rightarrow> Core reader" where
  "loadAccounts 0 e = rreturn e"
| "loadAccounts (Suc n) e = remaining (\<lambda>left.
     if left < 57 then rfail unexpectedEOF else
     rbind takeU64 (\<lambda>i.
     rbind takeI64 (\<lambda>balance.
     rbind takeI64 (\<lambda>status.
     rbind takeU64 (\<lambda>version.
     rbind takeByte (\<lambda>flags.
     rbind takeU64 (\<lambda>target.
     rbind takeI64 (\<lambda>amount.
     rbind takeI64 (\<lambda>turns.
     loadAccounts n
       (installAccount \<lparr>aID = i, aBalance = balance, aStatus = status, aVersion = version\<rparr> (flags AND 1 \<noteq> 0)
         \<lparr>Pending = \<lparr>pActive = (flags AND 2 \<noteq> 0), pTarget = target, pAmount = amount\<rparr>, Turns = turns\<rparr> e))))))))))"

fun loadLedger :: "nat \<Rightarrow> u64 \<Rightarrow> Core \<Rightarrow> Core reader" where
  "loadLedger 0 prior e = rreturn e"
| "loadLedger (Suc n) prior e = remaining (\<lambda>left.
     if left < 12 then rfail unexpectedEOF else
     rbind takeU64 (\<lambda>sequence.
     rbind takeU32 (\<lambda>idLen. remaining (\<lambda>left.
     if idLen = 0 \<or> left < unat idLen \<or> left - unat idLen < 32 then rfail unexpectedEOF else
     rbind (takeBytes (unat idLen)) (\<lambda>i.
     rbind takeU64 (\<lambda>from.
     rbind takeU64 (\<lambda>to.
     rbind takeI64 (\<lambda>amount.
     rbind takeI64 (\<lambda>effect.
     if sequence \<le> prior \<or> cSequence e < sequence \<or> i = []
     then rfail (OtherError ''invalid core snapshot ledger order or identity'')
     else loadLedger n sequence
       (e\<lparr>ledger := ledger e @
            [\<lparr>lSequence = sequence, lCommandID = i, lFrom = from, lTo = to, lAmount = amount, lEffectTag = effect\<rparr>]\<rparr>))))))))))"

fun loadResults :: "nat \<Rightarrow> bytes list \<Rightarrow> u64 \<Rightarrow> Core \<Rightarrow> Core reader" where
  "loadResults 0 seen prior e = rreturn e"
| "loadResults (Suc n) seen prior e = remaining (\<lambda>left.
     if left < 4 then rfail unexpectedEOF else
     rbind takeU32 (\<lambda>idLen. remaining (\<lambda>left.
     if idLen = 0 \<or> left < unat idLen \<or> left - unat idLen < 33 then rfail unexpectedEOF else
     rbind (takeBytes (unat idLen)) (\<lambda>i.
     rbind takeU64 (\<lambda>sequence.
     rbind takeByte (\<lambda>accepted.
     rbind takeI64 (\<lambda>reason.
     rbind takeI64 (\<lambda>effect.
     rbind takeI64 (\<lambda>turns.
     if i \<in> set seen \<or> sequence \<le> prior \<or> cSequence e < sequence
     then rfail (OtherError ''invalid core snapshot dedupe order or identity'')
     else loadResults n (i # seen) sequence
       (remember i \<lparr>resSequence = sequence, resCommandID = i, resAccepted = (accepted \<noteq> 0), resReasonTag = reason,
                    resEffectTag = effect, resTransitionCount = turns, resDuplicate = False\<rparr> e))))))))))"

definition loadBody :: "nat \<Rightarrow> Core \<Rightarrow> Core reader" where
  "loadBody len e = remaining (\<lambda>left.
     if left < 12 then rfail unexpectedEOF else
     rbind takeU64 (\<lambda>sequence.
     rbind takeU32 (\<lambda>count32.
     rbind (loadAccounts (unat count32) (e\<lparr>cSequence := sequence\<rparr>)) (\<lambda>e. remaining (\<lambda>left.
     if left < 8 then rfail unexpectedEOF else
     rbind takeU64 (\<lambda>ledgerCount.
     if of_nat (len div 44) < ledgerCount then rfail (OtherError ''invalid core snapshot ledger count'') else
     rbind (loadLedger (unat ledgerCount) 0 (e\<lparr>ledger := []\<rparr>)) (\<lambda>e. remaining (\<lambda>left.
     if left < 8 then rfail unexpectedEOF else
     rbind takeU32 (\<lambda>horizon.
     rbind takeU32 (\<lambda>resultCount.
     if uint horizon \<noteq> DedupeWindow (cfg e) \<or> DedupeWindow (cfg e) < uint resultCount
     then rfail (RuntimeError RecoveryIncompatible ''snapshot dedupe horizon differs from configured DedupeHorizon'') else
     rbind (loadResults (unat resultCount) [] 0 e) (\<lambda>e. remaining (\<lambda>left.
     if left \<noteq> 0 then rfail (OtherError ''core snapshot trailing bytes'') else rreturn e))))))))))))"

definition decodeSnapshot :: "bytes \<Rightarrow> Core \<Rightarrow> Core res" where
  "decodeSnapshot data e =
     (let digest = sha256 (drop (min (length data) snapshotHeaderSize) data) in
      if 12 \<le> length data \<and> take 8 data = snapshotMagic \<and> get32 (drop 8 data) \<noteq> snapshotVersion
      then Inl (RuntimeError RecoveryIncompatible ''snapshot format version'')
      else if length data < snapshotHeaderSize \<or> take 8 data \<noteq> snapshotMagic
           \<or> sint (get64 (drop 12 data)) \<noteq> int (length data) - int snapshotHeaderSize
           \<or> take 32 (drop 20 data) \<noteq> digest
      then Inl (OtherError ''invalid snapshot or format version'')
      else case loadBody (length data) e (drop snapshotHeaderSize data) of
             Inl err \<Rightarrow> Inl err
           | Inr (e', _) \<Rightarrow>
               Inr (e'\<lparr>recoveryStats := (recoveryStats e')\<lparr>SnapshotSequence := cSequence e', SnapshotBytes := length data\<rparr>\<rparr>))"

end
