(* ===== verification/Core_Engine.thy ===== *)
theory Core_Engine
  imports Core_Codec Keyed_Store
begin

text \<open>
  The operations of the account engine, \<^verbatim>\<open>internal/core/core.go\<close>: opening with recovery, batches,
  snapshots, closing. The mutex makes every operation atomic, so that an operation is a function of the
  state and the file system.
\<close>

section \<open>The log file\<close>

definition onFile :: "walFile \<Rightarrow> (world \<Rightarrow> go_error option \<times> world) \<Rightarrow> world \<Rightarrow> go_error option \<times> world" where
  "onFile wal call w =
     (if wfFile wal = OpenedFile then call w else (Some (PathError ''file already closed''), w))"

definition file_WriteAt :: "fname \<Rightarrow> nat \<Rightarrow> bytes \<Rightarrow> world \<Rightarrow> go_error option \<times> world" where
  "file_WriteAt n off d w = (case file_Write n off d w of (_, e, w') \<Rightarrow> (e, w'))"

definition file_ReadAll :: "fname \<Rightarrow> world \<Rightarrow> bytes res \<times> world" where
  "file_ReadAll n w =
     (if next_outcome w = OpOk then Inr (contents n w) else Inl (PathError ''read''), ticked w)"

definition countBytes :: "nat \<Rightarrow> walFile \<Rightarrow> walFile" where
  "countBytes n wal = wal\<lparr>wfStats := (wfStats wal)\<lparr>WALBytesWritten := WALBytesWritten (wfStats wal) + of_nat n\<rparr>\<rparr>"

definition writeHeader :: "walFile \<Rightarrow> world \<Rightarrow> go_error option \<times> walFile \<times> world" where
  "writeHeader wal w =
     (case onFile wal (file_WriteAt WAL_oct 0 walHeader) w of
        (Some e, w1) \<Rightarrow> (Some e, wal, w1)
      | (None, w1) \<Rightarrow> (None, countBytes (length walHeader) wal, w1))"

definition walFile_close :: "walFile \<Rightarrow> world \<Rightarrow> go_error option \<times> walFile \<times> world" where
  "walFile_close wal w =
     (if wfFile wal = NoFile then (None, wal, w)
      else case onFile wal file_Close w of (e, w1) \<Rightarrow> (e, wal\<lparr>wfFile := ClosedFile\<rparr>, w1))"

text \<open>\<open>Write\<close> appends at the position of the file and moves it by what was written.\<close>

definition walWrite :: "bytes \<Rightarrow> walFile \<Rightarrow> world \<Rightarrow> go_error option \<times> walFile \<times> world" where
  "walWrite d wal w =
     (if wfFile wal = OpenedFile
      then case file_Write WAL_oct (wfOffset wal) d w of
             (n, e, w1) \<Rightarrow> (e, wal\<lparr>wfOffset := wfOffset wal + n\<rparr>, w1)
      else (Some (PathError ''file already closed''), wal, w))"

definition appendBatch :: "walRecord list \<Rightarrow> walFile \<Rightarrow> world \<Rightarrow> go_error option \<times> walFile \<times> world" where
  "appendBatch recs wal w =
     (let n = of_nat (length recs) in
      if wfMode wal = MemoryOnly
      then (None, wal\<lparr>wfStats := (wfStats wal)\<lparr>Committed := Committed (wfStats wal) + n\<rparr>\<rparr>, w)
      else
        let payload = batchPayload recs in
        if maxFrameBytes < length payload then (Some (OtherError ''WAL batch exceeds bounded frame size''), wal, w)
        else case walWrite (frame payload) wal w of
               (Some e, wal1, w1) \<Rightarrow> (Some e, wal1, w1)
             | (None, wal1, w1) \<Rightarrow>
                 (case onFile wal1 (file_Sync WAL_oct) w1 of
                    (Some e, w2) \<Rightarrow> (Some e, wal1, w2)
                  | (None, w2) \<Rightarrow>
                      let wal2 = countBytes (length (frame payload)) wal1; s = wfStats wal2 in
                      (None, wal2\<lparr>wfStats := s\<lparr>Syncs := Syncs s + 1, Committed := Committed s + n\<rparr>\<rparr>, w2)))"

text \<open>\<open>openWAL\<close> returns the file, the records after the snapshot, and the number of bytes scanned. Its
  error paths close the file.\<close>

definition failOpen :: "go_error \<Rightarrow> world \<Rightarrow> 'a res \<times> world" where
  "failOpen e w = (Inl e, snd (file_Close w))"

definition openWAL ::
  "bytes \<Rightarrow> DurabilityMode \<Rightarrow> u64 \<Rightarrow> world \<Rightarrow> (walFile \<times> walRecord list \<times> nat) res \<times> world" where
  "openWAL dir mode after w =
     (let wal = \<lparr>wfFile = NoFile, wfOffset = 0, wfMode = mode, wfStats = zeroStats\<rparr> in
      if mode = MemoryOnly then (Inr (wal, [], 0), w)
      else if dir = [] then (Inl (OtherError ''durable mode requires a storage directory''), w)
      else case os_OpenRdwr WAL_oct w of
        (Some e, w1) \<Rightarrow> (Inl e, w1)
      | (None, w1) \<Rightarrow>
          (let wal = wal\<lparr>wfFile := OpenedFile\<rparr> in
           case io_check ''stat'' w1 of
             (Some e, w2) \<Rightarrow> failOpen e w2
           | (None, w2) \<Rightarrow>
               (case (if contents WAL_oct w2 = [] then writeHeader wal w2 else (None, wal, w2)) of
                  (Some e, _, w3) \<Rightarrow> failOpen e w3
                | (None, wal3, w3) \<Rightarrow>
                    (case file_ReadAll WAL_oct w3 of
                       (Inl e, w4) \<Rightarrow> failOpen e w4
                     | (Inr data, w4) \<Rightarrow>
                         (case scanWAL after data of
                            Inl e \<Rightarrow> failOpen e w4
                          | Inr (recs, valid) \<Rightarrow>
                              (case file_Truncate WAL_oct valid w4 of
                                 (Some e, w5) \<Rightarrow> failOpen e w5
                               | (None, w5) \<Rightarrow>
                                   (case file_Seek w5 of
                                      (Some e, w6) \<Rightarrow> failOpen e w6
                                    | (None, w6) \<Rightarrow>
                                        (Inr (wal3\<lparr>wfOffset := length (contents WAL_oct w6)\<rparr>, recs, length data), w6))))))))"

section \<open>Opening\<close>

fun passedOn :: "go_error \<Rightarrow> bool" where
  "passedOn (RuntimeError _ _) = True"
| "passedOn (PathError _) = True"
| "passedOn ErrNotExist = True"
| "passedOn (Panic _) = True"
| "passedOn (Wrapped _ e) = passedOn e"
| "passedOn _ = False"

text \<open>Errors of the file system are path errors; a panic passes through every handler.\<close>

definition classifyRecoveryError :: "go_error \<Rightarrow> go_error" where
  "classifyRecoveryError e = (if passedOn e then e else RuntimeError RecoveryCorrupt ''corrupt'')"

definition normalizeConfig :: "CoreConfig \<Rightarrow> CoreConfig res" where
  "normalizeConfig c0 =
     (let c1 = (if DedupeWindow c0 \<le> 0 then c0\<lparr>DedupeWindow := 100000\<rparr> else c0);
          c2 = (if MaxAccounts c1 \<le> 0 then c1\<lparr>MaxAccounts := 100000\<rparr> else c1);
          c3 = (if BatchMax c2 \<le> 0 then c2\<lparr>BatchMax := 512\<rparr> else c2)
      in if AccountHint c3 < 0 \<or> RecordHint c3 < 0 then Inl (OtherError ''negative core capacity hint'')
         else
           let c4 = (if MaxAccounts c3 < AccountHint c3 then c3\<lparr>AccountHint := MaxAccounts c3\<rparr> else c3);
               c5 = (if RecordHint c4 = 0 then c4\<lparr>RecordHint := AccountHint c4\<rparr> else c4)
           in if Durability c5 = SyncEach
              then Inl (OtherError ''core supports MemoryOnly or one durable Sync per offered batch'')
              else Inr c5)"

definition freshCore :: "CoreConfig \<Rightarrow> Core" where
  "freshCore c =
     \<lparr>cfg = c, ids = fmempty, accounts = [], present = [], agents = [], ledger = [], scratch = [], marks = [],
      epoch = 0, results = fmempty, order = [], orderHead = 0, cSequence = 0,
      cWal = \<lparr>wfFile = NoFile, wfOffset = 0, wfMode = Durability c, wfStats = zeroStats\<rparr>,
      cClosed = False, cPoisoned = None,
      recoveryStats = \<lparr>SnapshotSequence = 0, SnapshotBytes = 0, WALBytesScanned = 0, RecordsReplayed = 0\<rparr>\<rparr>"

definition loadSnapshot :: "Core \<Rightarrow> world \<Rightarrow> Core res \<times> world" where
  "loadSnapshot e w =
     (case os_ReadFile SNAPSHOT_oct w of
        (Inl ErrNotExist, w1) \<Rightarrow> (Inr e, w1)
      | (Inl err, w1) \<Rightarrow> (Inl err, w1)
      | (Inr data, w1) \<Rightarrow> (decodeSnapshot data e, w1))"

fun replayRecords :: "walRecord list \<Rightarrow> Core \<Rightarrow> Core res" where
  "replayRecords [] e = Inr e"
| "replayRecords (record # rs) e =
     (if wSequence record \<noteq> cSequence e + 1 then Inl (RuntimeError RecoveryCorrupt ''non-monotonic sequence'')
      else case applyRecovered record e of
             Inl err \<Rightarrow> Inl (classifyRecoveryError err)
           | Inr e' \<Rightarrow> replayRecords rs e')"

definition openStore :: "Core \<Rightarrow> world \<Rightarrow> Core res \<times> world" where
  "openStore e w =
     (if StorageDir (cfg e) = [] then (Inr e, w)
      else case os_MkdirAll w of
        (Some err, w1) \<Rightarrow> (Inl err, w1)
      | (None, w1) \<Rightarrow>
          (case loadSnapshot e w1 of
             (Inl err, w2) \<Rightarrow> (Inl (classifyRecoveryError err), w2)
           | (Inr e', w2) \<Rightarrow> (Inr e', w2)))"

definition OpenCore :: "CoreConfig \<Rightarrow> world \<Rightarrow> Core res \<times> world" where
  "OpenCore config w =
     (case normalizeConfig config of
        Inl err \<Rightarrow> (Inl err, w)
      | Inr c \<Rightarrow>
          (case openStore (freshCore c) w of
             (Inl err, w1) \<Rightarrow> (Inl err, w1)
           | (Inr e, w1) \<Rightarrow>
               (case openWAL (StorageDir c) (Durability c) (cSequence e) w1 of
                  (Inl err, w2) \<Rightarrow> (Inl (classifyRecoveryError err), w2)
                | (Inr (wal, recs, scanned), w2) \<Rightarrow>
                    (let e1 = e\<lparr>cWal := wal, recoveryStats :=
                           (recoveryStats e)\<lparr>WALBytesScanned := scanned, RecordsReplayed := length recs\<rparr>\<rparr>
                     in case replayRecords recs e1 of
                          Inl err \<Rightarrow> (Inl err, snd (snd (walFile_close wal w2)))
                        | Inr e2 \<Rightarrow>
                            if MaxAccounts c < int (length (accounts e2))
                            then (Inl (RuntimeError RecoveryIncompatible ''database contains more accounts than the configured maximum''),
                                  snd (snd (walFile_close wal w2)))
                            else (Inr e2, w2)))))"

section \<open>Batches\<close>

definition validateBatch :: "Command list \<Rightarrow> go_error option" where
  "validateBatch commands =
     (case filter (\<lambda>e. e \<noteq> None) (map ValidateCommand commands) of [] \<Rightarrow> None | e # _ \<Rightarrow> e)"

definition newAccounts :: "Command list \<Rightarrow> Core \<Rightarrow> AccountID list" where
  "newAccounts commands e =
     remdups (map cAccount (filter (\<lambda>c. isKind (cKind c) kCreate \<and> fmlookup (ids e) (cAccount c) = None) commands))"

definition nextEpoch :: "Core \<Rightarrow> Core" where
  "nextEpoch e =
     (if epoch e = -1 then e\<lparr>marks := map (\<lambda>_. 0) (marks e), epoch := 1\<rparr>
      else e\<lparr>epoch := epoch e + 1\<rparr>)"

record batchState =
  bCore :: Core
  bRecords :: "walRecord list"
  bResults :: "Result list"
  bIDs :: "(bytes, nat) fmap"

definition nextPending :: "Command \<Rightarrow> bool \<Rightarrow> pendingTransfer \<Rightarrow> pendingTransfer" where
  "nextPending command accepted pending =
     (let next = (if isKind (cKind command) kBeginTransfer \<and> accepted
                  then \<lparr>pActive = True, pTarget = cOther command, pAmount = cAmount command\<rparr> else pending)
      in if isKind (cKind command) kConfirm \<or> isKind (cKind command) kCancel then noPending else next)"

definition makeRecord ::
  "Command \<Rightarrow> u64 \<Rightarrow> Account \<Rightarrow> bool \<Rightarrow> Account \<Rightarrow> bool \<Rightarrow> agentState \<Rightarrow> walRecord" where
  "makeRecord command seq a aExists b bExists state =
     (let d = decideGo command a aExists b bExists (Pending state);
          next = nextPending command (dAccepted d) (Pending state)
      in \<lparr>wSequence = seq, wCommandID = cID command, wKind = Tag (cKind command), wA = cAccount command,
          wB = cOther command, wAmount = cAmount command, wAccepted = dAccepted d, wReason = dReason d,
          wEffect = dEffect d, wTurns = Turns state + 1, wNewBalanceA = dBalanceA d, wNewBalanceB = dBalanceB d,
          wNewStatus = dStatus d, wExpectedA = aVersion a, wExpectedB = aVersion b,
          wPendingActive = pActive next, wPendingTarget = pTarget next, wPendingAmount = pAmount next\<rparr>)"

definition pendingOf :: "walRecord \<Rightarrow> pendingTransfer" where
  "pendingOf r = \<lparr>pActive = wPendingActive r, pTarget = wPendingTarget r, pAmount = wPendingAmount r\<rparr>"

definition decideCommand :: "Command \<Rightarrow> batchState \<Rightarrow> batchState" where
  "decideCommand command st =
     (let ((aSlot, aok), e) = slot (cAccount command) (isKind (cKind command) kCreate) (bCore st);
          (bSlot, bok) = (if cOther command \<noteq> 0 then fst (slot (cOther command) False e) else (0, False));
          a = accountFor aSlot aok e;
          b = accountFor bSlot bok e;
          state = (if aok then at (agents e) aSlot else zeroAgent);
          aExists = (aok \<and> (at (present e) aSlot \<or> staged aSlot e));
          bExists = (bok \<and> (at (present e) bSlot \<or> staged bSlot e));
          seq = cSequence e + of_nat (length (bRecords st)) + 1;
          record = makeRecord command seq a aExists b bExists state;
          e1 = (if wAccepted record then stageEffect aSlot bSlot record e else e);
          e2 = (if aok then e1\<lparr>agents := (agents e1)[unat aSlot := \<lparr>Pending = pendingOf record, Turns = wTurns record\<rparr>]\<rparr>
                else e1)
      in st\<lparr>bCore := e2, bRecords := bRecords st @ [record], bResults := bResults st @ [resultOf record],
            bIDs := fmupd (cID command) (length (bResults st)) (bIDs st)\<rparr>)"

definition batchStep :: "Command \<Rightarrow> batchState \<Rightarrow> batchState" where
  "batchStep command st =
     (case fmlookup (results (bCore st)) (cID command) of
        Some prior \<Rightarrow> st\<lparr>bResults := bResults st @ [prior\<lparr>resDuplicate := True\<rparr>]\<rparr>
      | None \<Rightarrow>
          (case fmlookup (bIDs st) (cID command) of
             Some priorIndex \<Rightarrow>
               st\<lparr>bResults := bResults st @ [(bResults st ! priorIndex)\<lparr>resDuplicate := True\<rparr>]\<rparr>
           | None \<Rightarrow> decideCommand command st))"

definition runBatch :: "Command list \<Rightarrow> Core \<Rightarrow> batchState" where
  "runBatch commands e =
     fold batchStep commands \<lparr>bCore = nextEpoch e, bRecords = [], bResults = [], bIDs = fmempty\<rparr>"

definition SubmitBatch :: "Command list \<Rightarrow> Core \<Rightarrow> world \<Rightarrow> Result list res \<times> Core \<times> world" where
  "SubmitBatch commands e w =
     (if cClosed e then (Inl (RuntimeError EngineClosed ''engine closed''), e, w)
      else if cPoisoned e \<noteq> None then (Inl (RuntimeError EnginePoisoned ''engine poisoned''), e, w)
      else if commands = [] then (Inr [], e, w)
      else if BatchMax (cfg e) < int (length commands)
      then (Inl (RuntimeError CapacityExceeded ''batch''), e, w)
      else case validateBatch commands of
        Some err \<Rightarrow> (Inl err, e, w)
      | None \<Rightarrow>
          if MaxAccounts (cfg e) < int (length (accounts e)) + int (length (newAccounts commands e))
          then (Inl (RuntimeError CapacityExceeded ''account capacity exceeded''), e, w)
          else
            let st = runBatch commands e; e1 = bCore st in
            if bRecords st = [] then (Inr (bResults st), e1, w)
            else case appendBatch (bRecords st) (cWal e1) w of
              (Some err, wal, w1) \<Rightarrow>
                (Inl (RuntimeError DurabilityWriteFailed ''durability write failed''),
                 e1\<lparr>cWal := wal, cPoisoned := Some err\<rparr>, w1)
            | (None, wal, w1) \<Rightarrow> (Inr (bResults st), fold applyDurable (bRecords st) (e1\<lparr>cWal := wal\<rparr>), w1))"

definition Submit :: "Command \<Rightarrow> Core \<Rightarrow> world \<Rightarrow> Result res \<times> Core \<times> world" where
  "Submit command e w =
     (case SubmitBatch [command] e w of
        (Inl err, e1, w1) \<Rightarrow> (Inl err, e1, w1)
      | (Inr rs, e1, w1) \<Rightarrow> (Inr (rs ! 0), e1, w1))"

section \<open>Snapshots and closing\<close>

text \<open>What follows the synchronisation of the directory: the log is truncated and gets a new header. The
  position of the file is moved to the start before, and behind the header after, the header is written.\<close>

definition resetWAL :: "walFile \<Rightarrow> world \<Rightarrow> go_error option \<times> walFile \<times> world" where
  "resetWAL wal w =
     (case onFile wal (file_Truncate WAL_oct 0) w of
        (Some e, w1) \<Rightarrow> (Some e, wal, w1)
      | (None, w1) \<Rightarrow>
          (case onFile wal file_Seek w1 of
             (Some e, w2) \<Rightarrow> (Some e, wal, w2)
           | (None, w2) \<Rightarrow>
               (case writeHeader (wal\<lparr>wfOffset := 0\<rparr>) w2 of
                  (Some e, wal3, w3) \<Rightarrow> (Some e, wal3, w3)
                | (None, wal3, w3) \<Rightarrow>
                    (case onFile wal3 (file_Sync WAL_oct) w3 of
                       (Some e, w4) \<Rightarrow> (Some e, wal3, w4)
                     | (None, w4) \<Rightarrow>
                         (case onFile wal3 file_Seek w4 of
                            (Some e, w5) \<Rightarrow> (Some e, wal3, w5)
                          | (None, w5) \<Rightarrow> (None, wal3\<lparr>wfOffset := length (contents WAL_oct w5)\<rparr>, w5))))))"

definition installSnapshotFile :: "bytes \<Rightarrow> world \<Rightarrow> bool \<times> go_error option \<times> world" where
  "installSnapshotFile payload w =
     (case os_OpenTrunc SNAPSHOT_oct_tmp w of
        (Some e, w1) \<Rightarrow> (False, Some e, w1)
      | (None, w1) \<Rightarrow>
          (case close_after (and_then (file_WriteAt SNAPSHOT_oct_tmp 0 payload w1) (file_Sync SNAPSHOT_oct_tmp)) of
             (Some e, w2) \<Rightarrow> (False, Some e, snd (os_Remove SNAPSHOT_oct_tmp w2))
           | (None, w2) \<Rightarrow>
               (case os_Rename SNAPSHOT_oct_tmp SNAPSHOT_oct w2 of
                  (Some e, w3) \<Rightarrow> (False, Some e, snd (os_Remove SNAPSHOT_oct_tmp w3))
                | (None, w3) \<Rightarrow> (case syncDirectory w3 of (e, w4) \<Rightarrow> (True, e, w4)))))"

definition Core_Snapshot :: "Core \<Rightarrow> world \<Rightarrow> (fname option \<times> nat \<times> go_error option) \<times> Core \<times> world" where
  "Core_Snapshot e w =
     (if StorageDir (cfg e) = [] \<or> Durability (cfg e) = MemoryOnly
      then ((None, 0, Some (OtherError ''snapshots require durable storage'')), e, w)
      else
        let payload = encodeSnapshot e in
        case installSnapshotFile payload w of
          (False, err, w1) \<Rightarrow> ((None, 0, err), e, w1)
        | (True, Some err, w1) \<Rightarrow> ((Some SNAPSHOT_oct, length payload, Some err), e, w1)
        | (True, None, w1) \<Rightarrow>
            (case resetWAL (cWal e) w1 of
               (Some err, wal, w2) \<Rightarrow> ((Some SNAPSHOT_oct, length payload, Some err), e\<lparr>cWal := wal\<rparr>, w2)
             | (None, wal, w2) \<Rightarrow>
                 (let s = wfStats wal in
                  ((Some SNAPSHOT_oct, length payload, None),
                   e\<lparr>cWal := wal\<lparr>wfStats := s\<lparr>SnapshotBytesWritten := SnapshotBytesWritten s + of_nat (length payload)\<rparr>\<rparr>,
                     recoveryStats := (recoveryStats e)\<lparr>SnapshotSequence := cSequence e\<rparr>\<rparr>, w2))))"

definition Core_Close :: "Core \<Rightarrow> world \<Rightarrow> go_error option \<times> Core \<times> world" where
  "Core_Close e w =
     (if cClosed e then (None, e, w)
      else case walFile_close (cWal e) w of (err, wal, w1) \<Rightarrow> (err, e\<lparr>cClosed := True, cWal := wal\<rparr>, w1))"

end
