(* ===== verification/Bank_Spec.thy ===== *)
theory Bank_Spec
  imports Core_Engine Dedupe_Window
begin

text \<open>
  What the account engine promises, without slots, staging, logs and batches: a bank is the accounts and
  agents by identity, the ledger, the retained results and the sequence. A command makes a record from
  the bank and the record is applied to it; a command whose identity is retained is answered with the
  retained result. Commands are run one by one.
\<close>

record bank =
  bkAccounts :: "AccountID \<Rightarrow> Account option"
  bkAgents :: "AccountID \<Rightarrow> agentState"
  bkLedger :: "LedgerEntry list"
  bkRetained :: "(bytes \<times> Result) list"
  bkSequence :: u64

definition existing :: "bank \<Rightarrow> AccountID \<Rightarrow> Account" where
  "existing s i = (case bkAccounts s i of None \<Rightarrow> zeroAccount | Some a \<Rightarrow> a)"

definition otherAccount :: "Command \<Rightarrow> bank \<Rightarrow> Account option" where
  "otherAccount c s = (if cOther c = 0 then None else bkAccounts s (cOther c))"

definition bankRecord :: "Command \<Rightarrow> bank \<Rightarrow> walRecord" where
  "bankRecord c s =
     makeRecord c (bkSequence s + 1) (existing s (cAccount c)) (bkAccounts s (cAccount c) \<noteq> None)
       (case otherAccount c s of None \<Rightarrow> zeroAccount | Some b \<Rightarrow> b) (otherAccount c s \<noteq> None)
       (bkAgents s (cAccount c))"

definition moved :: "walRecord \<Rightarrow> bank \<Rightarrow> AccountID \<Rightarrow> Account option" where
  "moved r s =
     (let a = existing s (wA r); b = existing s (wB r);
          newA = a\<lparr>aBalance := wNewBalanceA r, aVersion := aVersion a + 1\<rparr>;
          newB = b\<lparr>aBalance := wNewBalanceB r, aVersion := aVersion b + 1\<rparr>
      in if \<not> wAccepted r then bkAccounts s
         else if wEffect r = 1
         then (bkAccounts s)(wA r \<mapsto> \<lparr>aID = wA r, aBalance = wNewBalanceA r, aStatus = StatusOpen, aVersion = 1\<rparr>)
         else if wEffect r = 2 then (bkAccounts s)(wA r \<mapsto> newA)
         else if wEffect r = 3 then (bkAccounts s)(wA r \<mapsto> newA, wB r \<mapsto> newB)
         else if wEffect r = 4
         then (bkAccounts s)(wA r \<mapsto> a\<lparr>aStatus := wNewStatus r, aVersion := aVersion a + 1\<rparr>)
         else bkAccounts s)"

definition entries :: "walRecord \<Rightarrow> LedgerEntry list" where
  "entries r =
     (if wAccepted r \<and> wEffect r \<in> {1, 2, 3, 4}
      then [\<lparr>lSequence = wSequence r, lCommandID = wCommandID r, lFrom = wA r, lTo = wB r, lAmount = wAmount r,
             lEffectTag = wEffect r\<rparr>]
      else [])"

definition bankApply :: "nat \<Rightarrow> walRecord \<Rightarrow> bank \<Rightarrow> bank" where
  "bankApply horizon r s =
     \<lparr>bkAccounts = moved r s,
      bkAgents = (bkAgents s)(wA r := \<lparr>Pending = pendingOf r, Turns = wTurns r\<rparr>),
      bkLedger = bkLedger s @ entries r,
      bkRetained = lastn horizon (bkRetained s @ [(wCommandID r, resultOf r)]),
      bkSequence = wSequence r\<rparr>"

definition bankSubmit :: "nat \<Rightarrow> Command \<Rightarrow> bank \<Rightarrow> Result \<times> bank" where
  "bankSubmit horizon c s =
     (case map_of (bkRetained s) (cID c) of
        Some prior \<Rightarrow> (prior\<lparr>resDuplicate := True\<rparr>, s)
      | None \<Rightarrow> let r = bankRecord c s in (resultOf r, bankApply horizon r s))"

fun bankRun :: "nat \<Rightarrow> Command list \<Rightarrow> bank \<Rightarrow> Result list \<times> bank" where
  "bankRun horizon [] s = ([], s)"
| "bankRun horizon (c # cs) s =
     (case bankSubmit horizon c s of (r, s1) \<Rightarrow> (case bankRun horizon cs s1 of (rs, s2) \<Rightarrow> (r # rs, s2)))"

lemma bankRun_append:
  "bankRun h (xs @ ys) s =
     (case bankRun h xs s of (rs, s1) \<Rightarrow> (case bankRun h ys s1 of (rs', s2) \<Rightarrow> (rs @ rs', s2)))"
  by (induction xs arbitrary: s) (auto split: prod.splits)

text \<open>A record may be applied when the accounts it changes exist.\<close>

definition applicable :: "walRecord \<Rightarrow> bank \<Rightarrow> bool" where
  "applicable r s \<longleftrightarrow>
     (wAccepted r \<longrightarrow>
        (wEffect r \<in> {2, 3, 4} \<longrightarrow> bkAccounts s (wA r) \<noteq> None)
        \<and> (wEffect r = 3 \<longrightarrow> wB r \<noteq> 0 \<and> wB r \<noteq> wA r \<and> bkAccounts s (wB r) \<noteq> None))"

section \<open>What a decision may be\<close>

text \<open>The record of a decision depends on balance, status and version of the two accounts only.\<close>

definition sameAccount :: "Account \<Rightarrow> Account \<Rightarrow> bool" where
  "sameAccount a b \<longleftrightarrow> aBalance a = aBalance b \<and> aStatus a = aStatus b \<and> aVersion a = aVersion b"

lemma makeRecord_same:
  assumes "sameAccount a a'" "sameAccount b b'"
  shows "makeRecord c q a x b y g = makeRecord c q a' x b' y g"
proof -
  have e: "aBalance a = aBalance a'" "aStatus a = aStatus a'" "aVersion a = aVersion a'" "aBalance b = aBalance b'"
    "aVersion b = aVersion b'" using assms by (simp_all add: sameAccount_def)
  show ?thesis unfolding makeRecord_def decideGo_def noneDecision_def Let_def e ..
qed

lemma decideGo_cases:
  assumes "d = decideGo c a x b y p"
  shows "\<not> dAccepted d \<and> dEffect d = 0 \<or> dAccepted d \<and>
    (dEffect d = 0
     \<or> dEffect d = 1 \<and> isKind (cKind c) kCreate \<and> \<not> x \<and> dBalanceA d = cAmount c \<and> \<not> slt (cAmount c) 0
     \<or> dEffect d = 2 \<and> x \<and> slt 0 (cAmount c)
         \<and> (isKind (cKind c) kDeposit \<and> dBalanceA d = aBalance a + cAmount c
            \<or> isKind (cKind c) kWithdraw \<and> aStatus a \<noteq> StatusFrozen \<and> \<not> slt (aBalance a) (cAmount c)
              \<and> dBalanceA d = aBalance a - cAmount c)
     \<or> dEffect d = 3 \<and> x \<and> y \<and> slt 0 (cAmount c) \<and> (isKind (cKind c) kTransfer \<or> isKind (cKind c) kConfirm)
         \<and> aStatus a \<noteq> StatusFrozen \<and> \<not> slt (aBalance a) (cAmount c)
         \<and> dBalanceA d = aBalance a - cAmount c \<and> dBalanceB d = aBalance b + cAmount c
     \<or> dEffect d = 4 \<and> x \<and> (isKind (cKind c) kFreeze \<and> dStatus d = StatusFrozen
                             \<or> isKind (cKind c) kUnfreeze \<and> dStatus d = StatusOpen))"
  unfolding assms decideGo_def Let_def noneDecision_def by auto

lemma makeRecord_simps [simp]:
  "wSequence (makeRecord c q a x b y g) = q" "wCommandID (makeRecord c q a x b y g) = cID c"
  "wA (makeRecord c q a x b y g) = cAccount c" "wB (makeRecord c q a x b y g) = cOther c"
  "wAmount (makeRecord c q a x b y g) = cAmount c"
  "wExpectedA (makeRecord c q a x b y g) = aVersion a" "wExpectedB (makeRecord c q a x b y g) = aVersion b"
  "wAccepted (makeRecord c q a x b y g) = dAccepted (decideGo c a x b y (Pending g))"
  "wEffect (makeRecord c q a x b y g) = dEffect (decideGo c a x b y (Pending g))"
  "wNewBalanceA (makeRecord c q a x b y g) = dBalanceA (decideGo c a x b y (Pending g))"
  "wNewBalanceB (makeRecord c q a x b y g) = dBalanceB (decideGo c a x b y (Pending g))"
  "wNewStatus (makeRecord c q a x b y g) = dStatus (decideGo c a x b y (Pending g))"
  by (simp_all add: makeRecord_def Let_def)

lemma bankRecord_applicable:
  assumes "ValidateCommand c = None"
  shows "applicable (bankRecord c s) s"
proof -
  have v: "isKind (cKind c) kTransfer \<or> isKind (cKind c) kConfirm \<Longrightarrow> cOther c \<noteq> 0 \<and> cOther c \<noteq> cAccount c"
    using assms by (auto simp: ValidateCommand_def split: if_splits)
  let ?x = "bkAccounts s (cAccount c) \<noteq> None" and ?y = "otherAccount c s \<noteq> None"
  show ?thesis
    using decideGo_cases [OF refl, of c "existing s (cAccount c)" ?x
        "case otherAccount c s of None \<Rightarrow> zeroAccount | Some b \<Rightarrow> b" ?y "Pending (bkAgents s (cAccount c))"] v
    by (auto simp: applicable_def bankRecord_def otherAccount_def)
qed

end
