(* ===== verification/Core_Slots.thy ===== *)
theory Core_Slots
  imports Bank_Spec
begin

text \<open>
  The representation of the bank by dense slots, and the compacting queue of retained results. \<open>slots_ok\<close>
  and \<open>dedupe_ok\<close> are the invariants of the two, \<open>bankOf\<close> is what a state represents, and applying a
  record to a state is applying it to the bank.
\<close>

section \<open>Retained results\<close>

definition horizonOf :: "Core \<Rightarrow> nat" where
  "horizonOf e = nat (DedupeWindow (cfg e))"

definition retainedBy :: "Core \<Rightarrow> (bytes \<times> Result) list" where
  "retainedBy e = map (\<lambda>i. (i, resultFor i e)) (active e)"

definition dedupe_ok :: "Core \<Rightarrow> bool" where
  "dedupe_ok e \<longleftrightarrow>
     0 < DedupeWindow (cfg e) \<and> orderHead e \<le> length (order e) \<and> distinct (active e)
     \<and> length (active e) \<le> horizonOf e \<and> (\<forall>i. fmlookup (results e) i \<noteq> None \<longleftrightarrow> i \<in> set (active e))"

lemma retained_iff: "dedupe_ok e \<Longrightarrow> i \<in> set (active e) \<longleftrightarrow> fmlookup (results e) i \<noteq> None"
  unfolding dedupe_ok_def by blast

lemma remember_cfg [simp]: "cfg (remember i r e) = cfg e"
  by (simp add: remember_def Let_def)

lemma active_remember:
  assumes "dedupe_ok e"
  shows "active (remember i r e) = lastn (horizonOf e) (active e @ [i])"
proof -
  have h: "orderHead e \<le> length (order e)" "int (horizonOf e) = DedupeWindow (cfg e)"
    "length (active e) \<le> horizonOf e" "length (active e) = length (order e) - orderHead e"
    using assms by (auto simp: dedupe_ok_def horizonOf_def active_def)
  let ?full = "DedupeWindow (cfg e) < int (length (order e)) + 1 - int (orderHead e)"
  have "active (remember i r e) = drop (if ?full then Suc (orderHead e) else orderHead e) (order e @ [i])"
    by (simp add: remember_def Let_def active_def)
  also have "\<dots> = lastn (horizonOf e) (active e @ [i])"
  proof (cases ?full)
    case True
    then have "horizonOf e = length (active e)" using h by linarith
    then show ?thesis using True h(1) by (simp add: lastn_def active_def Suc_diff_le drop_Suc flip: drop_tl)
  next
    case False
    then have "length (active e) < horizonOf e" using h by linarith
    then show ?thesis using False h(1) by (simp add: lastn_def active_def)
  qed
  finally show ?thesis .
qed

lemma results_remember:
  assumes "dedupe_ok e" "i \<notin> set (active e)"
  shows "fmlookup (results (remember i r e)) j =
    (if j \<in> set (active (remember i r e)) then (if j = i then Some r else fmlookup (results e) j) else None)"
proof -
  have h: "orderHead e \<le> length (order e)" "int (horizonOf e) = DedupeWindow (cfg e)" "0 < horizonOf e"
    "length (active e) \<le> horizonOf e" "length (active e) = length (order e) - orderHead e" "distinct (active e)"
    "\<And>i. fmlookup (results e) i \<noteq> None \<longleftrightarrow> i \<in> set (active e)"
    using assms(1) by (auto simp: dedupe_ok_def horizonOf_def active_def)
  let ?full = "DedupeWindow (cfg e) < int (length (order e)) + 1 - int (orderHead e)"
  have res: "results (remember i r e) =
      (if ?full then fmdrop ((order e @ [i]) ! orderHead e) (fmupd i r (results e)) else fmupd i r (results e))"
    by (simp add: remember_def Let_def)
  show ?thesis
  proof (cases ?full)
    case True
    then have l: "length (active e) = horizonOf e" using h by linarith
    then obtain x xs where x: "active e = x # xs" using h(3) by (cases "active e") auto
    then have "(order e @ [i]) ! orderHead e = x"
      by (metis active_def h(1) hd_drop_conv_nth list.sel(1) list.simps(3) nth_append drop_eq_Nil not_le)
    moreover have "active (remember i r e) = xs @ [i]"
      using active_remember [OF assms(1)] l x by (simp add: lastn_def)
    ultimately show ?thesis using True h(6) h(7) [of j] assms(2) x
      by (cases "fmlookup (results e) j") (auto simp: res)
  next
    case False
    then have "active (remember i r e) = active e @ [i]"
      using active_remember [OF assms(1), of i r] h by (simp add: lastn_all)
    then show ?thesis using False h(7) [of j] by (cases "fmlookup (results e) j") (auto simp: res)
  qed
qed

lemma retained_lookup:
  assumes "dedupe_ok e"
  shows "map_of (retainedBy e) i = fmlookup (results e) i"
proof (cases "fmlookup (results e) i")
  case None
  then have "i \<notin> set (active e)" using retained_iff [OF assms, of i] by simp
  then show ?thesis using None by (simp add: retainedBy_def map_of_eq_None_iff image_iff)
next
  case (Some r)
  then have "(i, resultFor i e) \<in> set (retainedBy e)" using retained_iff [OF assms, of i] by (simp add: retainedBy_def)
  moreover have "distinct (map fst (retainedBy e))" using assms by (simp add: dedupe_ok_def retainedBy_def comp_def)
  ultimately show ?thesis using Some by (simp add: resultFor_def)
qed

lemma remember_law:
  assumes "dedupe_ok e" "fmlookup (results e) i = None"
  shows "dedupe_ok (remember i r e)" "retainedBy (remember i r e) = lastn (horizonOf e) (retainedBy e @ [(i, r)])"
proof -
  have n: "i \<notin> set (active e)" using retained_iff [OF assms(1), of i] assms(2) by simp
  have a: "active (remember i r e) = lastn (horizonOf e) (active e @ [i])" by (rule active_remember [OF assms(1)])
  have d: "0 < DedupeWindow (cfg e)" "distinct (active e)" using assms(1) by (simp_all add: dedupe_ok_def)
  have c: "orderHead (remember i r e) \<le> length (order (remember i r e))"
    using assms(1) by (auto simp: remember_def Let_def dedupe_ok_def)
  show "dedupe_ok (remember i r e)"
    using d n c assms(1) results_remember [OF assms(1) n, of r] unfolding dedupe_ok_def
    by (auto simp: a horizonOf_def lastn_def intro!: distinct_drop dest: in_set_dropD)
  have "map (\<lambda>j. (j, resultFor j (remember i r e))) (active (remember i r e))
      = map (\<lambda>j. (j, if j = i then r else resultFor j e)) (active (remember i r e))"
    by (rule map_cong [OF refl]) (simp add: resultFor_def results_remember [OF assms(1) n])
  also have "\<dots> = lastn (horizonOf e) (map (\<lambda>j. (j, if j = i then r else resultFor j e)) (active e @ [i]))"
    by (simp only: a lastn_map)
  also have "map (\<lambda>j. (j, if j = i then r else resultFor j e)) (active e @ [i]) = retainedBy e @ [(i, r)]"
    using n by (auto simp: retainedBy_def)
  finally show "retainedBy (remember i r e) = lastn (horizonOf e) (retainedBy e @ [(i, r)])" by (simp add: retainedBy_def)
qed

lemma retained_static:
  assumes "dedupe_ok e"
  shows "0 < horizonOf e" "length (retainedBy e) \<le> horizonOf e" "distinct (map fst (retainedBy e))"
  using assms by (simp_all add: dedupe_ok_def horizonOf_def retainedBy_def comp_def)

lemma remember_horizon [simp]: "horizonOf (remember i r e) = horizonOf e"
  by (simp add: horizonOf_def)

interpretation core_dedupe: dedupe_window dedupe_ok horizonOf retainedBy "\<lambda>e. fmlookup (results e)" fst snd
  "\<lambda>x. remember (fst x) (snd x)"
  by unfold_locales (simp_all add: retained_static retained_lookup remember_law)

section \<open>Slots\<close>

definition slots_ok :: "Core \<Rightarrow> bool" where
  "slots_ok e \<longleftrightarrow>
     length (present e) = length (accounts e) \<and> length (agents e) = length (accounts e)
     \<and> length (scratch e) = length (accounts e) \<and> length (marks e) = length (accounts e)
     \<and> length (accounts e) < 2 ^ 32
     \<and> (\<forall>i s. fmlookup (ids e) i = Some s \<longleftrightarrow> unat s < length (accounts e) \<and> aID (at (accounts e) s) = i)
     \<and> (\<forall>n < length (accounts e). \<not> present e ! n \<longrightarrow> accounts e ! n = zeroAccount\<lparr>aID := aID (accounts e ! n)\<rparr>)"

definition visible :: "Core \<Rightarrow> AccountID \<Rightarrow> Account option" where
  "visible e i =
     (case fmlookup (ids e) i of None \<Rightarrow> None
      | Some s \<Rightarrow> if at (present e) s then Some (at (accounts e) s) else None)"

definition agentOf :: "Core \<Rightarrow> AccountID \<Rightarrow> agentState" where
  "agentOf e i = (case fmlookup (ids e) i of None \<Rightarrow> zeroAgent | Some s \<Rightarrow> at (agents e) s)"

definition bankOf :: "Core \<Rightarrow> bank" where
  "bankOf e = \<lparr>bkAccounts = visible e, bkAgents = agentOf e, bkLedger = ledger e, bkRetained = retainedBy e,
              bkSequence = cSequence e\<rparr>"

text \<open>The accounts a running batch sees.\<close>

definition batchView :: "Core \<Rightarrow> AccountID \<Rightarrow> Account option" where
  "batchView e i =
     (case fmlookup (ids e) i of None \<Rightarrow> None
      | Some s \<Rightarrow> if at (present e) s \<or> staged s e then Some (accountFor s True e) else None)"

text \<open>Resolving an identity.\<close>

lemma slot_known: "slots_ok e \<Longrightarrow> fmlookup (ids e) i = Some s \<Longrightarrow> unat s < length (accounts e) \<and> aID (at (accounts e) s) = i"
  unfolding slots_ok_def by blast

lemma slot_unique:
  assumes "slots_ok e" "fmlookup (ids e) i = Some s" "fmlookup (ids e) j = Some t"
  shows "unat s = unat t \<longleftrightarrow> i = j"
  using slot_known [OF assms(1,2)] slot_known [OF assms(1,3)] assms(2,3) by (metis option.inject)

lemma slot_existing: "fmlookup (ids e) i = Some s \<Longrightarrow> slot i create e = ((s, True), e)"
  by (simp add: slot_def)

lemma slot_absent: "fmlookup (ids e) i = None \<Longrightarrow> slot i False e = ((0, False), e)"
  by (simp add: slot_def)

lemma slot_no_create: "snd (slot i False e) = e"
  by (simp add: slot_def split: option.split)

lemma slot_create:
  assumes "slots_ok e" "length (accounts e) + 1 < 2 ^ 32" "slot i create e = ((s, ok), e')"
  shows "slots_ok e'" "visible e' = visible e" "batchView e' = batchView e" "agentOf e' = agentOf e"
    "create \<or> fmlookup (ids e) i \<noteq> None \<Longrightarrow> ok \<and> fmlookup (ids e') i = Some s"
    "\<not> create \<Longrightarrow> e' = e"
    "length (accounts e) \<le> length (accounts e') \<and> length (accounts e') \<le> length (accounts e) + 1"
    "e' = e\<lparr>ids := ids e', accounts := accounts e', present := present e', agents := agents e', scratch := scratch e', marks := marks e'\<rparr>"
proof -
  show "\<not> create \<Longrightarrow> e' = e" using assms(3) by (auto simp: slot_def split: option.splits)
  have "slots_ok e' \<and> visible e' = visible e \<and> batchView e' = batchView e \<and> agentOf e' = agentOf e
    \<and> (create \<or> fmlookup (ids e) i \<noteq> None \<longrightarrow> ok \<and> fmlookup (ids e') i = Some s)
    \<and> length (accounts e) \<le> length (accounts e') \<and> length (accounts e') \<le> length (accounts e) + 1
    \<and> e' = e\<lparr>ids := ids e', accounts := accounts e', present := present e', agents := agents e', scratch := scratch e', marks := marks e'\<rparr>"
  proof (cases "create \<and> fmlookup (ids e) i = None")
    case False
    then show ?thesis using assms by (auto simp: slot_def split: option.splits)
  next
    case True
    let ?n = "of_nat (length (accounts e)) :: u32"
    have n: "unat ?n = length (accounts e)" using assms(1) by (simp add: slots_ok_def unat_of_nat)
    have e': "s = ?n" "ok"
      "e' = e\<lparr>ids := fmupd i ?n (ids e), accounts := accounts e @ [zeroAccount\<lparr>aID := i\<rparr>],
               present := present e @ [False], agents := agents e @ [zeroAgent],
               scratch := scratch e @ [zeroAccount], marks := marks e @ [0]\<rparr>"
      using True assms(3) by (auto simp: slot_def Let_def)
    have len: "length (present e) = length (accounts e)" "length (agents e) = length (accounts e)"
      "length (scratch e) = length (accounts e)" "length (marks e) = length (accounts e)"
      using assms(1) by (simp_all add: slots_ok_def)
    have lt: "unat t < length (accounts e)" if "fmlookup (ids e) j = Some t" for j t
      using slot_known [OF assms(1) that] by simp
    have "fmlookup (fmupd i ?n (ids e)) j = Some t \<longleftrightarrow>
        unat t < Suc (length (accounts e)) \<and> aID (at (accounts e @ [zeroAccount\<lparr>aID := i\<rparr>]) t) = j" for j t
    proof -
      have "fmlookup (ids e) j = Some t \<longleftrightarrow> unat t < length (accounts e) \<and> aID (at (accounts e) t) = j"
        using assms(1) unfolding slots_ok_def by blast
      moreover have "?n = t \<longleftrightarrow> unat t = length (accounts e)" using n by (metis unsigned_word_eqI)
      ultimately show ?thesis using True by (auto simp: nth_append less_Suc_eq)
    qed
    moreover have "n < Suc (length (accounts e)) \<Longrightarrow> \<not> (present e @ [False]) ! n \<Longrightarrow>
        (accounts e @ [zeroAccount\<lparr>aID := i\<rparr>]) ! n = zeroAccount\<lparr>aID := aID ((accounts e @ [zeroAccount\<lparr>aID := i\<rparr>]) ! n)\<rparr>" for n
      using assms(1) by (auto simp: slots_ok_def nth_append less_Suc_eq)
    ultimately have "slots_ok e'" using assms(1,2) by (simp add: slots_ok_def e'(3))
    moreover have "visible e' j = visible e j" "batchView e' j = batchView e j" "agentOf e' j = agentOf e j" for j
      using True n lt [of j] len
      by (cases "fmlookup (ids e) j"; cases "j = i";
          simp add: visible_def batchView_def agentOf_def accountFor_def staged_def e'(3) nth_append)+
    ultimately show ?thesis using True e' by auto
  qed
  then show "slots_ok e'" "visible e' = visible e" "batchView e' = batchView e" "agentOf e' = agentOf e"
    "create \<or> fmlookup (ids e) i \<noteq> None \<Longrightarrow> ok \<and> fmlookup (ids e') i = Some s"
    "length (accounts e) \<le> length (accounts e') \<and> length (accounts e') \<le> length (accounts e) + 1"
    "e' = e\<lparr>ids := ids e', accounts := accounts e', present := present e', agents := agents e', scratch := scratch e', marks := marks e'\<rparr>"
    by blast+
qed

section \<open>Applying a record\<close>

lemma slots_lengths:
  "slots_ok e \<Longrightarrow> length (present e) = length (accounts e) \<and> length (agents e) = length (accounts e)
     \<and> length (scratch e) = length (accounts e) \<and> length (marks e) = length (accounts e) \<and> length (accounts e) < 2 ^ 32"
  by (simp add: slots_ok_def)

lemma slots_ids:
  "slots_ok e \<Longrightarrow> fmlookup (ids e) i = Some s \<longleftrightarrow> unat s < length (accounts e) \<and> aID (at (accounts e) s) = i"
  unfolding slots_ok_def by blast

lemma slots_phantom:
  "slots_ok e \<Longrightarrow> n < length (accounts e) \<Longrightarrow> \<not> present e ! n \<Longrightarrow> accounts e ! n = zeroAccount\<lparr>aID := aID (accounts e ! n)\<rparr>"
  unfolding slots_ok_def by blast

lemma slots_okI:
  assumes "slots_ok e" "ids e' = ids e" "length (accounts e') = length (accounts e)" "length (present e') = length (accounts e)"
    "length (agents e') = length (accounts e)" "length (scratch e') = length (accounts e)" "length (marks e') = length (accounts e)"
    and "\<And>n. n < length (accounts e) \<Longrightarrow> aID (accounts e' ! n) = aID (accounts e ! n)"
    and "\<And>n. n < length (accounts e) \<Longrightarrow> \<not> present e' ! n \<Longrightarrow> accounts e' ! n = zeroAccount\<lparr>aID := aID (accounts e' ! n)\<rparr>"
  shows "slots_ok e'"
proof -
  have "fmlookup (ids e') i = Some s \<longleftrightarrow> unat s < length (accounts e') \<and> aID (at (accounts e') s) = i" for i s
    using slots_ids [OF assms(1), of i s] assms(2,3,8) by auto
  then show ?thesis using assms slots_lengths [OF assms(1)] unfolding slots_ok_def by simp
qed

text \<open>Storing an account in its slot, and marking it present.\<close>

lemma store_account:
  assumes "slots_ok e" "fmlookup (ids e) i = Some s" "aID a = i"
    and e': "accounts e' = (accounts e)[unat s := a]" "present e' = (present e)[unat s := True]" "ids e' = ids e"
      "agents e' = agents e" "scratch e' = scratch e" "marks e' = marks e"
  shows "slots_ok e' \<and> visible e' = (visible e)(i \<mapsto> a)"
proof
  have s: "unat s < length (accounts e)" "aID (at (accounts e) s) = i" using slot_known [OF assms(1,2)] by simp_all
  note l = slots_lengths [OF assms(1)]
  show "slots_ok e'"
    using s l assms(3) slots_phantom [OF assms(1)]
    by (intro slots_okI [OF assms(1)]) (auto simp: e' nth_list_update)
  show "visible e' = (visible e)(i \<mapsto> a)"
  proof
    fix j
    show "visible e' j = ((visible e)(i \<mapsto> a)) j"
    proof (cases "fmlookup (ids e) j")
      case (Some t)
      then have "unat s = unat t \<longleftrightarrow> i = j" by (rule slot_unique [OF assms(1,2)])
      then show ?thesis using Some s l by (auto simp: visible_def e' nth_list_update)
    qed (use assms(2) in \<open>auto simp: visible_def e'\<close>)
  qed
qed

lemma store_agent:
  assumes "slots_ok e" "fmlookup (ids e) i = Some s"
    and e': "agents e' = (agents e)[unat s := g]" "accounts e' = accounts e" "present e' = present e" "ids e' = ids e"
      "scratch e' = scratch e" "marks e' = marks e"
  shows "slots_ok e' \<and> visible e' = visible e \<and> agentOf e' = (agentOf e)(i := g)"
proof -
  have s: "unat s < length (accounts e)" "aID (at (accounts e) s) = i" using slot_known [OF assms(1,2)] by simp_all
  note l = slots_lengths [OF assms(1)]
  have "agentOf e' j = ((agentOf e)(i := g)) j" for j
  proof (cases "fmlookup (ids e) j")
    case (Some t)
    then have "unat s = unat t \<longleftrightarrow> i = j" by (rule slot_unique [OF assms(1,2)])
    then show ?thesis using Some s l by (auto simp: agentOf_def e' nth_list_update)
  qed (use assms(2) in \<open>auto simp: agentOf_def e'\<close>)
  moreover have "slots_ok e'" using l slots_phantom [OF assms(1)] by (intro slots_okI [OF assms(1)]) (auto simp: e')
  moreover have "visible e' = visible e" by (rule ext) (simp add: visible_def e' split: option.split)
  ultimately show ?thesis by auto
qed

lemma visible_slot:
  assumes "slots_ok e" "visible e i = Some a"
  obtains s where "fmlookup (ids e) i = Some s" "at (present e) s" "at (accounts e) s = a" "aID a = i"
    "unat s < length (accounts e)"
proof -
  obtain s where s: "fmlookup (ids e) i = Some s" "at (present e) s" "at (accounts e) s = a"
    using assms(2) by (auto simp: visible_def split: option.splits if_splits)
  with slot_known [OF assms(1) s(1)] that show ?thesis by simp
qed

lemma bankOf_simps [simp]:
  "bkAccounts (bankOf e) = visible e" "bkAgents (bankOf e) = agentOf e" "bkLedger (bankOf e) = ledger e"
  "bkRetained (bankOf e) = retainedBy e" "bkSequence (bankOf e) = cSequence e"
  by (simp_all add: bankOf_def)

lemma setAccount_present:
  assumes "slots_ok e" "visible e i = Some b" "fmlookup (ids e) i = Some s" "aID a = i"
  shows "slots_ok (setAccount s a e) \<and> visible (setAccount s a e) = (visible e)(i \<mapsto> a)"
proof -
  have "at (present e) s" using assms(2,3) by (auto simp: visible_def split: if_splits)
  then have "(present e)[unat s := True] = present e" by (metis list_update_id)
  then show ?thesis using store_account [OF assms(1,3,4), of "setAccount s a e"] by (simp add: setAccount_def)
qed

lemma applyEffect_frame [simp]:
  "ids (applyEffect s t r e) = ids e" "agents (applyEffect s t r e) = agents e" "ledger (applyEffect s t r e) = ledger e"
  "results (applyEffect s t r e) = results e" "order (applyEffect s t r e) = order e"
  "orderHead (applyEffect s t r e) = orderHead e" "cfg (applyEffect s t r e) = cfg e" "cSequence (applyEffect s t r e) = cSequence e"
  "length (accounts (applyEffect s t r e)) = length (accounts e)"
  by (simp_all add: applyEffect_def setAccount_def Let_def)

lemma applyEffect_moves:
  assumes "slots_ok e" "fmlookup (ids e) (wA r) = Some s" "wAccepted r"
    and "wEffect r \<in> {2, 3, 4} \<Longrightarrow> visible e (wA r) \<noteq> None"
    and "wEffect r = 3 \<Longrightarrow> wB r \<noteq> wA r \<and> visible e (wB r) \<noteq> None \<and> fmlookup (ids e) (wB r) = Some t"
  shows "slots_ok (applyEffect s t r e) \<and> visible (applyEffect s t r e) = moved r (bankOf e)"
proof -
  have ex: "existing (bankOf e) i = at (accounts e) u \<and> aID (at (accounts e) u) = i \<and> (\<exists>b. visible e i = Some b)"
    if "visible e i \<noteq> None" "fmlookup (ids e) i = Some u" for i u
    using that slot_known [OF assms(1) that(2)] by (auto simp: existing_def visible_def split: if_splits)
  consider "wEffect r = 1" | "wEffect r = 2" | "wEffect r = 3" | "wEffect r = 4" | "wEffect r \<notin> {1, 2, 3, 4}" by blast
  then show ?thesis
  proof cases
    case 1
    then show ?thesis
      using store_account [OF assms(1,2), of "\<lparr>aID = wA r, aBalance = wNewBalanceA r, aStatus = StatusOpen, aVersion = 1\<rparr>"
          "applyEffect s t r e"] assms(3)
      by (simp add: applyEffect_def moved_def Let_def setAccount_def)
  next
    case 2
    then obtain b where b: "visible e (wA r) = Some b" using assms(4) by auto
    show ?thesis
      using setAccount_present [OF assms(1) b assms(2)] ex [OF _ assms(2)] b 2 assms(3)
      by (simp add: applyEffect_def moved_def Let_def)
  next
    case 4
    then obtain b where b: "visible e (wA r) = Some b" using assms(4) by auto
    show ?thesis
      using setAccount_present [OF assms(1) b assms(2)] ex [OF _ assms(2)] b 4 assms(3)
      by (simp add: applyEffect_def moved_def Let_def)
  next
    case 3
    then obtain a b where b: "visible e (wA r) = Some a" "visible e (wB r) = Some b" "fmlookup (ids e) (wB r) = Some t" "wB r \<noteq> wA r"
      using assms(4,5) by auto
    let ?A = "(at (accounts e) s)\<lparr>aBalance := wNewBalanceA r, aVersion := aVersion (at (accounts e) s) + 1\<rparr>"
    let ?B = "(at (accounts e) t)\<lparr>aBalance := wNewBalanceB r, aVersion := aVersion (at (accounts e) t) + 1\<rparr>"
    let ?e = "setAccount s ?A e"
    have A: "slots_ok ?e" "visible ?e = (visible e)(wA r \<mapsto> ?A)"
      using setAccount_present [OF assms(1) b(1) assms(2), of ?A] ex [OF _ assms(2)] b(1) by simp_all
    have vb: "visible ?e (wB r) = Some b" using A(2) b by simp
    have ib: "fmlookup (ids ?e) (wB r) = Some t" using b(3) by (simp add: setAccount_def)
    have "slots_ok (setAccount t ?B ?e) \<and> visible (setAccount t ?B ?e) = (visible ?e)(wB r \<mapsto> ?B)"
      using setAccount_present [OF A(1) vb ib, of ?B] ex [OF _ b(3)] b(2) by simp
    then show ?thesis using A(2) ex [OF _ assms(2)] ex [OF _ b(3)] b 3 assms(3)
      by (simp add: applyEffect_def moved_def Let_def)
  next
    case 5
    then show ?thesis using assms(1) by (simp add: applyEffect_def moved_def Let_def)
  qed
qed


lemma remember_frame [simp]:
  "ids (remember i x e) = ids e" "accounts (remember i x e) = accounts e" "present (remember i x e) = present e"
  "agents (remember i x e) = agents e" "ledger (remember i x e) = ledger e" "scratch (remember i x e) = scratch e"
  "marks (remember i x e) = marks e" "cSequence (remember i x e) = cSequence e" "epoch (remember i x e) = epoch e"
  "cWal (remember i x e) = cWal e" "cClosed (remember i x e) = cClosed e" "cPoisoned (remember i x e) = cPoisoned e"
  by (simp_all add: remember_def Let_def)

lemma slots_ok_cong:
  "ids e' = ids e \<Longrightarrow> accounts e' = accounts e \<Longrightarrow> present e' = present e \<Longrightarrow> agents e' = agents e \<Longrightarrow> scratch e' = scratch e
    \<Longrightarrow> marks e' = marks e \<Longrightarrow> slots_ok e' = slots_ok e \<and> visible e' = visible e \<and> agentOf e' = agentOf e"
  by (simp add: slots_ok_def visible_def [abs_def] agentOf_def [abs_def] cong: option.case_cong if_cong)

lemma dedupe_cong:
  "results e' = results e \<Longrightarrow> order e' = order e \<Longrightarrow> orderHead e' = orderHead e \<Longrightarrow> cfg e' = cfg e
    \<Longrightarrow> dedupe_ok e' = dedupe_ok e \<and> retainedBy e' = retainedBy e \<and> horizonOf e' = horizonOf e"
  by (simp add: dedupe_ok_def retainedBy_def active_def resultFor_def horizonOf_def)

lemma slot_frame:
  assumes "slot i create e = (x, e')"
  shows "ledger e' = ledger e" "results e' = results e" "order e' = order e" "orderHead e' = orderHead e" "cfg e' = cfg e"
    "cSequence e' = cSequence e" "epoch e' = epoch e" "cWal e' = cWal e" "cClosed e' = cClosed e" "cPoisoned e' = cPoisoned e"
  using assms by (auto simp: slot_def Let_def split: option.splits if_splits)

lemma applyDurable_unfold:
  assumes "slot (wA r) True e = ((aSlot, ok), e1)"
    and "bSlot = (if wB r \<noteq> 0 then fst (fst (slot (wB r) False e1)) else 0)"
    and "e2 = (if wAccepted r then applyEffect aSlot bSlot r e1 else e1)"
  shows "applyDurable r e =
    (remember (wCommandID r) (resultOf r)
      (e2\<lparr>ledger := ledger e2 @ entries r,
          agents := (agents e2)[unat aSlot := \<lparr>Pending = pendingOf r, Turns = wTurns r\<rparr>]\<rparr>))\<lparr>cSequence := wSequence r\<rparr>"
proof -
  have l: "(if wAccepted r then applyLedger r e2 else e2) = e2\<lparr>ledger := ledger e2 @ entries r\<rparr>"
    by (cases e2) (simp add: applyLedger_def entries_def)
  have "(if wAccepted r then applyLedger r (applyEffect aSlot bSlot r e1) else e1) = e2\<lparr>ledger := ledger e2 @ entries r\<rparr>"
    using l assms(3) by (simp split: if_splits)
  then show ?thesis using assms(1,2) by (cases "wAccepted r") (simp_all add: applyDurable_def Let_def pendingOf_def)
qed

theorem applyDurable_refines:
  assumes "slots_ok e" "dedupe_ok e" "length (accounts e) + 1 < 2 ^ 32" "applicable r (bankOf e)"
    and "fmlookup (results e) (wCommandID r) = None"
  shows "slots_ok (applyDurable r e)" "dedupe_ok (applyDurable r e)"
    "bankOf (applyDurable r e) = bankApply (horizonOf e) r (bankOf e)"
    "length (accounts (applyDurable r e)) \<le> length (accounts e) + 1" "horizonOf (applyDurable r e) = horizonOf e"
proof -
  obtain s ok e1 where 1: "slot (wA r) True e = ((s, ok), e1)" by (metis surj_pair)
  note c = slot_create [OF assms(1,3) 1]
  define t where "t = (if wB r \<noteq> 0 then fst (fst (slot (wB r) False e1)) else 0)"
  define e2 where "e2 = (if wAccepted r then applyEffect s t r e1 else e1)"
  define e3 where "e3 = e2\<lparr>ledger := ledger e2 @ entries r,
      agents := (agents e2)[unat s := \<lparr>Pending = pendingOf r, Turns = wTurns r\<rparr>]\<rparr>"
  note f1 = slot_frame [OF 1]
  have d: "applyDurable r e = (remember (wCommandID r) (resultOf r) e3)\<lparr>cSequence := wSequence r\<rparr>"
    unfolding e3_def by (rule applyDurable_unfold [OF 1 t_def e2_def])
  have id: "fmlookup (ids e1) (wA r) = Some s" using c(5) by simp
  have v1: "bankOf e1 = bankOf e" using c(2,4) f1 dedupe_cong [of e1 e] by (simp add: bankOf_def)
  have 2: "slots_ok e2 \<and> visible e2 = moved r (bankOf e)"
  proof (cases "wAccepted r")
    case True
    have t: "fmlookup (ids e1) (wB r) = Some t" if "wB r \<noteq> 0" "visible e1 (wB r) \<noteq> None"
      using that by (auto simp: t_def slot_def visible_def split: option.splits)
    show ?thesis
      using applyEffect_moves [OF c(1) id True, of t] assms(4) True t c(2)
      by (auto simp: e2_def v1 [symmetric] applicable_def)
  qed (use c in \<open>simp add: e2_def moved_def Let_def\<close>)
  have f2: "ids e2 = ids e1" "agents e2 = agents e1" "ledger e2 = ledger e" "results e2 = results e" "order e2 = order e"
    "orderHead e2 = orderHead e" "cfg e2 = cfg e" "length (accounts e2) = length (accounts e1)"
    using f1 by (simp_all add: e2_def)
  have a2: "agentOf e2 = agentOf e" using c(4) f2(1,2) by (simp add: agentOf_def [abs_def] cong: option.case_cong)
  have 3: "slots_ok e3 \<and> visible e3 = moved r (bankOf e)
      \<and> agentOf e3 = (agentOf e)(wA r := \<lparr>Pending = pendingOf r, Turns = wTurns r\<rparr>)"
    using store_agent [OF conjunct1 [OF 2], of "wA r" s e3] 2 a2 id f2(1) by (simp add: e3_def)
  have f3: "dedupe_ok e3" "retainedBy e3 = retainedBy e" "horizonOf e3 = horizonOf e" "results e3 = results e"
    "ledger e3 = ledger e @ entries r"
    using dedupe_cong [of e3 e] assms(2) f2 by (simp_all add: e3_def)
  let ?e4 = "remember (wCommandID r) (resultOf r) e3"
  have r4: "dedupe_ok ?e4" "retainedBy ?e4 = lastn (horizonOf e) (retainedBy e @ [(wCommandID r, resultOf r)])"
    using remember_law [OF f3(1)] f3 assms(5) by simp_all
  have k: "slots_ok (applyDurable r e) = slots_ok e3 \<and> visible (applyDurable r e) = visible e3 \<and> agentOf (applyDurable r e) = agentOf e3"
    by (rule slots_ok_cong) (simp_all add: d)
  have q: "dedupe_ok (applyDurable r e) = dedupe_ok ?e4 \<and> retainedBy (applyDurable r e) = retainedBy ?e4
      \<and> horizonOf (applyDurable r e) = horizonOf ?e4"
    by (rule dedupe_cong) (simp_all add: d)
  show "slots_ok (applyDurable r e)" using k 3 by simp
  show "dedupe_ok (applyDurable r e)" using q r4 by simp
  show "horizonOf (applyDurable r e) = horizonOf e" using q f3 by simp
  show "length (accounts (applyDurable r e)) \<le> length (accounts e) + 1" using c(7) f2(8) by (simp add: d e3_def)
  show "bankOf (applyDurable r e) = bankApply (horizonOf e) r (bankOf e)"
    using k q 3 r4 f3(5) by (simp add: bankOf_def bankApply_def) (simp add: d)
qed

end
