(* ===== verification/Core_Batch.thy ===== *)
theory Core_Batch
  imports Core_Slots
begin

text \<open>
  A batch is decided against staged accounts, logged as a whole and applied afterwards; the bank runs its
  commands one by one. The simulation between the two: the staged view is the bank so far, and the
  records of the batch applied to the state before it give the bank after it.
\<close>

section \<open>Staging\<close>

lemma visible_cong: "ids e' = ids e \<Longrightarrow> accounts e' = accounts e \<Longrightarrow> present e' = present e \<Longrightarrow> visible e' = visible e"
  by (simp add: visible_def [abs_def] cong: option.case_cong if_cong)

lemma agentOf_cong: "ids e' = ids e \<Longrightarrow> agents e' = agents e \<Longrightarrow> agentOf e' = agentOf e"
  by (simp add: agentOf_def [abs_def] cong: option.case_cong)

definition marks_ok :: "Core \<Rightarrow> bool" where
  "marks_ok e \<longleftrightarrow> (\<forall>m \<in> set (marks e). m \<le> epoch e)"

lemma batchView_unstaged: "slots_ok e \<Longrightarrow> \<forall>m \<in> set (marks e). m \<noteq> epoch e \<Longrightarrow> batchView e = visible e"
proof
  fix i
  assume a: "slots_ok e" "\<forall>m \<in> set (marks e). m \<noteq> epoch e"
  show "batchView e i = visible e i"
  proof (cases "fmlookup (ids e) i")
    case (Some s)
    then have "at (marks e) s \<in> set (marks e)" using slot_known [OF a(1)] slots_lengths [OF a(1)] by simp
    then have "\<not> staged s e" using a(2) by (auto simp: staged_def)
    then show ?thesis using Some by (simp add: batchView_def visible_def accountFor_def)
  qed (simp add: batchView_def visible_def)
qed

lemma nextEpoch_frame [simp]:
  "ids (nextEpoch e) = ids e" "accounts (nextEpoch e) = accounts e" "present (nextEpoch e) = present e"
  "agents (nextEpoch e) = agents e" "scratch (nextEpoch e) = scratch e" "length (marks (nextEpoch e)) = length (marks e)"
  "ledger (nextEpoch e) = ledger e" "results (nextEpoch e) = results e" "order (nextEpoch e) = order e"
  "orderHead (nextEpoch e) = orderHead e" "cfg (nextEpoch e) = cfg e" "cSequence (nextEpoch e) = cSequence e"
  "cWal (nextEpoch e) = cWal e" "cClosed (nextEpoch e) = cClosed e" "cPoisoned (nextEpoch e) = cPoisoned e"
  by (simp_all add: nextEpoch_def)

lemma nextEpoch_fresh:
  assumes "slots_ok e" "marks_ok e"
  shows "slots_ok (nextEpoch e)" "marks_ok (nextEpoch e)" "epoch (nextEpoch e) \<noteq> 0" "batchView (nextEpoch e) = visible e"
    "bankOf (nextEpoch e) = bankOf e"
proof -
  have n: "unat (epoch e + 1) = unat (epoch e) + 1" if "epoch e \<noteq> -1"
    using that unatSuc [of "epoch e"] by (auto simp: add.commute eq_neg_iff_add_eq_0)
  show s: "slots_ok (nextEpoch e)"
    using slots_lengths [OF assms(1)] slots_phantom [OF assms(1)] by (intro slots_okI [OF assms(1)]) auto
  have lt: "\<forall>m \<in> set (marks (nextEpoch e)). m < epoch (nextEpoch e)"
    using assms(2) n by (auto simp: nextEpoch_def marks_ok_def word_le_nat_alt word_less_nat_alt)
  then show "marks_ok (nextEpoch e)" by (auto simp: marks_ok_def intro: less_imp_le)
  show "epoch (nextEpoch e) \<noteq> 0" using n by (auto simp: nextEpoch_def)
  have v: "visible (nextEpoch e) = visible e" by (rule visible_cong) simp_all
  then show "batchView (nextEpoch e) = visible e" using batchView_unstaged [OF s] lt by auto
  show "bankOf (nextEpoch e) = bankOf e"
    using v dedupe_cong [of "nextEpoch e" e] agentOf_cong [of "nextEpoch e" e] by (simp add: bankOf_def)
qed

lemma stage_frame [simp]:
  "ids (stage s a e) = ids e" "accounts (stage s a e) = accounts e" "present (stage s a e) = present e"
  "agents (stage s a e) = agents e" "epoch (stage s a e) = epoch e" "ledger (stage s a e) = ledger e"
  "results (stage s a e) = results e" "order (stage s a e) = order e" "orderHead (stage s a e) = orderHead e"
  "cfg (stage s a e) = cfg e" "cSequence (stage s a e) = cSequence e" "cWal (stage s a e) = cWal e"
  "cClosed (stage s a e) = cClosed e" "cPoisoned (stage s a e) = cPoisoned e"
  by (simp_all add: stage_def)

lemma stage_view:
  assumes "slots_ok e" "marks_ok e" "epoch e \<noteq> 0" "fmlookup (ids e) i = Some s"
  shows "slots_ok (stage s a e)" "marks_ok (stage s a e)" "batchView (stage s a e) = (batchView e)(i \<mapsto> a)"
proof -
  note l = slots_lengths [OF assms(1)] and k = slot_known [OF assms(1,4)]
  show "slots_ok (stage s a e)"
    using l slots_phantom [OF assms(1)] by (intro slots_okI [OF assms(1)]) (auto simp: stage_def)
  show "marks_ok (stage s a e)"
    using assms(2) set_update_subset_insert [of "marks e" "unat s" "epoch e"] by (auto simp: marks_ok_def stage_def)
  show "batchView (stage s a e) = (batchView e)(i \<mapsto> a)"
  proof
    fix j
    show "batchView (stage s a e) j = ((batchView e)(i \<mapsto> a)) j"
    proof (cases "fmlookup (ids e) j")
      case (Some t)
      then have "unat s = unat t \<longleftrightarrow> i = j" by (rule slot_unique [OF assms(1,4)])
      then show ?thesis using Some l k assms(3)
        by (auto simp: batchView_def stage_def staged_def accountFor_def nth_list_update)
    qed (use assms(4) in \<open>auto simp: batchView_def\<close>)
  qed
qed

lemma batchView_slot:
  assumes "batchView e i = Some a" "fmlookup (ids e) i = Some s"
  shows "accountFor s True e = a"
  using assms by (auto simp: batchView_def split: if_splits)

lemma stageEffect_frame [simp]:
  "ids (stageEffect s t r e) = ids e" "accounts (stageEffect s t r e) = accounts e" "present (stageEffect s t r e) = present e"
  "agents (stageEffect s t r e) = agents e" "epoch (stageEffect s t r e) = epoch e" "ledger (stageEffect s t r e) = ledger e"
  "results (stageEffect s t r e) = results e" "order (stageEffect s t r e) = order e"
  "orderHead (stageEffect s t r e) = orderHead e" "cfg (stageEffect s t r e) = cfg e"
  "cSequence (stageEffect s t r e) = cSequence e" "cWal (stageEffect s t r e) = cWal e"
  "cClosed (stageEffect s t r e) = cClosed e" "cPoisoned (stageEffect s t r e) = cPoisoned e"
  by (simp_all add: stageEffect_def Let_def)

lemma stageEffect_moves:
  assumes e: "slots_ok e" "marks_ok e" "epoch e \<noteq> 0" and "batchView e = bkAccounts b"
    and s: "fmlookup (ids e) (wA r) = Some s" and "wAccepted r" "applicable r b"
    and t: "wEffect r = 3 \<Longrightarrow> fmlookup (ids e) (wB r) = Some t"
  shows "slots_ok (stageEffect s t r e) \<and> marks_ok (stageEffect s t r e) \<and> batchView (stageEffect s t r e) = moved r b"
proof -
  have ex: "existing b i = accountFor u True e" if "bkAccounts b i \<noteq> None" "fmlookup (ids e) i = Some u" for i u
    using that batchView_slot [of e i _ u] assms(4) by (auto simp: existing_def)
  consider "wEffect r = 1" | "wEffect r = 2" | "wEffect r = 3" | "wEffect r = 4" | "wEffect r \<notin> {1, 2, 3, 4}" by blast
  then show ?thesis
  proof cases
    case 3
    let ?A = "(accountFor s True e)\<lparr>aBalance := wNewBalanceA r, aVersion := aVersion (accountFor s True e) + 1\<rparr>"
    let ?B = "(accountFor t True e)\<lparr>aBalance := wNewBalanceB r, aVersion := aVersion (accountFor t True e) + 1\<rparr>"
    note A = stage_view [OF e s, of ?A]
    have "fmlookup (ids (stage s ?A e)) (wB r) = Some t" "epoch (stage s ?A e) \<noteq> 0" using t 3 e(3) by simp_all
    note B = stage_view [OF A(1,2) this(2,1), of ?B]
    have "bkAccounts b (wA r) \<noteq> None" "bkAccounts b (wB r) \<noteq> None" using assms(6,7) 3 by (auto simp: applicable_def)
    then show ?thesis using B A(3) ex [OF _ s] ex [OF _ t] 3 assms(4,6) by (simp add: stageEffect_def moved_def Let_def)
  qed (use assms(6,7) stage_view [OF e s] ex [OF _ s] assms(4) e in \<open>auto simp: stageEffect_def moved_def Let_def applicable_def\<close>)
qed

section \<open>Records that follow a bank\<close>

text \<open>What recovery demands of the records of a log.\<close>

fun admitted :: "nat \<Rightarrow> bank \<Rightarrow> walRecord list \<Rightarrow> bool" where
  "admitted h s [] = True"
| "admitted h s (r # rs) \<longleftrightarrow>
     applicable r s \<and> map_of (bkRetained s) (wCommandID r) = None \<and> wSequence r = bkSequence s + 1
     \<and> wExpectedA r = aVersion (existing s (wA r))
     \<and> wExpectedB r = (if wB r = 0 then 0 else aVersion (existing s (wB r)))
     \<and> admitted h (bankApply h r s) rs"

lemma admitted_append: "admitted h s (xs @ ys) \<longleftrightarrow> admitted h s xs \<and> admitted h (fold (bankApply h) xs s) ys"
  by (induction xs arbitrary: s) auto

text \<open>Applying records does not read the agents, and overwrites those of the accounts they name.\<close>

lemma bankApply_agents:
  "bankApply h r (s\<lparr>bkAgents := g\<rparr>) = (bankApply h r s)\<lparr>bkAgents := g(wA r := \<lparr>Pending = pendingOf r, Turns = wTurns r\<rparr>)\<rparr>"
  by (simp add: bankApply_def moved_def existing_def Let_def)

lemma existing_agents [simp]: "existing (s\<lparr>bkAgents := g\<rparr>) = existing s"
  by (simp add: existing_def [abs_def])

lemma applicable_agents [simp]: "applicable r (s\<lparr>bkAgents := g\<rparr>) = applicable r s"
  by (simp add: applicable_def)

lemma admitted_agents: "admitted h (s\<lparr>bkAgents := g\<rparr>) rs = admitted h s rs"
  by (induction rs arbitrary: s g) (simp_all add: bankApply_agents)

lemma fold_agents:
  assumes "\<And>i. i \<notin> wA ` set rs \<Longrightarrow> g i = bkAgents s i"
  shows "fold (bankApply h) rs (s\<lparr>bkAgents := g\<rparr>) = fold (bankApply h) rs s"
  using assms
proof (induction rs arbitrary: s g)
  case Nil
  then have "g = bkAgents s" by auto
  then show ?case by simp
next
  case (Cons r rs)
  let ?g = "g(wA r := \<lparr>Pending = pendingOf r, Turns = wTurns r\<rparr>)"
  have "?g i = bkAgents (bankApply h r s) i" if "i \<notin> wA ` set rs" for i
    using Cons.prems [of i] that by (auto simp: bankApply_def)
  then have "fold (bankApply h) rs ((bankApply h r s)\<lparr>bkAgents := ?g\<rparr>) = fold (bankApply h) rs (bankApply h r s)" by (rule Cons.IH)
  then show ?case by (simp only: fold_simps bankApply_agents)
qed

lemma fold_agents_other: "i \<notin> wA ` set rs \<Longrightarrow> bkAgents (fold (bankApply h) rs s) i = bkAgents s i"
  by (induction rs arbitrary: s) (auto simp: bankApply_def)

lemma bankApply_simps [simp]:
  "bkRetained (bankApply h r s) = lastn h (bkRetained s @ [(wCommandID r, resultOf r)])" "bkSequence (bankApply h r s) = wSequence r"
  "bkAccounts (bankApply h r s) = moved r s"
  by (simp_all add: bankApply_def)

theorem fold_applyDurable_refines:
  assumes "slots_ok e" "dedupe_ok e" "length (accounts e) + length rs < 2 ^ 32" "admitted (horizonOf e) (bankOf e) rs"
  shows "slots_ok (fold applyDurable rs e) \<and> dedupe_ok (fold applyDurable rs e)
    \<and> bankOf (fold applyDurable rs e) = fold (bankApply (horizonOf e)) rs (bankOf e)
    \<and> length (accounts (fold applyDurable rs e)) \<le> length (accounts e) + length rs
    \<and> horizonOf (fold applyDurable rs e) = horizonOf e"
  using assms
proof (induction rs arbitrary: e)
  case (Cons r rs)
  have r: "applicable r (bankOf e)" "fmlookup (results e) (wCommandID r) = None" "length (accounts e) + 1 < 2 ^ 32"
    using Cons.prems retained_lookup [OF Cons.prems(2)] by simp_all
  note a = applyDurable_refines [OF Cons.prems(1,2) r(3,1,2)]
  have "length (accounts (applyDurable r e)) + length rs < 2 ^ 32" using a(4) Cons.prems(3) by simp
  moreover have "admitted (horizonOf (applyDurable r e)) (bankOf (applyDurable r e)) rs" using Cons.prems(4) a(3,5) by simp
  ultimately show ?case using Cons.IH [OF a(1,2)] a(3-5) by fastforce
qed simp

section \<open>The simulation\<close>

text \<open>Every command but a creation addresses an account that has a slot when its turn comes.\<close>

fun addressed :: "bytes list \<Rightarrow> AccountID list \<Rightarrow> Command list \<Rightarrow> bool" where
  "addressed seen known [] = True"
| "addressed seen known (c # cs) =
     (if cID c \<in> set seen then addressed seen known cs
      else if isKind (cKind c) kCreate then addressed (cID c # seen) (cAccount c # known) cs
      else cAccount c \<in> set known \<and> addressed (cID c # seen) known cs)"

text \<open>No command repeats an identity that the batch itself may push out of the retained ones.\<close>

definition remembered :: "nat \<Rightarrow> (bytes \<times> Result) list \<Rightarrow> Command list \<Rightarrow> bool" where
  "remembered h kept cs \<longleftrightarrow>
     length cs \<le> h \<and> (\<forall>c \<in> set cs. cID c \<notin> fst ` set (take (length kept + length cs - h) kept))"

definition newly :: "walRecord list \<Rightarrow> (bytes \<times> Result) list" where
  "newly rs = map (\<lambda>r. (wCommandID r, resultOf r)) rs"

definition sameBase :: "Core \<Rightarrow> Core \<Rightarrow> bool" where
  "sameBase e e' \<longleftrightarrow>
     visible e' = visible e \<and> ledger e' = ledger e \<and> results e' = results e \<and> order e' = order e
     \<and> orderHead e' = orderHead e \<and> cfg e' = cfg e \<and> cSequence e' = cSequence e \<and> cWal e' = cWal e
     \<and> cClosed e' = cClosed e \<and> cPoisoned e' = cPoisoned e"

definition simulates :: "Core \<Rightarrow> batchState \<Rightarrow> bank \<Rightarrow> bool" where
  "simulates e st s \<longleftrightarrow>
     slots_ok (bCore st) \<and> marks_ok (bCore st) \<and> epoch (bCore st) \<noteq> 0 \<and> sameBase e (bCore st)
     \<and> batchView (bCore st) = bkAccounts s \<and> agentOf (bCore st) = bkAgents s
     \<and> s = fold (bankApply (horizonOf e)) (bRecords st) (bankOf e) \<and> admitted (horizonOf e) (bankOf e) (bRecords st)
     \<and> bkSequence s = cSequence e + of_nat (length (bRecords st))
     \<and> bkRetained s = lastn (horizonOf e) (retainedBy e @ newly (bRecords st))
     \<and> length (accounts (bCore st)) \<le> length (accounts e) + length (bRecords st)
     \<and> length (bRecords st) \<le> length (bResults st)
     \<and> (\<forall>i. map_of (newly (bRecords st)) i = map_option ((!) (bResults st)) (fmlookup (bIDs st) i))
     \<and> (\<forall>i k. fmlookup (bIDs st) i = Some k \<longrightarrow> k < length (bResults st))"

lemma retained_recent_window:
  assumes "dedupe_ok e" "remembered (horizonOf e) (retainedBy e) cs" "c \<in> set cs" "length new \<le> length cs"
  shows "map_of (lastn (horizonOf e) (retainedBy e @ new)) (cID c) =
    (case fmlookup (results e) (cID c) of Some r \<Rightarrow> Some r | None \<Rightarrow> map_of new (cID c))"
proof -
  let ?h = "horizonOf e" and ?R = "retainedBy e"
  let ?k = "length ?R + length new - ?h"
  have h: "length cs \<le> ?h" "cID c \<notin> fst ` set (take (length ?R + length cs - ?h) ?R)"
    using assms(2,3) by (auto simp: remembered_def)
  have "set (take ?k ?R) \<subseteq> set (take (length ?R + length cs - ?h) ?R)" using assms(4) by (intro set_take_subset_set_take) simp
  then have t: "map_of (take ?k ?R) (cID c) = None" using h(2) by (auto simp: map_of_eq_None_iff)
  have "lastn ?h (?R @ new) = drop ?k ?R @ new" using h(1) assms(4) by (simp add: lastn_def)
  then have "map_of (lastn ?h (?R @ new)) (cID c) = (map_of new ++ map_of (drop ?k ?R)) (cID c)" by simp
  moreover have "map_of (drop ?k ?R) (cID c) = map_of ?R (cID c)"
    using t map_of_append [of "take ?k ?R" "drop ?k ?R"] by (simp add: map_add_def split: option.splits)
  ultimately show ?thesis using retained_lookup [OF assms(1), of "cID c"] by (simp add: map_add_def split: option.splits)
qed


lemma accountFor_view:
  assumes "slots_ok e" "fmlookup (ids e) i = Some s"
  shows "sameAccount (accountFor s True e) (case batchView e i of None \<Rightarrow> zeroAccount | Some a \<Rightarrow> a)"
    "at (present e) s \<or> staged s e \<longleftrightarrow> batchView e i \<noteq> None"
proof -
  show "sameAccount (accountFor s True e) (case batchView e i of None \<Rightarrow> zeroAccount | Some a \<Rightarrow> a)"
  proof (cases "at (present e) s \<or> staged s e")
    case False
    then have "accountFor s True e = zeroAccount\<lparr>aID := aID (at (accounts e) s)\<rparr>"
      using slots_phantom [OF assms(1), of "unat s"] slot_known [OF assms] by (simp add: accountFor_def)
    then show ?thesis using False assms(2) by (simp add: batchView_def sameAccount_def)
  qed (use assms(2) in \<open>simp add: batchView_def sameAccount_def\<close>)
qed (use assms(2) in \<open>simp add: batchView_def\<close>)

text \<open>The record of a command in a batch is the record of the bank.\<close>

lemma decided_record:
  assumes e: "slots_ok e" "batchView e = bkAccounts s" "agentOf e = bkAgents s"
    and A: "fmlookup (ids e) (cAccount c) = Some aSlot"
    and B: "(bSlot, bok) = (if cOther c \<noteq> 0 then fst (slot (cOther c) False e) else (0, False))"
  shows "makeRecord c (bkSequence s + 1) (accountFor aSlot True e) (at (present e) aSlot \<or> staged aSlot e)
      (accountFor bSlot bok e) (bok \<and> (at (present e) bSlot \<or> staged bSlot e)) (at (agents e) aSlot)
    = bankRecord c s"
    "otherAccount c s \<noteq> None \<Longrightarrow> fmlookup (ids e) (cOther c) = Some bSlot"
proof -
  note a = accountFor_view [OF e(1) A, unfolded e(2)]
  have g: "at (agents e) aSlot = bkAgents s (cAccount c)" using A by (simp add: e(3) [symmetric] agentOf_def)
  have b: "sameAccount (accountFor bSlot bok e) (case otherAccount c s of None \<Rightarrow> zeroAccount | Some b \<Rightarrow> b)
      \<and> (bok \<and> (at (present e) bSlot \<or> staged bSlot e) \<longleftrightarrow> otherAccount c s \<noteq> None)
      \<and> (otherAccount c s \<noteq> None \<longrightarrow> fmlookup (ids e) (cOther c) = Some bSlot)"
  proof (cases "cOther c = 0 \<or> fmlookup (ids e) (cOther c) = None")
    case True
    then have "\<not> bok" "otherAccount c s = None"
      using B by (auto simp: slot_def otherAccount_def e(2) [symmetric] batchView_def split: if_splits)
    then show ?thesis by (simp add: accountFor_def sameAccount_def)
  next
    case False
    then have "fmlookup (ids e) (cOther c) = Some bSlot" "bok" "cOther c \<noteq> 0" using B by (auto simp: slot_def split: if_splits)
    then show ?thesis using accountFor_view [OF e(1), of "cOther c" bSlot] by (simp add: otherAccount_def e(2))
  qed
  then show "otherAccount c s \<noteq> None \<Longrightarrow> fmlookup (ids e) (cOther c) = Some bSlot" by blast
  show "makeRecord c (bkSequence s + 1) (accountFor aSlot True e) (at (present e) aSlot \<or> staged aSlot e)
      (accountFor bSlot bok e) (bok \<and> (at (present e) bSlot \<or> staged bSlot e)) (at (agents e) aSlot) = bankRecord c s"
    unfolding bankRecord_def existing_def g a(2) using makeRecord_same [OF a(1) conjunct1 [OF b]] b by simp
qed


lemma batchView_cong:
  "ids e' = ids e \<Longrightarrow> accounts e' = accounts e \<Longrightarrow> present e' = present e \<Longrightarrow> scratch e' = scratch e \<Longrightarrow> marks e' = marks e
    \<Longrightarrow> epoch e' = epoch e \<Longrightarrow> batchView e' = batchView e"
  by (simp add: batchView_def [abs_def] accountFor_def staged_def cong: option.case_cong if_cong)

lemma slot_marks: "slot i create e = (x, e') \<Longrightarrow> marks_ok e \<Longrightarrow> marks_ok e'"
  by (auto simp: slot_def marks_ok_def Let_def split: option.splits if_splits)

lemma slot_ids: "slot i create e = (x, e') \<Longrightarrow> fmlookup (ids e) j \<noteq> None \<Longrightarrow> fmlookup (ids e') j \<noteq> None"
  by (auto simp: slot_def Let_def split: option.splits if_splits)

lemma decideCommand_unfold:
  assumes "slot (cAccount c) (isKind (cKind c) kCreate) (bCore st) = ((aSlot, aok), e)"
    and "(if cOther c \<noteq> 0 then fst (slot (cOther c) False e) else (0, False)) = (bSlot, bok)"
    and "makeRecord c (cSequence e + of_nat (length (bRecords st)) + 1) (accountFor aSlot aok e)
      (aok \<and> (at (present e) aSlot \<or> staged aSlot e)) (accountFor bSlot bok e)
      (bok \<and> (at (present e) bSlot \<or> staged bSlot e)) (if aok then at (agents e) aSlot else zeroAgent) = r"
  shows "decideCommand c st =
    (let e1 = (if wAccepted r then stageEffect aSlot bSlot r e else e);
         e2 = (if aok then e1\<lparr>agents := (agents e1)[unat aSlot := \<lparr>Pending = pendingOf r, Turns = wTurns r\<rparr>]\<rparr> else e1)
     in st\<lparr>bCore := e2, bRecords := bRecords st @ [r], bResults := bResults st @ [resultOf r],
           bIDs := fmupd (cID c) (length (bResults st)) (bIDs st)\<rparr>)"
  by (simp only: decideCommand_def Let_def assms prod.case)

text \<open>What deciding a command does to the state of the engine.\<close>

lemma decideCommand_core:
  assumes e: "slots_ok e" "marks_ok e" "epoch e \<noteq> 0" "batchView e = bkAccounts s" "agentOf e = bkAgents s"
    and "length (accounts e) + 1 < 2 ^ 32" "ValidateCommand c = None"
    and "isKind (cKind c) kCreate \<or> fmlookup (ids e) (cAccount c) \<noteq> None"
    and "bCore st = e" "bkSequence s = cSequence e + of_nat (length (bRecords st))"
  shows "\<exists>e'. decideCommand c st = st\<lparr>bCore := e', bRecords := bRecords st @ [bankRecord c s],
        bResults := bResults st @ [resultOf (bankRecord c s)], bIDs := fmupd (cID c) (length (bResults st)) (bIDs st)\<rparr>
      \<and> slots_ok e' \<and> marks_ok e' \<and> epoch e' = epoch e \<and> sameBase e e' \<and> batchView e' = moved (bankRecord c s) s
      \<and> agentOf e' = (bkAgents s)(cAccount c := \<lparr>Pending = pendingOf (bankRecord c s), Turns = wTurns (bankRecord c s)\<rparr>)
      \<and> length (accounts e') \<le> length (accounts e) + 1
      \<and> (\<forall>j. fmlookup (ids e) j \<noteq> None \<or> j = cAccount c \<longrightarrow> fmlookup (ids e') j \<noteq> None)"
proof -
  obtain aSlot aok e1 where 1: "slot (cAccount c) (isKind (cKind c) kCreate) e = ((aSlot, aok), e1)" by (metis surj_pair)
  obtain bSlot bok where B: "(bSlot, bok) = (if cOther c \<noteq> 0 then fst (slot (cOther c) False e1) else (0, False))" by (metis surj_pair)
  note k = slot_create [OF e(1) assms(6) 1] and f1 = slot_frame [OF 1]
  have A: "aok" "fmlookup (ids e1) (cAccount c) = Some aSlot" using k(5) assms(8) by auto
  let ?r = "bankRecord c s"
  have v1: "batchView e1 = bkAccounts s" "agentOf e1 = bkAgents s" "marks_ok e1" "epoch e1 \<noteq> 0"
    using k(3,4) e slot_marks [OF 1] f1 by simp_all
  have r: "makeRecord c (cSequence e1 + of_nat (length (bRecords st)) + 1) (accountFor aSlot aok e1)
      (aok \<and> (at (present e1) aSlot \<or> staged aSlot e1)) (accountFor bSlot bok e1)
      (bok \<and> (at (present e1) bSlot \<or> staged bSlot e1)) (if aok then at (agents e1) aSlot else zeroAgent) = ?r"
    using decided_record(1) [OF k(1) v1(1,2) A(2) B] A(1) assms(10) f1 by simp
  define e2 where "e2 = (if wAccepted ?r then stageEffect aSlot bSlot ?r e1 else e1)"
  define e3 where "e3 = e2\<lparr>agents := (agents e2)[unat aSlot := \<lparr>Pending = pendingOf ?r, Turns = wTurns ?r\<rparr>]\<rparr>"
  have run: "decideCommand c st = st\<lparr>bCore := e3, bRecords := bRecords st @ [?r],
      bResults := bResults st @ [resultOf ?r], bIDs := fmupd (cID c) (length (bResults st)) (bIDs st)\<rparr>"
    using decideCommand_unfold [OF 1 [folded assms(9)] B [symmetric] r] A(1) by (simp add: Let_def e3_def e2_def)
  have ap: "applicable ?r s" by (rule bankRecord_applicable [OF assms(7)])
  have w: "wA ?r = cAccount c" "wB ?r = cOther c" by (simp_all add: bankRecord_def)
  have b3: "fmlookup (ids e1) (wB ?r) = Some bSlot" if "wAccepted ?r" "wEffect ?r = 3"
    using decided_record(2) [OF k(1) v1(1,2) A(2) B] ap that w by (auto simp: applicable_def otherAccount_def)
  have 2: "slots_ok e2 \<and> marks_ok e2 \<and> batchView e2 = moved ?r s"
    using stageEffect_moves [OF k(1) v1(3,4,1), of ?r aSlot bSlot] A(2) ap b3 w k(1) v1
    by (auto simp: e2_def moved_def Let_def)
  have f2: "ids e2 = ids e1" "accounts e2 = accounts e1" "present e2 = present e1" "agents e2 = agents e1" "epoch e2 = epoch e"
    "sameBase e1 e2"
    using f1 visible_cong [of e2 e1] by (simp_all add: e2_def sameBase_def)
  have 3: "slots_ok e3 \<and> visible e3 = visible e2 \<and> agentOf e3 = (agentOf e2)(cAccount c := \<lparr>Pending = pendingOf ?r, Turns = wTurns ?r\<rparr>)"
    using store_agent [OF conjunct1 [OF 2], of "cAccount c" aSlot e3] A(2) f2(1) by (simp add: e3_def)
  have "batchView e3 = batchView e2" by (rule batchView_cong) (simp_all add: e3_def)
  moreover have "agentOf e2 = bkAgents s" using agentOf_cong [of e2 e1] f2 v1(2) by simp
  moreover have "sameBase e e3" using f1 f2(6) 3 k(2) by (simp add: sameBase_def e3_def)
  moreover have "marks_ok e3" "epoch e3 = epoch e" "accounts e3 = accounts e1" "ids e3 = ids e1"
    using 2 f2 by (simp_all add: e3_def marks_ok_def)
  ultimately show ?thesis using run 2 3 k(7) slot_ids [OF 1] A(2) by (intro exI [of _ e3]) auto
qed

lemma simulatesD:
  assumes "simulates e st s"
  shows "slots_ok (bCore st)" "marks_ok (bCore st)" "epoch (bCore st) \<noteq> 0" "sameBase e (bCore st)"
    "batchView (bCore st) = bkAccounts s" "agentOf (bCore st) = bkAgents s"
    "s = fold (bankApply (horizonOf e)) (bRecords st) (bankOf e)" "admitted (horizonOf e) (bankOf e) (bRecords st)"
    "bkSequence s = cSequence e + of_nat (length (bRecords st))"
    "bkRetained s = lastn (horizonOf e) (retainedBy e @ newly (bRecords st))"
    "length (accounts (bCore st)) \<le> length (accounts e) + length (bRecords st)"
    "length (bRecords st) \<le> length (bResults st)"
    "map_of (newly (bRecords st)) i = map_option ((!) (bResults st)) (fmlookup (bIDs st) i)"
    "fmlookup (bIDs st) i = Some k \<Longrightarrow> k < length (bResults st)"
  using assms unfolding simulates_def by blast+

lemma decideCommand_simulates:
  assumes "simulates e st s" "ValidateCommand c = None"
    and "length (accounts e) + length (bRecords st) + 1 < 2 ^ 32"
    and "isKind (cKind c) kCreate \<or> fmlookup (ids (bCore st)) (cAccount c) \<noteq> None"
    and "map_of (bkRetained s) (cID c) = None" "fmlookup (bIDs st) (cID c) = None"
  shows "simulates e (decideCommand c st) (bankApply (horizonOf e) (bankRecord c s) s)"
    "bResults (decideCommand c st) = bResults st @ [resultOf (bankRecord c s)]"
    "length (bRecords (decideCommand c st)) = length (bRecords st) + 1"
    "fmlookup (ids (bCore st)) j \<noteq> None \<or> j = cAccount c \<Longrightarrow> fmlookup (ids (bCore (decideCommand c st))) j \<noteq> None"
    "fmlookup (bIDs (decideCommand c st)) i = (if i = cID c then Some (length (bResults st)) else fmlookup (bIDs st) i)"
proof -
  let ?r = "bankRecord c s" and ?h = "horizonOf e"
  note S = simulatesD [OF assms(1)]
  have cap: "length (accounts (bCore st)) + 1 < 2 ^ 32" using S(11) assms(3) by linarith
  have seq: "bkSequence s = cSequence (bCore st) + of_nat (length (bRecords st))" using S(4,9) by (simp add: sameBase_def)
  obtain e' where e': "decideCommand c st = st\<lparr>bCore := e', bRecords := bRecords st @ [?r],
        bResults := bResults st @ [resultOf ?r], bIDs := fmupd (cID c) (length (bResults st)) (bIDs st)\<rparr>"
      "slots_ok e'" "marks_ok e'" "epoch e' = epoch (bCore st)" "sameBase (bCore st) e'" "batchView e' = moved ?r s"
      "agentOf e' = (bkAgents s)(cAccount c := \<lparr>Pending = pendingOf ?r, Turns = wTurns ?r\<rparr>)"
      "length (accounts e') \<le> length (accounts (bCore st)) + 1"
      "\<forall>j. fmlookup (ids (bCore st)) j \<noteq> None \<or> j = cAccount c \<longrightarrow> fmlookup (ids e') j \<noteq> None"
    using decideCommand_core [OF S(1-3,5,6) cap assms(2,4) refl seq] by auto
  show "bResults (decideCommand c st) = bResults st @ [resultOf ?r]"
    "length (bRecords (decideCommand c st)) = length (bRecords st) + 1"
    "fmlookup (bIDs (decideCommand c st)) i = (if i = cID c then Some (length (bResults st)) else fmlookup (bIDs st) i)"
    by (simp_all add: e'(1))
  show "fmlookup (ids (bCore st)) j \<noteq> None \<or> j = cAccount c \<Longrightarrow> fmlookup (ids (bCore (decideCommand c st))) j \<noteq> None"
    using e'(9) [rule_format, of j] by (simp add: e'(1))
  have w: "wSequence ?r = bkSequence s + 1" "wCommandID ?r = cID c" "wA ?r = cAccount c" "wB ?r = cOther c"
    "wExpectedA ?r = aVersion (existing s (cAccount c))"
    "wExpectedB ?r = (if cOther c = 0 then 0 else aVersion (existing s (cOther c)))"
    by (simp_all add: bankRecord_def otherAccount_def existing_def zeroAccount_def)
  have ad: "admitted ?h (bankOf e) (bRecords st @ [?r])"
    using S(8) bankRecord_applicable [OF assms(2), of s] assms(5) w by (simp add: admitted_append S(7) [symmetric])
  have ids: "map_of (newly (bRecords st @ [?r])) i
      = map_option ((!) (bResults st @ [resultOf ?r])) (fmlookup (fmupd (cID c) (length (bResults st)) (bIDs st)) i)" for i
  proof -
    show ?thesis
      using S(13,14) [of i] assms(6) w(2) by (cases "fmlookup (bIDs st) i") (auto simp: newly_def map_add_def nth_append)
  qed
  show "simulates e (decideCommand c st) (bankApply ?h ?r s)"
    unfolding simulates_def
  proof (intro conjI allI impI)
    show "bankApply ?h ?r s = fold (bankApply ?h) (bRecords (decideCommand c st)) (bankOf e)"
      by (simp add: e'(1) S(7) [symmetric])
    show "k < length (bResults (decideCommand c st))" if "fmlookup (bIDs (decideCommand c st)) i = Some k" for i k
      using that S(14) [of i k] by (simp add: e'(1) split: if_splits)
    show "map_of (newly (bRecords (decideCommand c st))) i
        = map_option ((!) (bResults (decideCommand c st))) (fmlookup (bIDs (decideCommand c st)) i)" for i
      using ids [of i] by (simp add: e'(1))
    show "bkRetained (bankApply ?h ?r s) = lastn ?h (retainedBy e @ newly (bRecords (decideCommand c st)))"
      by (simp add: e'(1) S(10) newly_def lastn_lastn_append w)
  qed (use S e' ad w in \<open>simp_all add: sameBase_def bankApply_def\<close>)
qed

lemma batch_simulates:
  assumes "dedupe_ok e" "simulates e st s" "list_all (\<lambda>c. ValidateCommand c = None) cs"
    and "addressed seen known cs"
    and "\<And>i. i \<in> set seen \<longleftrightarrow> fmlookup (results e) i \<noteq> None \<or> fmlookup (bIDs st) i \<noteq> None"
    and "\<And>a. a \<in> set known \<Longrightarrow> fmlookup (ids (bCore st)) a \<noteq> None"
    and "remembered (horizonOf e) (retainedBy e) all" "set cs \<subseteq> set all" "length (bRecords st) + length cs \<le> length all"
    and "length (accounts e) + length all < 2 ^ 32"
  shows "simulates e (fold batchStep cs st) (snd (bankRun (horizonOf e) cs s))
    \<and> bResults (fold batchStep cs st) = bResults st @ fst (bankRun (horizonOf e) cs s)
    \<and> length (bRecords (fold batchStep cs st)) \<le> length (bRecords st) + length cs"
  using assms(2-6,8,9)
proof (induction cs arbitrary: st s seen known)
  case (Cons c cs)
  let ?h = "horizonOf e"
  note S = simulatesD [OF Cons.prems(1)]
  have "length (newly (bRecords st)) \<le> length all" using Cons.prems(7) by (simp add: newly_def)
  then have look: "map_of (bkRetained s) (cID c) =
      (case fmlookup (results e) (cID c) of Some r \<Rightarrow> Some r | None \<Rightarrow> map_option ((!) (bResults st)) (fmlookup (bIDs st) (cID c)))"
    using retained_recent_window [OF assms(1,7), of c "newly (bRecords st)"] Cons.prems(6) S(10) S(13) [of "cID c"]
    by (simp split: option.split)
  have rs: "results (bCore st) = results e" using S(4) by (simp add: sameBase_def)
  show ?case
  proof (cases "map_of (bkRetained s) (cID c)")
    case (Some prior)
    let ?st = "st\<lparr>bResults := bResults st @ [prior\<lparr>resDuplicate := True\<rparr>]\<rparr>"
    have step: "batchStep c st = ?st" using Some look by (auto simp: batchStep_def rs split: option.splits)
    have "map_of (newly (bRecords st)) i = map_option ((!) (bResults ?st)) (fmlookup (bIDs st) i)" for i
      using S(13,14) [of i] by (cases "fmlookup (bIDs st) i") (auto simp: nth_append)
    then have sim: "simulates e ?st s"
      using Cons.prems(1) unfolding simulates_def by (auto intro: less_SucI)
    have "cID c \<in> set seen" using Some look Cons.prems(4) by (auto split: option.splits)
    then have ad: "addressed seen known cs" using Cons.prems(3) by simp
    show ?thesis
      using Cons.IH [OF sim _ ad, of] Cons.prems(2,4-7) Some
      by (cases "bankRun ?h cs s") (simp add: step bankSubmit_def)
  next
    case None
    let ?st = "decideCommand c st" and ?s = "bankApply ?h (bankRecord c s) s"
    have n: "fmlookup (results e) (cID c) = None" "fmlookup (bIDs st) (cID c) = None"
      using None look by (auto split: option.splits)
    then have ns: "cID c \<notin> set seen" using Cons.prems(4) by simp
    have step: "batchStep c st = ?st" using n by (simp add: batchStep_def rs)
    have v: "ValidateCommand c = None" "list_all (\<lambda>c. ValidateCommand c = None) cs" using Cons.prems(2) by simp_all
    have a: "isKind (cKind c) kCreate \<or> fmlookup (ids (bCore st)) (cAccount c) \<noteq> None"
      using Cons.prems(3,5) ns by (auto split: if_splits)
    have cap: "length (accounts e) + length (bRecords st) + 1 < 2 ^ 32" using Cons.prems(7) assms(10) by simp
    note D = decideCommand_simulates [OF Cons.prems(1) v(1) cap a None n(2)]
    let ?known = "if isKind (cKind c) kCreate then cAccount c # known else known"
    have ad: "addressed (cID c # seen) ?known cs" using Cons.prems(3) ns by (simp split: if_splits)
    have sn: "i \<in> set (cID c # seen) \<longleftrightarrow> fmlookup (results e) i \<noteq> None \<or> fmlookup (bIDs ?st) i \<noteq> None" for i
      using Cons.prems(4) [of i] D(5) [of i] by auto
    have kn: "fmlookup (ids (bCore ?st)) j \<noteq> None" if "j \<in> set ?known" for j
      using that Cons.prems(5) [of j] D(4) [of j] by (auto split: if_splits)
    have "length (bRecords ?st) + length cs \<le> length all" using Cons.prems(7) D(3) by simp
    then show ?thesis
      using Cons.IH [OF D(1) v(2) ad sn kn] Cons.prems(6) D(2,3) None
      by (cases "bankRun ?h cs ?s") (simp add: step bankSubmit_def Let_def)
  qed
qed simp


section \<open>Batches refine the bank\<close>

definition engine_ok :: "Core \<Rightarrow> bool" where
  "engine_ok e \<longleftrightarrow> slots_ok e \<and> dedupe_ok e \<and> marks_ok e"

lemma applyDurable_marks: "marks_ok e \<Longrightarrow> marks_ok (applyDurable r e)"
proof -
  obtain s ok e1 where 1: "slot (wA r) True e = ((s, ok), e1)" by (metis surj_pair)
  assume "marks_ok e"
  then have "marks_ok e1" using slot_marks [OF 1] by simp
  moreover have "marks (applyEffect s t r e1) = marks e1" "epoch (applyEffect s t r e1) = epoch e1" for t
    by (simp_all add: applyEffect_def setAccount_def Let_def)
  ultimately show "marks_ok (applyDurable r e)" by (simp add: applyDurable_unfold [OF 1 refl refl] marks_ok_def)
qed

lemma fold_applyDurable_marks: "marks_ok e \<Longrightarrow> marks_ok (fold applyDurable rs e)"
  by (induction rs arbitrary: e) (simp_all add: applyDurable_marks)

lemma start_simulates:
  assumes "engine_ok e"
  shows "simulates e \<lparr>bCore = nextEpoch e, bRecords = [], bResults = [], bIDs = fmempty\<rparr> (bankOf e)"
proof -
  note n = nextEpoch_fresh [of e]
  have "length (retainedBy e) \<le> horizonOf e" using assms retained_static(2) by (simp add: engine_ok_def)
  then show ?thesis
    using assms n visible_cong [of "nextEpoch e" e] agentOf_cong [of "nextEpoch e" e]
    by (simp add: simulates_def engine_ok_def sameBase_def newly_def lastn_all)
qed

lemma engine_cWal [simp]:
  "slots_ok (e\<lparr>cWal := x\<rparr>) = slots_ok e" "dedupe_ok (e\<lparr>cWal := x\<rparr>) = dedupe_ok e" "marks_ok (e\<lparr>cWal := x\<rparr>) = marks_ok e"
  "bankOf (e\<lparr>cWal := x\<rparr>) = bankOf e" "horizonOf (e\<lparr>cWal := x\<rparr>) = horizonOf e"
  using slots_ok_cong [of "e\<lparr>cWal := x\<rparr>" e] dedupe_cong [of "e\<lparr>cWal := x\<rparr>" e]
  by (simp_all add: marks_ok_def bankOf_def)

lemma applyDurable_frame [simp]:
  "cWal (applyDurable r e) = cWal e" "cfg (applyDurable r e) = cfg e" "cClosed (applyDurable r e) = cClosed e"
  "cPoisoned (applyDurable r e) = cPoisoned e"
proof -
  obtain s ok e1 where 1: "slot (wA r) True e = ((s, ok), e1)" by (metis surj_pair)
  have f: "cWal (applyEffect s t r e1) = cWal e1" "cClosed (applyEffect s t r e1) = cClosed e1"
    "cPoisoned (applyEffect s t r e1) = cPoisoned e1" for t
    by (simp_all add: applyEffect_def setAccount_def Let_def)
  show "cWal (applyDurable r e) = cWal e" "cfg (applyDurable r e) = cfg e" "cClosed (applyDurable r e) = cClosed e"
    "cPoisoned (applyDurable r e) = cPoisoned e"
    using slot_frame [OF 1] f by (simp_all add: applyDurable_unfold [OF 1 refl refl])
qed

lemma fold_applyDurable_frame [simp]:
  "cWal (fold applyDurable rs e) = cWal e" "cfg (fold applyDurable rs e) = cfg e"
  "cClosed (fold applyDurable rs e) = cClosed e" "cPoisoned (fold applyDurable rs e) = cPoisoned e"
  by (induction rs arbitrary: e) simp_all

text \<open>The batch of a valid list of commands, decided and applied.\<close>

theorem runBatch_refines:
  assumes "engine_ok e" "list_all (\<lambda>c. ValidateCommand c = None) cs" "addressed (active e) (map aID (accounts e)) cs"
    and "remembered (horizonOf e) (retainedBy e) cs" "length (accounts e) + 2 * length cs < 2 ^ 32"
  shows "sameBase e (bCore (runBatch cs e))" "admitted (horizonOf e) (bankOf e) (bRecords (runBatch cs e))"
    "bankRun (horizonOf e) cs (bankOf e)
      = (bResults (runBatch cs e), fold (bankApply (horizonOf e)) (bRecords (runBatch cs e)) (bankOf e))"
    "length (bRecords (runBatch cs e)) \<le> length cs"
    "engine_ok (fold applyDurable (bRecords (runBatch cs e)) ((bCore (runBatch cs e))\<lparr>cWal := x\<rparr>))"
    "bankOf (fold applyDurable (bRecords (runBatch cs e)) ((bCore (runBatch cs e))\<lparr>cWal := x\<rparr>))
      = fold (bankApply (horizonOf e)) (bRecords (runBatch cs e)) (bankOf e)"
    "horizonOf (fold applyDurable (bRecords (runBatch cs e)) ((bCore (runBatch cs e))\<lparr>cWal := x\<rparr>)) = horizonOf e"
proof -
  let ?h = "horizonOf e" and ?st = "runBatch cs e" and ?s = "snd (bankRun (horizonOf e) cs (bankOf e))"
  let ?rs = "bRecords ?st" and ?e = "bCore ?st"
  let ?x = "?e\<lparr>cWal := x\<rparr>"
  have ok: "slots_ok e" "dedupe_ok e" using assms(1) by (simp_all add: engine_ok_def)
  have kn: "fmlookup (ids e) a \<noteq> None" if "a \<in> set (map aID (accounts e))" for a
  proof -
    from that obtain n where n: "n < length (accounts e)" "aID (accounts e ! n) = a" by (auto simp: in_set_conv_nth)
    then have "unat (of_nat n :: u32) = n" using slots_lengths [OF ok(1)] by (simp add: unat_of_nat)
    then show ?thesis using slots_ids [OF ok(1), of a "of_nat n"] n by auto
  qed
  have B: "simulates e ?st ?s \<and> bResults ?st = fst (bankRun ?h cs (bankOf e)) \<and> length ?rs \<le> length cs"
    using batch_simulates [OF ok(2) start_simulates [OF assms(1)] assms(2,3) _ _ assms(4)] kn retained_iff [OF ok(2)] assms(5)
    by (simp add: runBatch_def)
  note S = simulatesD [OF conjunct1 [OF B]]
  show "sameBase e ?e" "admitted ?h (bankOf e) ?rs" by (fact S(4), fact S(8))
  show "bankRun ?h cs (bankOf e) = (bResults ?st, fold (bankApply ?h) ?rs (bankOf e))"
    using B S(7) by (simp add: prod_eq_iff)
  show "length ?rs \<le> length cs" using B by simp
  have d: "dedupe_ok ?e" "retainedBy ?e = retainedBy e" "horizonOf ?e = ?h"
    using dedupe_cong [of ?e e] S(4) ok(2) by (simp_all add: sameBase_def)
  have b: "bankOf ?e = (bankOf e)\<lparr>bkAgents := agentOf ?e\<rparr>"
    using S(4) d(2) by (simp add: bankOf_def sameBase_def)
  have "agentOf ?e i = bkAgents (bankOf e) i" if "i \<notin> wA ` set ?rs" for i
    using fold_agents_other [OF that, of ?h "bankOf e"] S(6,7) by simp
  then have f: "fold (bankApply ?h) ?rs (bankOf ?e) = fold (bankApply ?h) ?rs (bankOf e)" unfolding b by (rule fold_agents)
  have "admitted (horizonOf ?e) (bankOf ?e) ?rs" using S(8) by (simp add: b d(3) admitted_agents)
  moreover have "length (accounts ?e) + length ?rs < 2 ^ 32" using S(11) B assms(5) by linarith
  ultimately have R: "slots_ok (fold applyDurable ?rs ?x) \<and> dedupe_ok (fold applyDurable ?rs ?x)
      \<and> bankOf (fold applyDurable ?rs ?x) = fold (bankApply ?h) ?rs (bankOf e) \<and> horizonOf (fold applyDurable ?rs ?x) = ?h"
    using fold_applyDurable_refines [of ?x ?rs] S(1) d(1) f d(3) by simp
  then show "engine_ok (fold applyDurable ?rs ?x)" using fold_applyDurable_marks [of ?x ?rs] S(2) by (simp add: engine_ok_def)
  show "bankOf (fold applyDurable ?rs ?x) = fold (bankApply ?h) ?rs (bankOf e)" "horizonOf (fold applyDurable ?rs ?x) = ?h"
    using R by simp_all
qed

lemma validateBatch_None: "validateBatch cs = None \<longleftrightarrow> list_all (\<lambda>c. ValidateCommand c = None) cs"
proof (cases "filter (\<lambda>e. e \<noteq> None) (map ValidateCommand cs)")
  case Nil
  then show ?thesis by (auto simp: validateBatch_def filter_empty_conv list_all_iff)
next
  case (Cons x xs)
  then have "x \<in> set (filter (\<lambda>e. e \<noteq> None) (map ValidateCommand cs))" by (simp only: list.set_intros)
  then have "x \<noteq> None" "x \<in> ValidateCommand ` set cs" by auto
  moreover have "validateBatch cs = x" unfolding validateBatch_def Cons by simp
  ultimately show ?thesis by (auto simp: list_all_iff)
qed

text \<open>An acknowledged batch is the serial run of its commands.\<close>

theorem SubmitBatch_refines:
  assumes "engine_ok e" "SubmitBatch cs e w = (Inr rs, e', w')" "addressed (active e) (map aID (accounts e)) cs"
    and "remembered (horizonOf e) (retainedBy e) cs" "length (accounts e) + 2 * length cs < 2 ^ 32"
  shows "engine_ok e' \<and> horizonOf e' = horizonOf e \<and> bankRun (horizonOf e) cs (bankOf e) = (rs, bankOf e')"
proof (cases "cs = []")
  case True
  then show ?thesis using assms(1,2) by (auto simp: SubmitBatch_def split: if_splits)
next
  case False
  let ?st = "runBatch cs e"
  have v: "list_all (\<lambda>c. ValidateCommand c = None) cs"
    using assms(2) False by (simp add: SubmitBatch_def validateBatch_None [symmetric] split: if_splits option.splits)
  note R = runBatch_refines [OF assms(1) v assms(3-5)]
  have "rs = bResults ?st \<and> (\<exists>x. e' = fold applyDurable (bRecords ?st) ((bCore ?st)\<lparr>cWal := x\<rparr>))"
  proof (cases "bRecords ?st = []")
    case True
    then have "rs = bResults ?st" "e' = bCore ?st"
      using assms(2) False by (simp_all add: SubmitBatch_def Let_def split: if_splits option.splits)
    then show ?thesis using True by (auto intro: exI [of _ "cWal (bCore ?st)"])
  qed (use assms(2) False in \<open>auto simp: SubmitBatch_def Let_def split: if_splits option.splits prod.splits\<close>)
  then show ?thesis using R(3,5-7) by auto
qed

end
