(* ===== verification/Core_Codec_Laws.thy ===== *)
theory Core_Codec_Laws
  imports Core_Codec
begin

text \<open>
  The binary codecs of the account engine are inverse to each other: log records, the payload of a
  batch, and snapshots; and the recovery loop over the log is an instance of \<open>log_replayer\<close>.
\<close>

unbundle bit_operations_syntax

section \<open>Readers on what the writers produce\<close>

named_theorems reader_simps \<open>running the readers\<close>

lemma rbind_run [reader_simps]: "p src = Inr (x, rest) \<Longrightarrow> rbind p f src = f x rest"
  by (simp add: rbind_def)

lemma takes [reader_simps]:
  "takeU32 (le32 v @ rest) = Inr (v, rest)"
  "takeU64 (le64 u @ rest) = Inr (u, rest)"
  "takeI64 (le64 u @ rest) = Inr (u, rest)"
  "takeByte (b # rest) = Inr (b, rest)"
  by (simp_all add: takeU32_def takeU64_def takeI64_def takeByte_def)

lemma takeBytes_run [reader_simps]: "n = length xs \<Longrightarrow> takeBytes n (xs @ rest) = Inr (xs, rest)"
  by (simp add: takeBytes_def)

lemma remaining_run [reader_simps]: "remaining f src = f (length src) src"
  by (simp add: remaining_def)

lemma rreturn_run [reader_simps]: "rreturn x src = Inr (x, src)"
  by (simp add: rreturn_def)

lemma flag_bits [reader_simps]: "flagByte p q AND 1 \<noteq> 0 \<longleftrightarrow> p" "flagByte p q AND 2 \<noteq> 0 \<longleftrightarrow> q"
  by (cases p; cases q; simp add: flagByte_def)+

lemmas append_defs = appendU32_def appendU64_def appendI64_def

lemma unat_len32: "n < 2 ^ 32 \<Longrightarrow> unat (of_nat n :: u32) = n"
  by (simp add: unat_of_nat)

lemma len32_zero: "n < 2 ^ 32 \<Longrightarrow> (of_nat n :: u32) = 0 \<longleftrightarrow> n = 0"
  using unat_len32 [of n] unat_eq_zero [of "of_nat n :: u32"] by simp

section \<open>Log records\<close>

definition recordBytes :: "walRecord \<Rightarrow> bytes" where
  "recordBytes r = appendWALRecord [] r"

lemma appendWALRecord_bytes: "appendWALRecord dst r = dst @ recordBytes r"
  by (simp add: recordBytes_def appendWALRecord_def append_defs)

definition encodable :: "walRecord \<Rightarrow> bool" where
  "encodable r \<longleftrightarrow> wCommandID r \<noteq> [] \<and> length (wCommandID r) < 2 ^ 32"

lemma length_recordBytes [simp]: "length (recordBytes r) = 125 + length (wCommandID r)"
  by (simp add: recordBytes_def appendWALRecord_def append_defs)

lemma parse_recordBytes:
  assumes "encodable r"
  shows "parseWALRecord (recordBytes r @ rest) = Inr (r, rest)"
  using assms
  by (simp add: parseWALRecord_def reader_simps recordBytes_def appendWALRecord_def append_defs fixed_def
      encodable_def unat_len32 len32_zero)

section \<open>Batches\<close>

lemma batchPayload_bytes: "batchPayload recs = le32 (of_nat (length recs)) @ concat (map recordBytes recs)"
proof -
  have "fold (\<lambda>r d. appendWALRecord d r) recs b = b @ concat (map recordBytes recs)" for b
    by (induction recs arbitrary: b) (simp_all add: appendWALRecord_bytes)
  then show ?thesis by (simp add: batchPayload_def appendU32_def)
qed

lemma scanRecords_bytes:
  "list_all encodable recs \<Longrightarrow>
   scanRecords (length recs) after acc (concat (map recordBytes recs) @ rest)
     = Inr (acc @ filter (\<lambda>r. after < wSequence r) recs, rest)"
  by (induction recs arbitrary: acc) (simp_all add: parse_recordBytes)

definition batch_ok :: "walRecord list \<Rightarrow> bool" where
  "batch_ok recs \<longleftrightarrow> list_all encodable recs \<and> length recs < 2 ^ 32 \<and> length (batchPayload recs) \<le> maxFrameBytes"

lemma scanPayload_batch:
  assumes "batch_ok recs"
  shows "scanPayload after acc (batchPayload recs) = Inr (acc @ filter (\<lambda>r. after < wSequence r) recs)"
  using assms scanRecords_bytes [of recs after acc "[]"]
  by (simp add: scanPayload_def batchPayload_bytes batch_ok_def unat_len32)

interpretation core_log: log_replayer 4 "scanPayload after" "\<lambda>_. OtherError ''invalid core WAL frame length''"
  "\<lambda>_. OtherError ''core WAL checksum failure''" "scanFrames after" for after
  by unfold_locales (subst scanFrames.simps, simp split: frame_read.split sum.split)

section \<open>The log\<close>

definition coreLog :: "walRecord list list \<Rightarrow> bytes" where
  "coreLog batches = walHeader @ concat (map (\<lambda>recs. frame (batchPayload recs)) batches)"

lemma length_walHeader [simp]: "length walHeader = 24"
  by (simp add: walHeader_def walFileMagic_def Let_def)

lemma header_accepted:
  "scanWAL after (walHeader @ rest) = scanFrames after [] walHeaderSize rest"
  by (simp add: scanWAL_def walHeader_def Let_def walHeaderSize_def walFileMagic_def)

lemma batch_admissible: "batch_ok recs \<Longrightarrow> core_log.admissible (batchPayload recs)"
  by (simp add: core_log.admissible_def batch_ok_def batchPayload_bytes)

lemma scan_batches:
  assumes "list_all batch_ok batches"
  shows "fold_res (scanPayload after) acc (map batchPayload batches)
    = Inr (acc @ filter (\<lambda>r. after < wSequence r) (concat batches))"
  using assms by (induction batches arbitrary: acc) (simp_all add: scanPayload_batch)

text \<open>A log of whole batches followed by part of another one scans to the records of the whole batches.\<close>

lemma scan_coreLog:
  assumes "list_all batch_ok batches" "batch_ok next" "strict_prefix t (frame (batchPayload next))"
  shows "scanWAL after (coreLog batches @ t)
    = Inr (filter (\<lambda>r. after < wSequence r) (concat batches), length (coreLog batches))"
proof -
  have a: "list_all core_log.admissible (map batchPayload batches)"
    using assms(1) by (auto simp: list_all_iff batch_admissible)
  show ?thesis
    using core_log.replay_log [OF a batch_admissible [OF assms(2)] assms(3) scan_batches [OF assms(1), of after "[]"],
        of walHeaderSize]
    by (simp add: coreLog_def header_accepted walHeaderSize_def comp_def)
qed

end
