(* ===== verification/Core_Snapshot_Laws.thy ===== *)
theory Core_Snapshot_Laws
  imports Core_Batch Core_Codec_Laws Core_Engine
begin

text \<open>
  Loading the snapshot of an engine restores what the engine represents.
\<close>

unbundle bit_operations_syntax

section \<open>What a snapshot can hold\<close>

fun ascending :: "u64 \<Rightarrow> u64 list \<Rightarrow> bool" where
  "ascending p [] = True"
| "ascending p (x # xs) \<longleftrightarrow> p < x \<and> ascending x xs"

definition idFits :: "bytes \<Rightarrow> bool" where
  "idFits i \<longleftrightarrow> i \<noteq> [] \<and> length i < 2 ^ 32"

definition ledger_ok :: "Core \<Rightarrow> bool" where
  "ledger_ok e \<longleftrightarrow>
     ascending 0 (map lSequence (ledger e)) \<and> list_all (\<lambda>l. lSequence l \<le> cSequence e \<and> idFits (lCommandID l)) (ledger e)"

definition results_ok :: "Core \<Rightarrow> bool" where
  "results_ok e \<longleftrightarrow>
     ascending 0 (map (\<lambda>x. resSequence (snd x)) (retainedBy e))
     \<and> list_all (\<lambda>x. resSequence (snd x) \<le> cSequence e \<and> idFits (fst x) \<and> resCommandID (snd x) = fst x
                     \<and> \<not> resDuplicate (snd x)) (retainedBy e)"

section \<open>Bytes\<close>

definition accountBytes :: "Account \<times> bool \<times> agentState \<Rightarrow> bytes" where
  "accountBytes x = appendAccount [] x"

definition ledgerBytes :: "LedgerEntry \<Rightarrow> bytes" where
  "ledgerBytes x = appendLedgerEntry [] x"

definition resultBytes :: "bytes \<times> Result \<Rightarrow> bytes" where
  "resultBytes x = appendResult [] x"

lemma append_bytes:
  "appendAccount b x = b @ accountBytes x" "appendLedgerEntry b l = b @ ledgerBytes l" "appendResult b y = b @ resultBytes y"
  by (simp_all add: accountBytes_def appendAccount_def ledgerBytes_def appendLedgerEntry_def resultBytes_def
      appendResult_def append_defs split: prod.split)

lemma fold_append_bytes: "(\<And>b x. f b x = b @ g x) \<Longrightarrow> fold (\<lambda>x b. f b x) xs b = b @ concat (map g xs)"
  by (induction xs arbitrary: b) simp_all

abbreviation slotRows :: "Core \<Rightarrow> (Account \<times> bool \<times> agentState) list" where
  "slotRows e \<equiv> zip (accounts e) (zip (present e) (agents e))"

lemma snapshotBody_bytes:
  "snapshotBody e =
     le64 (cSequence e) @ le32 (of_nat (length (accounts e))) @ concat (map accountBytes (slotRows e))
     @ le64 (of_nat (length (ledger e))) @ concat (map ledgerBytes (ledger e))
     @ le32 (of_int (DedupeWindow (cfg e))) @ le32 (of_nat (length (retainedBy e))) @ concat (map resultBytes (retainedBy e))"
proof -
  have "fold (\<lambda>i b. appendResult b (i, resultFor i e)) (active e) b = b @ concat (map resultBytes (retainedBy e))" for b
    using fold_append_bytes [of "\<lambda>b i. appendResult b (i, resultFor i e)" "\<lambda>i. resultBytes (i, resultFor i e)"]
    by (simp add: append_bytes retainedBy_def comp_def)
  then show ?thesis
    by (simp add: snapshotBody_def Let_def fold_append_bytes [OF append_bytes(1)] fold_append_bytes [OF append_bytes(2)]
        appendU32_def appendU64_def retainedBy_def)
qed

lemma collapse [reader_simps]:
  "\<lparr>aID = aID a, aBalance = aBalance a, aStatus = aStatus a, aVersion = aVersion a\<rparr> = a"
  "\<lparr>Pending = \<lparr>pActive = pActive (Pending g), pTarget = pTarget (Pending g), pAmount = pAmount (Pending g)\<rparr>, Turns = Turns g\<rparr> = g"
  "\<lparr>lSequence = lSequence l, lCommandID = lCommandID l, lFrom = lFrom l, lTo = lTo l, lAmount = lAmount l, lEffectTag = lEffectTag l\<rparr> = l"
  by ((cases a; simp), (cases g; cases "Pending g"; simp), (cases l; simp))

section \<open>Loading accounts\<close>

definition installRow :: "Account \<times> bool \<times> agentState \<Rightarrow> Core \<Rightarrow> Core" where
  "installRow x = installAccount (fst x) (fst (snd x)) (snd (snd x))"

lemma length_accountBytes [simp]: "length (accountBytes x) = 57"
  by (simp add: accountBytes_def appendAccount_def append_defs split: prod.split)

lemma loadAccounts_run:
  "loadAccounts (length xs) e (concat (map accountBytes xs) @ rest) = Inr (fold installRow xs e, rest)"
proof (induction xs arbitrary: e)
  case (Cons x xs)
  obtain a p g where x: "x = (a, p, g)" by (cases x)
  have "loadAccounts (length (x # xs)) e (accountBytes x @ tail) = loadAccounts (length xs) (installRow x e) tail" for tail
    by (simp add: x accountBytes_def appendAccount_def append_defs reader_simps installRow_def)
  then show ?case using Cons.IH by (simp del: loadAccounts.simps)
qed (simp add: reader_simps)

lemma install_new:
  assumes "slots_ok e" "fmlookup (ids e) (aID a) = None" "length (accounts e) + 1 < 2 ^ 32"
    and "\<not> p \<Longrightarrow> a = zeroAccount\<lparr>aID := aID a\<rparr>"
  shows "slots_ok (installAccount a p g e)"
    "accounts (installAccount a p g e) = accounts e @ [a]" "present (installAccount a p g e) = present e @ [p]"
    "agents (installAccount a p g e) = agents e @ [g]" "ids (installAccount a p g e) = fmupd (aID a) (of_nat (length (accounts e))) (ids e)"
    "marks (installAccount a p g e) = marks e @ [0]"
    "installAccount a p g e = e\<lparr>ids := ids (installAccount a p g e), accounts := accounts (installAccount a p g e),
       present := present (installAccount a p g e), agents := agents (installAccount a p g e),
       scratch := scratch (installAccount a p g e), marks := marks (installAccount a p g e)\<rparr>"
proof -
  let ?n = "of_nat (length (accounts e)) :: u32"
  note l = slots_lengths [OF assms(1)]
  have n: "unat ?n = length (accounts e)" using l by (simp add: unat_of_nat)
  obtain e1 where 1: "slot (aID a) True e = ((?n, True), e1)"
    "e1 = e\<lparr>ids := fmupd (aID a) ?n (ids e), accounts := accounts e @ [zeroAccount\<lparr>aID := aID a\<rparr>],
               present := present e @ [False], agents := agents e @ [zeroAgent],
               scratch := scratch e @ [zeroAccount], marks := marks e @ [0]\<rparr>"
    using assms(2) by (simp add: slot_def Let_def)
  let ?f = "e\<lparr>ids := fmupd (aID a) ?n (ids e), accounts := accounts e @ [a], present := present e @ [p],
              agents := agents e @ [g], scratch := scratch e @ [zeroAccount], marks := marks e @ [0]\<rparr>"
  have f: "installAccount a p g e = ?f"
    using l n by (simp add: installAccount_def 1 list_update_append)
  have "slots_ok ?f"
  proof (rule slots_okI [OF slot_create(1) [OF assms(1,3) 1(1)]])
    fix m assume m: "m < length (accounts e1)"
    then show "aID (accounts ?f ! m) = aID (accounts e1 ! m)" by (simp add: 1(2) nth_append)
    assume p: "\<not> present ?f ! m"
    show "accounts ?f ! m = zeroAccount\<lparr>aID := aID (accounts ?f ! m)\<rparr>"
    proof (cases "m < length (accounts e)")
      case True
      then show ?thesis using slots_phantom [OF assms(1) True] p l by (simp add: nth_append)
    next
      case False
      then have "m = length (accounts e)" using m by (simp add: 1(2))
      then show ?thesis using assms(4) p l by (simp add: nth_append)
    qed
  qed (use l in \<open>simp_all add: 1(2)\<close>)
  then show "slots_ok (installAccount a p g e)" by (simp only: f)
  show "accounts (installAccount a p g e) = accounts e @ [a]" "present (installAccount a p g e) = present e @ [p]"
    "agents (installAccount a p g e) = agents e @ [g]" "ids (installAccount a p g e) = fmupd (aID a) ?n (ids e)"
    "marks (installAccount a p g e) = marks e @ [0]"
    "installAccount a p g e = e\<lparr>ids := ids (installAccount a p g e), accounts := accounts (installAccount a p g e),
       present := present (installAccount a p g e), agents := agents (installAccount a p g e),
       scratch := scratch (installAccount a p g e), marks := marks (installAccount a p g e)\<rparr>"
    by (simp_all add: f)
qed

text \<open>The rows of a snapshot, installed one by one in an engine that has none of their identities.\<close>

definition sameRest :: "Core \<Rightarrow> Core \<Rightarrow> bool" where
  "sameRest e e' \<longleftrightarrow>
     ledger e' = ledger e \<and> results e' = results e \<and> order e' = order e \<and> orderHead e' = orderHead e \<and> cfg e' = cfg e
     \<and> cSequence e' = cSequence e \<and> epoch e' = epoch e \<and> cWal e' = cWal e \<and> cClosed e' = cClosed e
     \<and> cPoisoned e' = cPoisoned e \<and> recoveryStats e' = recoveryStats e"

lemma install_rest: "sameRest e (installAccount a p g e)"
  by (auto simp: sameRest_def installAccount_def slot_def Let_def split: option.split)

lemma install_rows:
  assumes "slots_ok e" "length (accounts e) + length xs < 2 ^ 32" "distinct (map (\<lambda>x. aID (fst x)) xs)"
    and "\<And>x. x \<in> set xs \<Longrightarrow> fmlookup (ids e) (aID (fst x)) = None \<and> (fst (snd x) \<or> fst x = zeroAccount\<lparr>aID := aID (fst x)\<rparr>)"
  shows "slots_ok (fold installRow xs e) \<and> accounts (fold installRow xs e) = accounts e @ map fst xs
    \<and> present (fold installRow xs e) = present e @ map (\<lambda>x. fst (snd x)) xs
    \<and> agents (fold installRow xs e) = agents e @ map (\<lambda>x. snd (snd x)) xs
    \<and> set (marks (fold installRow xs e)) \<subseteq> insert 0 (set (marks e)) \<and> sameRest e (fold installRow xs e)"
  using assms
proof (induction xs arbitrary: e)
  case (Cons x xs)
  have x: "fmlookup (ids e) (aID (fst x)) = None" "length (accounts e) + 1 < 2 ^ 32"
    "\<not> fst (snd x) \<Longrightarrow> fst x = zeroAccount\<lparr>aID := aID (fst x)\<rparr>"
    using Cons.prems(2) Cons.prems(4) [of x] by simp_all
  note n = install_new [OF Cons.prems(1) x(1,2), of "fst (snd x)" "snd (snd x)", OF x(3), folded installRow_def]
  have "fmlookup (ids (installRow x e)) (aID (fst y)) = None \<and> (fst (snd y) \<or> fst y = zeroAccount\<lparr>aID := aID (fst y)\<rparr>)"
    if "y \<in> set xs" for y
    using Cons.prems(3) Cons.prems(4) [of y] that n(5) by (auto simp: image_iff)
  then show ?case
    using Cons.IH [OF n(1)] Cons.prems(2,3) n(2-4,6) install_rest [of e "fst x" "fst (snd x)" "snd (snd x)", folded installRow_def]
    by (auto simp: sameRest_def)
qed (auto simp: sameRest_def)

section \<open>Loading the ledger and the retained results\<close>

lemma length_ledgerBytes [simp]: "length (ledgerBytes l) = 44 + length (lCommandID l)"
  by (simp add: ledgerBytes_def appendLedgerEntry_def append_defs)

lemma loadLedger_run:
  assumes "ascending prior (map lSequence ls)" "list_all (\<lambda>l. lSequence l \<le> cSequence e \<and> idFits (lCommandID l)) ls"
  shows "loadLedger (length ls) prior e (concat (map ledgerBytes ls) @ rest) = Inr (e\<lparr>ledger := ledger e @ ls\<rparr>, rest)"
  using assms
proof (induction ls arbitrary: e prior)
  case (Cons l ls)
  have l: "\<not> lSequence l \<le> prior" "\<not> cSequence e < lSequence l" "lCommandID l \<noteq> []" "length (lCommandID l) < 2 ^ 32"
    using Cons.prems by (auto simp: idFits_def)
  then have "loadLedger (length (l # ls)) prior e (ledgerBytes l @ tail)
      = loadLedger (length ls) (lSequence l) (e\<lparr>ledger := ledger e @ [l]\<rparr>) tail" for tail
    by (simp add: ledgerBytes_def appendLedgerEntry_def append_defs reader_simps unat_len32 len32_zero)
  then show ?case using Cons.IH [of "lSequence l" "e\<lparr>ledger := ledger e @ [l]\<rparr>"] Cons.prems by (simp del: loadLedger.simps)
qed (simp add: reader_simps)

lemma length_resultBytes [simp]: "length (resultBytes x) = 37 + length (fst x)"
  by (simp add: resultBytes_def appendResult_def append_defs split: prod.split)

definition rememberAll :: "(bytes \<times> Result) list \<Rightarrow> Core \<Rightarrow> Core" where
  "rememberAll xs = fold (\<lambda>x. remember (fst x) (snd x)) xs"

lemma loadResults_run:
  assumes "ascending prior (map (\<lambda>x. resSequence (snd x)) xs)" "distinct (map fst xs)" "set seen \<inter> fst ` set xs = {}"
    and "list_all (\<lambda>x. resSequence (snd x) \<le> cSequence e \<and> idFits (fst x) \<and> resCommandID (snd x) = fst x \<and> \<not> resDuplicate (snd x)) xs"
  shows "loadResults (length xs) seen prior e (concat (map resultBytes xs) @ rest) = Inr (rememberAll xs e, rest)"
  using assms
proof (induction xs arbitrary: e prior seen)
  case (Cons x xs)
  obtain i r where x: "x = (i, r)" by (cases x)
  have l: "\<not> resSequence r \<le> prior" "\<not> cSequence e < resSequence r" "i \<noteq> []" "length i < 2 ^ 32" "i \<notin> set seen"
    using Cons.prems by (auto simp: idFits_def x)
  have r: "\<lparr>resSequence = resSequence r, resCommandID = i, resAccepted = ((if resAccepted r then 1 else 0 :: byte) \<noteq> 0), resReasonTag = resReasonTag r,
      resEffectTag = resEffectTag r, resTransitionCount = resTransitionCount r, resDuplicate = False\<rparr> = r"
    using Cons.prems(4) by (cases r) (simp add: x)
  have "loadResults (length (x # xs)) seen prior e (resultBytes x @ tail)
      = loadResults (length xs) (i # seen) (resSequence r) (remember i r e) tail" for tail
    using l r by (simp add: x resultBytes_def appendResult_def append_defs reader_simps unat_len32 len32_zero)
  then show ?case
    using Cons.IH [of "resSequence r" "i # seen" "remember i r e"] Cons.prems
    by (auto simp: x rememberAll_def simp del: loadResults.simps)
qed (simp add: reader_simps rememberAll_def)

section \<open>The round trip\<close>

definition encodableCore :: "Core \<Rightarrow> bool" where
  "encodableCore e \<longleftrightarrow>
     engine_ok e \<and> ledger_ok e \<and> results_ok e \<and> DedupeWindow (cfg e) < 2 ^ 32 \<and> length (snapshotBody e) < 2 ^ 63 - 52"

lemma uint_of_int32: "0 \<le> k \<Longrightarrow> k < 2 ^ 32 \<Longrightarrow> uint (of_int k :: u32) = k"
  by (simp add: unsigned_of_int take_bit_int_eq_self)

lemma unat_of_nat64: "n < 2 ^ 64 \<Longrightarrow> unat (of_nat n :: u64) = n"
  by (simp add: unat_of_nat)

lemma sint_of_nat64: "n < 2 ^ 63 \<Longrightarrow> sint (of_nat n :: u64) = int n"
  by (simp add: signed_of_nat signed_take_bit_int_eq_self)

lemma row_identities:
  assumes "slots_ok e"
  shows "distinct (map (\<lambda>x. aID (fst x)) (slotRows e))"
    "x \<in> set (slotRows e) \<Longrightarrow> fst (snd x) \<or> fst x = zeroAccount\<lparr>aID := aID (fst x)\<rparr>"
    "map fst (slotRows e) = accounts e" "map (\<lambda>x. fst (snd x)) (slotRows e) = present e"
    "map (\<lambda>x. snd (snd x)) (slotRows e) = agents e" "length (slotRows e) = length (accounts e)"
    "distinct (map aID (accounts e))"
proof -
  note l = slots_lengths [OF assms]
  show m: "map fst (slotRows e) = accounts e" using l by simp
  show "map (\<lambda>x. fst (snd x)) (slotRows e) = present e" "map (\<lambda>x. snd (snd x)) (slotRows e) = agents e"
    using l by (simp_all add: list_eq_iff_nth_eq)
  show "length (slotRows e) = length (accounts e)" using l by simp
  have k: "unat (of_nat n :: u32) = n" if "n < length (accounts e)" for n using that l by (simp add: unat_of_nat)
  have s: "fmlookup (ids e) (aID (accounts e ! n)) = Some (of_nat n)" if "n < length (accounts e)" for n
    using slots_ids [OF assms, of "aID (accounts e ! n)" "of_nat n"] k [OF that] that by simp
  have "aID (accounts e ! m) \<noteq> aID (accounts e ! n)" if "m < length (accounts e)" "n < length (accounts e)" "m \<noteq> n" for m n
    using s [OF that(1)] s [OF that(2)] k [OF that(1)] k [OF that(2)] that(3) by force
  then show "distinct (map aID (accounts e))" by (simp add: distinct_conv_nth)
  moreover have "map (\<lambda>x. aID (fst x)) (slotRows e) = map aID (accounts e)" using arg_cong [OF m, of "map aID"] by (simp only: map_map comp_def)
  ultimately show "distinct (map (\<lambda>x. aID (fst x)) (slotRows e))" by (simp only:)
  show "fst (snd x) \<or> fst x = zeroAccount\<lparr>aID := aID (fst x)\<rparr>" if x: "x \<in> set (slotRows e)"
  proof -
    obtain n where "n < length (slotRows e)" "x = slotRows e ! n" using x by (auto simp only: in_set_conv_nth)
    then have n: "n < length (accounts e)" "fst x = accounts e ! n" "fst (snd x) = present e ! n" using l by simp_all
    show ?thesis unfolding n(2,3) by (rule disj_imp [THEN iffD2], rule impI, rule slots_phantom [OF assms n(1)])
  qed
qed

lemma fresh_engine:
  "0 < DedupeWindow c \<Longrightarrow> engine_ok (freshCore c)" "retainedBy (freshCore c) = []"
  "visible (freshCore c) = (\<lambda>_. None)" "agentOf (freshCore c) = (\<lambda>_. zeroAgent)" "horizonOf (freshCore c) = nat (DedupeWindow c)"
  by (auto simp: engine_ok_def slots_ok_def dedupe_ok_def marks_ok_def freshCore_def active_def horizonOf_def retainedBy_def
      visible_def agentOf_def)

text \<open>Engines with the same rows resolve identities alike.\<close>

lemma same_rows:
  assumes "slots_ok e" "slots_ok e'" "accounts e' = accounts e" "present e' = present e" "agents e' = agents e"
  shows "visible e' = visible e" "agentOf e' = agentOf e"
proof -
  have "fmlookup (ids e') i = fmlookup (ids e) i" for i
    using slots_ids [OF assms(1), of i] slots_ids [OF assms(2), of i] assms(3) by (metis not_None_eq option.inject)
  then have i: "ids e' = ids e" by (intro fmap_ext) simp
  show "visible e' = visible e" by (rule visible_cong [OF i assms(3,4)])
  show "agentOf e' = agentOf e" by (rule agentOf_cong [OF i assms(5)])
qed


lemma rememberAll_frame:
  "ids (rememberAll xs e) = ids e" "accounts (rememberAll xs e) = accounts e" "present (rememberAll xs e) = present e"
  "agents (rememberAll xs e) = agents e" "ledger (rememberAll xs e) = ledger e" "scratch (rememberAll xs e) = scratch e"
  "marks (rememberAll xs e) = marks e" "cSequence (rememberAll xs e) = cSequence e" "epoch (rememberAll xs e) = epoch e"
  "cfg (rememberAll xs e) = cfg e" "cClosed (rememberAll xs e) = cClosed e" "cPoisoned (rememberAll xs e) = cPoisoned e"
  by (induction xs arbitrary: e) (simp_all add: rememberAll_def)

lemma rememberAll_window:
  assumes "dedupe_ok e" "retainedBy e = []" "distinct (map fst xs)" "length xs \<le> horizonOf e"
  shows "dedupe_ok (rememberAll xs e) \<and> retainedBy (rememberAll xs e) = xs"
proof -
  have "core_dedupe.admits e' xs" if "dedupe_ok e'" "\<And>x. x \<in> set xs \<Longrightarrow> fmlookup (results e') (fst x) = None" "distinct (map fst xs)"
    for e' xs
    using that
  proof (induction xs arbitrary: e')
    case (Cons x xs)
    have x: "fmlookup (results e') (fst x) = None" "fst x \<notin> set (active e')" using Cons.prems(1,2) retained_iff by auto
    have "fmlookup (results (remember (fst x) (snd x) e')) (fst y) = None" if "y \<in> set xs" for y
      using results_remember [OF Cons.prems(1) x(2)] Cons.prems(2) [of y] Cons.prems(3) that by (auto simp: image_iff)
    then show ?case using Cons.IH [OF remember_law(1) [OF Cons.prems(1) x(1)]] Cons.prems(3) x(1) by simp
  qed simp
  moreover have "fmlookup (results e) i = None" for i
    using retained_lookup [OF assms(1), of i] assms(2) by simp
  ultimately have "core_dedupe.admits e xs" using assms(1,3) by blast
  then show ?thesis using core_dedupe.fold_remember [OF assms(1)] assms(2,4) by (simp add: rememberAll_def lastn_all)
qed

text \<open>The engine that reading a snapshot gives.\<close>

definition loadedCore :: "Core \<Rightarrow> CoreConfig \<Rightarrow> Core" where
  "loadedCore e c =
     rememberAll (retainedBy e)
       ((fold installRow (slotRows e) ((freshCore c)\<lparr>cSequence := cSequence e\<rparr>))\<lparr>ledger := ledger e\<rparr>)"

lemma loadedCore_represents:
  assumes "encodableCore e" "DedupeWindow c = DedupeWindow (cfg e)"
  shows "engine_ok (loadedCore e c)" "bankOf (loadedCore e c) = bankOf e" "accounts (loadedCore e c) = accounts e"
    "cfg (loadedCore e c) = c" "epoch (loadedCore e c) = 0" "cClosed (loadedCore e c) = False" "cPoisoned (loadedCore e c) = None"
proof -
  have ok: "slots_ok e" "dedupe_ok e" using assms(1) by (simp_all add: encodableCore_def engine_ok_def)
  have w: "0 < DedupeWindow c" using ok(2) assms(2) by (simp add: dedupe_ok_def)
  let ?f = "(freshCore c)\<lparr>cSequence := cSequence e\<rparr>"
  let ?g = "fold installRow (slotRows e) ?f"
  have F: "slots_ok ?f" "accounts ?f = []" "present ?f = []" "agents ?f = []" "marks ?f = []" "ids ?f = fmempty"
    using fresh_engine(1) [OF w] slots_ok_cong [of ?f "freshCore c"] by (simp_all add: engine_ok_def freshCore_def)
  note r = row_identities [OF ok(1)]
  have G: "slots_ok ?g" "accounts ?g = accounts e" "present ?g = present e" "agents ?g = agents e"
    "set (marks ?g) \<subseteq> {0}" "sameRest ?f ?g"
    using install_rows [OF F(1), of "slotRows e"] r F(2-6) slots_lengths [OF ok(1)] by simp_all
  let ?l = "?g\<lparr>ledger := ledger e\<rparr>"
  have L: "dedupe_ok ?l" "retainedBy ?l = []" "horizonOf ?l = horizonOf e" "slots_ok ?l"
    using dedupe_cong [of ?l "freshCore c"] fresh_engine(1) [OF w] fresh_engine(2) [of c] G(6) slots_ok_cong [of ?l ?g] G(1) assms(2)
    by (simp_all add: sameRest_def engine_ok_def horizonOf_def freshCore_def)
  note s = retained_static [OF ok(2)]
  have W: "dedupe_ok (loadedCore e c)" "retainedBy (loadedCore e c) = retainedBy e"
    using rememberAll_window [OF L(1,2) s(3)] s(2) L(3) by (simp_all add: loadedCore_def)
  have S: "slots_ok (loadedCore e c)"
    using slots_ok_cong [of "loadedCore e c" ?l] L(4) by (simp add: loadedCore_def rememberAll_frame)
  show A: "accounts (loadedCore e c) = accounts e" by (simp add: loadedCore_def rememberAll_frame G(2))
  show "cfg (loadedCore e c) = c" "epoch (loadedCore e c) = 0" "cClosed (loadedCore e c) = False" "cPoisoned (loadedCore e c) = None"
    using G(6) by (simp_all add: loadedCore_def rememberAll_frame sameRest_def freshCore_def)
  then show "engine_ok (loadedCore e c)"
    using S W(1) G(5) by (auto simp: engine_ok_def marks_ok_def loadedCore_def rememberAll_frame)
  have "present (loadedCore e c) = present e" "agents (loadedCore e c) = agents e"
    by (simp_all add: loadedCore_def rememberAll_frame G)
  note v = same_rows [OF ok(1) S A this]
  show "bankOf (loadedCore e c) = bankOf e"
    using v W(2) G(6) by (simp add: bankOf_def) (simp add: loadedCore_def rememberAll_frame sameRest_def)
qed

lemma ledger_count:
  assumes "list_all (\<lambda>l. idFits (lCommandID l)) ls"
  shows "45 * length ls \<le> length (concat (map ledgerBytes ls))"
  using assms
proof (induction ls)
  case (Cons l ls)
  then have "1 \<le> length (lCommandID l)" "45 * length ls \<le> length (concat (map ledgerBytes ls))" by (auto simp: idFits_def Suc_le_eq)
  then show ?case by simp
qed simp

lemma decode_header:
  assumes "length (snapshotBody e) < 2 ^ 63 - 52"
  shows "decodeSnapshot (encodeSnapshot e) e0 =
    (case loadBody (length (encodeSnapshot e)) e0 (snapshotBody e) of Inl err \<Rightarrow> Inl err | Inr (e', _) \<Rightarrow>
       Inr (e'\<lparr>recoveryStats := (recoveryStats e')\<lparr>SnapshotSequence := cSequence e', SnapshotBytes := length (encodeSnapshot e)\<rparr>\<rparr>))"
proof -
  let ?b = "snapshotBody e" and ?d = "encodeSnapshot e"
  have d: "?d = snapshotMagic @ le32 snapshotVersion @ le64 (of_nat (length ?b)) @ sha256 ?b @ ?b" by (simp add: encodeSnapshot_def Let_def)
  have m: "length snapshotMagic = 8" by (simp add: snapshotMagic_def)
  have "take 8 ?d = snapshotMagic" "get32 (drop 8 ?d) = snapshotVersion" "get64 (drop 12 ?d) = of_nat (length ?b)"
    "take 32 (drop 20 ?d) = sha256 ?b" "drop 52 ?d = ?b" "length ?d = 52 + length ?b"
    using m by (simp_all add: d)
  moreover have "sint (of_nat (length ?b) :: u64) = int (length ?b)" using assms by (intro sint_of_nat64) simp
  ultimately show ?thesis by (simp add: decodeSnapshot_def Let_def snapshotHeaderSize_def)
qed

theorem decode_encode:
  assumes "encodableCore e" "DedupeWindow c = DedupeWindow (cfg e)"
  shows "\<exists>stats. decodeSnapshot (encodeSnapshot e) (freshCore c) = Inr ((loadedCore e c)\<lparr>recoveryStats := stats\<rparr>)"
proof -
  have ok: "slots_ok e" "dedupe_ok e" "ledger_ok e" "results_ok e" "DedupeWindow (cfg e) < 2 ^ 32" "length (snapshotBody e) < 2 ^ 63 - 52"
    using assms(1) by (simp_all add: encodableCore_def engine_ok_def)
  note l = slots_lengths [OF ok(1)] and r = row_identities [OF ok(1)] and s = retained_static [OF ok(2)]
  let ?f = "(freshCore c)\<lparr>cSequence := cSequence e\<rparr>"
  let ?g = "fold installRow (slotRows e) ?f"
  let ?len = "length (encodeSnapshot e)"
  have W: "0 < DedupeWindow (cfg e)" using ok(2) by (simp add: dedupe_ok_def)
  have G: "sameRest ?f ?g"
    using install_rows [of ?f "slotRows e"] r l fresh_engine(1) [of c] W assms(2) slots_ok_cong [of ?f "freshCore c"]
    by (simp add: engine_ok_def freshCore_def)
  have ids: "list_all (\<lambda>l. idFits (lCommandID l)) (ledger e)" using ok(3) by (auto simp: ledger_ok_def list_all_iff)
  have len: "?len = 52 + length (snapshotBody e)" by (simp add: encodeSnapshot_def snapshotMagic_def Let_def)
  have lc: "length (ledger e) \<le> ?len div 44"
    using ledger_count [OF ids] by (simp add: len snapshotBody_bytes)
  then have L: "length (ledger e) < 2 ^ 64" "\<not> (of_nat (?len div 44) :: u64) < of_nat (length (ledger e))"
    using ok(6) len by (auto simp: word_less_nat_alt unat_of_nat64)
  have rl: "length (retainedBy e) < 2 ^ 32" "\<not> DedupeWindow (cfg e) < int (length (retainedBy e))"
    using s(2) ok(5) W by (auto simp: horizonOf_def)
  let ?tail = "le32 (of_int (DedupeWindow (cfg e))) @ le32 (of_nat (length (retainedBy e))) @ concat (map resultBytes (retainedBy e))"
  have 1: "loadAccounts (length (accounts e)) ?f (concat (map accountBytes (slotRows e)) @ rest) = Inr (?g, rest)" for rest
    using loadAccounts_run [of "slotRows e" ?f rest] r(6) by simp
  have 2: "loadLedger (length (ledger e)) 0 (?g\<lparr>ledger := []\<rparr>) (concat (map ledgerBytes (ledger e)) @ rest) = Inr (?g\<lparr>ledger := ledger e\<rparr>, rest)" for rest
    using loadLedger_run [of 0 "ledger e" "?g\<lparr>ledger := []\<rparr>" rest] ok(3) G by (simp add: ledger_ok_def sameRest_def)
  have 3: "loadResults (length (retainedBy e)) [] 0 (?g\<lparr>ledger := ledger e\<rparr>) (concat (map resultBytes (retainedBy e))) = Inr (loadedCore e c, [])"
    using loadResults_run [of 0 "retainedBy e" "[]" "?g\<lparr>ledger := ledger e\<rparr>" "[]"] ok(4) G s(3)
    by (simp add: results_ok_def sameRest_def loadedCore_def)
  have n1: "unat (of_nat (length (accounts e)) :: u32) = length (accounts e)" using l by (intro unat_len32) simp
  have n2: "unat (of_nat (length (ledger e)) :: u64) = length (ledger e)" using L(1) by (rule unat_of_nat64)
  have n3: "unat (of_nat (length (retainedBy e)) :: u32) = length (retainedBy e)" using rl(1) by (rule unat_len32)
  have n4: "uint (of_int (DedupeWindow (cfg e)) :: u32) = DedupeWindow (cfg e)" using W ok(5) by (intro uint_of_int32) simp_all
  have n5: "uint (of_nat (length (retainedBy e)) :: u32) = int (length (retainedBy e))" by (simp only: uint_nat n3)
  note n = n1 n2 n3 n4 n5
  have cf: "cfg (?g\<lparr>ledger := x\<rparr>) = c" for x using G by (simp add: sameRest_def freshCore_def)
  have body: "loadBody ?len (freshCore c) (snapshotBody e) = Inr (loadedCore e c, [])"
    unfolding loadBody_def snapshotBody_bytes
    using 1 2 3 n L(2) rl(2) cf assms(2) by (simp add: reader_simps)
  have "decodeSnapshot (encodeSnapshot e) (freshCore c)
      = (case loadBody ?len (freshCore c) (snapshotBody e) of Inl err \<Rightarrow> Inl err | Inr (e', _) \<Rightarrow>
          Inr (e'\<lparr>recoveryStats := (recoveryStats e')\<lparr>SnapshotSequence := cSequence e', SnapshotBytes := ?len\<rparr>\<rparr>))"
    by (rule decode_header [OF ok(6)])
  then show ?thesis using body by auto
qed

end
