(* ===== verification/Core_Recovery.thy ===== *)
theory Core_Recovery
  imports Core_Snapshot_Laws Keyed_Reopen
begin

text \<open>
  Opening an account engine after a power loss: the snapshot is loaded, the log is scanned, and the records
  behind the snapshot are replayed. A directory that holds a snapshot and whole batches, followed by at
  most a part of one, opens to the bank those batches lead to.
\<close>

section \<open>Replaying records\<close>

definition identities :: "Core \<Rightarrow> AccountID set" where
  "identities e = {i. fmlookup (ids e) i \<noteq> None}"

lemma batchView_no_epoch: "epoch e = 0 \<Longrightarrow> batchView e = visible e"
  by (auto simp: batchView_def visible_def staged_def accountFor_def split: option.split)

lemma slot_identities:
  "slot i create e = (x, e') \<Longrightarrow> identities e' = (if create then insert i (identities e) else identities e)"
  by (auto simp: slot_def identities_def Let_def split: option.splits if_splits)

lemma applyDurable_identities:
  "identities (applyDurable r e) = insert (wA r) (identities e)" "epoch (applyDurable r e) = epoch e"
proof -
  obtain s ok e1 where 1: "slot (wA r) True e = ((s, ok), e1)" by (metis surj_pair)
  have "epoch (applyEffect s t r e1) = epoch e1" for t by (simp add: applyEffect_def setAccount_def Let_def)
  then show "identities (applyDurable r e) = insert (wA r) (identities e)" "epoch (applyDurable r e) = epoch e"
    using slot_identities [OF 1] slot_frame [OF 1]
    by (simp_all add: applyDurable_unfold [OF 1 refl refl] identities_def)
qed

lemma card_identities:
  assumes "slots_ok e"
  shows "card (identities e) = length (accounts e)"
proof -
  have "identities e = set (map aID (accounts e))"
  proof (intro set_eqI iffI)
    fix i
    assume "i \<in> identities e"
    then obtain s where "fmlookup (ids e) i = Some s" by (auto simp: identities_def)
    then show "i \<in> set (map aID (accounts e))" using slot_known [OF assms, of i s] by (auto intro!: imageI)
  next
    fix i
    assume "i \<in> set (map aID (accounts e))"
    then obtain n where n: "n < length (accounts e)" "aID (accounts e ! n) = i" by (auto simp: in_set_conv_nth)
    then have "unat (of_nat n :: u32) = n" using slots_lengths [OF assms] by (simp add: unat_of_nat)
    then show "i \<in> identities e" using slots_ids [OF assms, of i "of_nat n"] n by (auto simp: identities_def)
  qed
  moreover have "distinct (map aID (accounts e))"
    by (rule row_identities(7) [OF assms])
  ultimately show ?thesis using distinct_card [of "map aID (accounts e)"] by simp
qed

lemma accountFor_version:
  assumes "slots_ok e" "epoch e = 0" "slot i False e = ((s, ok), e)"
  shows "aVersion (accountFor s ok e) = aVersion (existing (bankOf e) i)"
proof (cases "fmlookup (ids e) i")
  case (Some t)
  then show ?thesis
    using accountFor_view(1) [OF assms(1) Some] assms(2,3)
    by (simp add: slot_def batchView_no_epoch sameAccount_def existing_def)
qed (use assms(3) in \<open>auto simp: slot_def accountFor_def existing_def visible_def\<close>)

lemma applyRecovered_refines:
  assumes e: "slots_ok e" "dedupe_ok e" "marks_ok e" "epoch e = 0" and "length (accounts e) + 2 < 2 ^ 32"
    and "applicable r (bankOf e)" "map_of (bkRetained (bankOf e)) (wCommandID r) = None"
    and "wExpectedA r = aVersion (existing (bankOf e) (wA r))"
    and "wExpectedB r = (if wB r = 0 then 0 else aVersion (existing (bankOf e) (wB r)))"
  shows "\<exists>e'. applyRecovered r e = Inr e' \<and> slots_ok e' \<and> dedupe_ok e' \<and> marks_ok e' \<and> epoch e' = 0
    \<and> bankOf e' = bankApply (horizonOf e) r (bankOf e) \<and> horizonOf e' = horizonOf e
    \<and> identities e' = insert (wA r) (identities e) \<and> cfg e' = cfg e \<and> cWal e' = cWal e
    \<and> cClosed e' = cClosed e \<and> cPoisoned e' = cPoisoned e \<and> length (accounts e') \<le> length (accounts e) + 2"
proof -
  obtain s ok e1 where 1: "slot (wA r) (wEffect r = 1 \<and> wAccepted r) e = ((s, ok), e1)" by (metis surj_pair)
  have l1: "length (accounts e) + 1 < 2 ^ 32" using assms(5) by simp
  note c = slot_create [OF e(1) l1 1] and f = slot_frame [OF 1]
  have d: "dedupe_ok e1" "retainedBy e1 = retainedBy e" "horizonOf e1 = horizonOf e" using dedupe_cong [of e1 e] f e(2) by simp_all
  have b: "bankOf e1 = bankOf e" using c(2,4) d(2) f by (simp add: bankOf_def)
  have l2: "length (accounts e1) + 1 < 2 ^ 32" using c(7) assms(5) by simp
  have fr: "fmlookup (results e1) (wCommandID r) = None" using assms(7) retained_lookup [OF e(2)] f by simp
  have ap: "applicable r (bankOf e1)" using assms(6) b by simp
  note R = applyDurable_refines [OF c(1) d(1) l2 ap fr]
  have "slot (wA r) False e1 = ((s, ok), e1)" using 1 by (auto simp: slot_def Let_def split: option.splits if_splits)
  then have va: "aVersion (accountFor s ok e1) = wExpectedA r"
    using accountFor_version [OF c(1), of "wA r" s ok] e(4) f assms(8) b by simp
  obtain t q where 2: "(if wB r \<noteq> 0 then fst (slot (wB r) False e1) else (0, False)) = (t, q)" by (metis surj_pair)
  have vb: "aVersion (accountFor t q e1) = wExpectedB r"
  proof (cases "wB r = 0")
    case False
    then have "slot (wB r) False e1 = ((t, q), e1)" using 2 by (simp add: slot_no_create prod_eq_iff)
    then show ?thesis using accountFor_version [OF c(1)] e(4) f assms(9) b False by simp
  qed (use assms(9) 2 in \<open>auto simp: accountFor_def zeroAccount_def\<close>)
  have "applyRecovered r e = Inr (applyDurable r e1)"
    using va vb assms(7) retained_lookup [OF e(2), of "wCommandID r"]
    by (simp only: applyRecovered_def 1 2 Let_def prod.case) simp
  moreover have "identities (applyDurable r e1) = insert (wA r) (identities e)"
    using applyDurable_identities(1) [of r e1] slot_identities [OF 1] by auto
  ultimately show ?thesis
    using R d b applyDurable_identities(2) [of r e1] f e(3,4) c(7) applyDurable_marks [OF slot_marks [OF 1 e(3)]] by auto
qed

lemma replayRecords_refines:
  assumes "slots_ok e" "dedupe_ok e" "marks_ok e" "epoch e = 0" "length (accounts e) + 2 * length rs < 2 ^ 32"
    and "admitted (horizonOf e) (bankOf e) rs"
  shows "\<exists>e'. replayRecords rs e = Inr e' \<and> engine_ok e' \<and> epoch e' = 0
    \<and> bankOf e' = fold (bankApply (horizonOf e)) rs (bankOf e) \<and> horizonOf e' = horizonOf e
    \<and> identities e' = identities e \<union> wA ` set rs \<and> cfg e' = cfg e \<and> cWal e' = cWal e
    \<and> cClosed e' = cClosed e \<and> cPoisoned e' = cPoisoned e"
  using assms
proof (induction rs arbitrary: e)
  case (Cons r rs)
  have a: "applicable r (bankOf e)" "map_of (bkRetained (bankOf e)) (wCommandID r) = None"
    "wExpectedA r = aVersion (existing (bankOf e) (wA r))"
    "wExpectedB r = (if wB r = 0 then 0 else aVersion (existing (bankOf e) (wB r)))"
    "wSequence r = cSequence e + 1" "admitted (horizonOf e) (bankApply (horizonOf e) r (bankOf e)) rs"
    using Cons.prems(6) by (simp_all split: if_splits)
  have l: "length (accounts e) + 2 < 2 ^ 32" using Cons.prems(5) by simp
  obtain e1 where 1: "applyRecovered r e = Inr e1" "slots_ok e1" "dedupe_ok e1" "marks_ok e1" "epoch e1 = 0"
    "bankOf e1 = bankApply (horizonOf e) r (bankOf e)" "horizonOf e1 = horizonOf e"
    "identities e1 = insert (wA r) (identities e)" "cfg e1 = cfg e" "cWal e1 = cWal e" "cClosed e1 = cClosed e"
    "cPoisoned e1 = cPoisoned e" "length (accounts e1) \<le> length (accounts e) + 2"
    using applyRecovered_refines [OF Cons.prems(1-4) l a(1-4)] by blast
  have "length (accounts e1) + 2 * length rs < 2 ^ 32" using 1(13) Cons.prems(5) by simp
  then obtain e2 where "replayRecords rs e1 = Inr e2" "engine_ok e2" "epoch e2 = 0"
    "bankOf e2 = fold (bankApply (horizonOf e1)) rs (bankOf e1)" "horizonOf e2 = horizonOf e1"
    "identities e2 = identities e1 \<union> wA ` set rs" "cfg e2 = cfg e1" "cWal e2 = cWal e1" "cClosed e2 = cClosed e1"
    "cPoisoned e2 = cPoisoned e1"
    using Cons.IH [OF 1(2-5)] a(6) 1(6,7) by auto
  then show ?case using 1 a(5) by auto
qed (simp add: engine_ok_def)

section \<open>Opening\<close>

definition tornBatch :: "bytes \<Rightarrow> bool" where
  "tornBatch t \<longleftrightarrow> (\<exists>b. batch_ok b \<and> strict_prefix t (frame (batchPayload b)))"

lemma tornBatch_Nil [simp]: "tornBatch []"
proof -
  have "batch_ok []" by (simp add: batch_ok_def batchPayload_bytes maxFrameBytes_def)
  moreover have "frame (batchPayload []) \<noteq> []" by (simp add: frame_def le32_def numeral_eq_Suc)
  ultimately show ?thesis unfolding tornBatch_def by (intro exI [of _ "[]"]) (simp add: strict_prefix_def)
qed

lemma coreLog_nonempty: "coreLog batches @ t \<noteq> []"
proof -
  have "24 \<le> length (coreLog batches @ t)" by (simp add: coreLog_def)
  then show ?thesis by (metis list.size(3) not_numeral_le_zero)
qed

lemma openWAL_recovers:
  assumes "calm w" "dir \<noteq> []" "contents WAL_oct w = coreLog batches @ t" "tornBatch t" "list_all batch_ok batches"
  shows "\<exists>wal n w'. openWAL dir BatchSync after w = (Inr (wal, filter (\<lambda>r. after < wSequence r) (concat batches), n), w')
    \<and> wfFile wal = OpenedFile \<and> wfMode wal = BatchSync \<and> wfOffset wal = length (coreLog batches)
    \<and> calm w' \<and> fmlookup (files w') WAL_oct = Some (coreLog batches)
    \<and> (\<forall>m. m \<noteq> WAL_oct \<longrightarrow> fmlookup (files w') m = fmlookup (files w) m)
    \<and> durable w' = durable w \<and> pend w' = pend w \<and> windows w' = windows w"
proof -
  obtain w1 where w1: "os_OpenRdwr WAL_oct w = (None, w1)" "calm w1" "contents WAL_oct w1 = contents WAL_oct w"
    "\<forall>m. m \<noteq> WAL_oct \<longrightarrow> fmlookup (files w1) m = fmlookup (files w) m" "durable w1 = durable w" "pend w1 = pend w"
    "windows w1 = windows w"
    using os_OpenRdwr_ok [OF assms(1), of WAL_oct] by blast
  have c1: "contents WAL_oct w1 = coreLog batches @ t" using w1(3) assms(3) by simp
  have s: "scanWAL after (coreLog batches @ t) = Inr (filter (\<lambda>r. after < wSequence r) (concat batches), length (coreLog batches))"
    using scan_coreLog [OF assms(5)] assms(4) unfolding tornBatch_def by blast
  show ?thesis
    using w1(1,2,4-7) assms(2) c1 s coreLog_nonempty [of batches "[]"]
    by (simp add: openWAL_def Let_def io_check_def file_ReadAll_def file_Truncate_def file_Seek_def)
qed

lemma admitted_sequences:
  assumes "admitted h s rs" "unat (bkSequence s) + length rs < 2 ^ 64" "r \<in> set rs"
  shows "bkSequence s < wSequence r"
  using assms
proof (induction rs arbitrary: s)
  case (Cons x xs)
  have n: "unat (bkSequence s + 1) = unat (bkSequence s) + 1" using Cons.prems(2) by (simp add: unat_word_ariths)
  have x: "wSequence x = bkSequence s + 1" "admitted h (bankApply h x s) xs" using Cons.prems(1) by simp_all
  then have lt: "bkSequence s < wSequence x" using n by (simp add: word_less_nat_alt)
  show ?case
  proof (cases "r = x")
    case False
    then have "bkSequence (bankApply h x s) < wSequence r" using Cons.IH [OF x(2)] Cons.prems n x(1) by simp
    then show ?thesis using lt by simp
  qed (use lt in simp)
qed simp

text \<open>What a directory holds: the snapshot of \<open>base\<close> or none, and batches that follow it.\<close>

definition baseCore :: "CoreConfig \<Rightarrow> Core option \<Rightarrow> Core" where
  "baseCore c base = (case base of None \<Rightarrow> freshCore c | Some b \<Rightarrow> loadedCore b c)"

definition storedBase :: "CoreConfig \<Rightarrow> Core option \<Rightarrow> bool" where
  "storedBase c base \<longleftrightarrow>
     normalizeConfig c = Inr c \<and> StorageDir c \<noteq> [] \<and> Durability c = BatchSync \<and> 0 < DedupeWindow c
     \<and> (case base of None \<Rightarrow> True | Some b \<Rightarrow> encodableCore b \<and> DedupeWindow (cfg b) = DedupeWindow c)"

definition storedBatches :: "CoreConfig \<Rightarrow> Core option \<Rightarrow> walRecord list list \<Rightarrow> bool" where
  "storedBatches c base batches \<longleftrightarrow>
     list_all batch_ok batches \<and> admitted (nat (DedupeWindow c)) (bankOf (baseCore c base)) (concat batches)
     \<and> unat (cSequence (baseCore c base)) + length (concat batches) < 2 ^ 64
     \<and> length (accounts (baseCore c base)) + 2 * length (concat batches) < 2 ^ 32"

definition bankAfter :: "CoreConfig \<Rightarrow> Core option \<Rightarrow> walRecord list list \<Rightarrow> bank" where
  "bankAfter c base batches = fold (bankApply (nat (DedupeWindow c))) (concat batches) (bankOf (baseCore c base))"

definition identitiesAfter :: "CoreConfig \<Rightarrow> Core option \<Rightarrow> walRecord list list \<Rightarrow> AccountID set" where
  "identitiesAfter c base batches = identities (baseCore c base) \<union> wA ` set (concat batches)"

lemma baseCore_ok:
  assumes "storedBase c base"
  shows "engine_ok (baseCore c base)" "epoch (baseCore c base) = 0" "horizonOf (baseCore c base) = nat (DedupeWindow c)"
    "cfg (baseCore c base) = c" "\<not> cClosed (baseCore c base)" "cPoisoned (baseCore c base) = None"
proof -
  have "engine_ok (baseCore c base) \<and> epoch (baseCore c base) = 0 \<and> cfg (baseCore c base) = c
      \<and> \<not> cClosed (baseCore c base) \<and> cPoisoned (baseCore c base) = None"
  proof (cases base)
    case None
    then show ?thesis using assms fresh_engine(1) [of c] by (simp add: baseCore_def storedBase_def) (simp add: freshCore_def)
  next
    case (Some b)
    then show ?thesis using assms loadedCore_represents [of b c] by (simp add: baseCore_def storedBase_def)
  qed
  then show "engine_ok (baseCore c base)" "epoch (baseCore c base) = 0" "horizonOf (baseCore c base) = nat (DedupeWindow c)"
    "cfg (baseCore c base) = c" "\<not> cClosed (baseCore c base)" "cPoisoned (baseCore c base) = None"
    by (simp_all add: horizonOf_def)
qed

lemma loadSnapshot_base:
  assumes "calm w" "storedBase c base" "fmlookup (files w) SNAPSHOT_oct = map_option encodeSnapshot base"
  shows "\<exists>stats. openStore (freshCore c) w = (Inr ((baseCore c base)\<lparr>recoveryStats := stats\<rparr>), ticked (ticked w))"
proof (cases base)
  case None
  then show ?thesis
    using assms by (auto simp: openStore_def os_MkdirAll_def io_check_def loadSnapshot_def os_ReadFile_def baseCore_def
        storedBase_def freshCore_def)
next
  case (Some b)
  then obtain stats where "decodeSnapshot (encodeSnapshot b) (freshCore c) = Inr ((loadedCore b c)\<lparr>recoveryStats := stats\<rparr>)"
    using decode_encode [of b c] assms(2) by (auto simp: storedBase_def)
  then show ?thesis
    using assms Some by (auto simp: openStore_def os_MkdirAll_def io_check_def loadSnapshot_def os_ReadFile_def baseCore_def
        storedBase_def freshCore_def)
qed

text \<open>The recovery theorem of the account engine.\<close>

theorem OpenCore_recovers:
  assumes "calm w" "storedBase c base" "storedBatches c base batches"
    and "fmlookup (files w) SNAPSHOT_oct = map_option encodeSnapshot base"
    and "contents WAL_oct w = coreLog batches @ t" "tornBatch t"
    and "int (card (identitiesAfter c base batches)) \<le> MaxAccounts c"
  shows "\<exists>e w'. OpenCore c w = (Inr e, w') \<and> engine_ok e \<and> bankOf e = bankAfter c base batches \<and> cfg e = c
    \<and> identities e = identitiesAfter c base batches \<and> \<not> cClosed e \<and> cPoisoned e = None
    \<and> wfFile (cWal e) = OpenedFile \<and> wfMode (cWal e) = BatchSync \<and> wfOffset (cWal e) = length (coreLog batches)
    \<and> calm w' \<and> fmlookup (files w') WAL_oct = Some (coreLog batches)
    \<and> (\<forall>m. m \<noteq> WAL_oct \<longrightarrow> fmlookup (files w') m = fmlookup (files w) m)
    \<and> durable w' = durable w \<and> pend w' = pend w \<and> windows w' = windows w"
proof -
  let ?B = "baseCore c base"
  note B = baseCore_ok [OF assms(2)]
  have sb: "list_all batch_ok batches" "admitted (nat (DedupeWindow c)) (bankOf ?B) (concat batches)"
    "unat (cSequence ?B) + length (concat batches) < 2 ^ 64" "length (accounts ?B) + 2 * length (concat batches) < 2 ^ 32"
    using assms(3) by (simp_all add: storedBatches_def)
  obtain stats where 1: "openStore (freshCore c) w = (Inr (?B\<lparr>recoveryStats := stats\<rparr>), ticked (ticked w))"
    using loadSnapshot_base [OF assms(1,2,4)] by blast
  have all: "filter (\<lambda>r. cSequence ?B < wSequence r) (concat batches) = concat batches"
    using admitted_sequences [OF sb(2)] sb(3) by (simp add: filter_id_conv)
  have d: "calm (ticked (ticked w))" "contents WAL_oct (ticked (ticked w)) = coreLog batches @ t" "StorageDir c \<noteq> []" "Durability c = BatchSync"
    using assms(1,2,5) by (simp_all add: storedBase_def)
  obtain wal n w' where 2: "openWAL (StorageDir c) BatchSync (cSequence ?B) (ticked (ticked w)) = (Inr (wal, concat batches, n), w')"
    "wfFile wal = OpenedFile" "wfMode wal = BatchSync" "wfOffset wal = length (coreLog batches)" "calm w'"
    "fmlookup (files w') WAL_oct = Some (coreLog batches)" "\<forall>m. m \<noteq> WAL_oct \<longrightarrow> fmlookup (files w') m = fmlookup (files w) m"
    "durable w' = durable w" "pend w' = pend w" "windows w' = windows w"
    using openWAL_recovers [OF d(1,3,2) assms(6) sb(1), of "cSequence ?B"] all by auto
  define e1 where "e1 = ?B\<lparr>cWal := wal, recoveryStats := stats\<lparr>WALBytesScanned := n, RecordsReplayed := length (concat batches)\<rparr>\<rparr>"
  have e1: "slots_ok e1" "dedupe_ok e1" "marks_ok e1" "epoch e1 = 0" "bankOf e1 = bankOf ?B" "horizonOf e1 = nat (DedupeWindow c)"
    "identities e1 = identities ?B" "length (accounts e1) = length (accounts ?B)" "cfg e1 = c" "\<not> cClosed e1" "cPoisoned e1 = None" "cWal e1 = wal"
    using B slots_ok_cong [of e1 ?B] dedupe_cong [of e1 ?B]
    by (simp_all add: e1_def engine_ok_def marks_ok_def bankOf_def identities_def)
  have l: "length (accounts e1) + 2 * length (concat batches) < 2 ^ 32" using sb(4) e1(8) by simp
  have a: "admitted (horizonOf e1) (bankOf e1) (concat batches)" using sb(2) e1(5,6) by simp
  obtain e2 where 3: "replayRecords (concat batches) e1 = Inr e2" "engine_ok e2"
    "bankOf e2 = fold (bankApply (horizonOf e1)) (concat batches) (bankOf e1)"
    "identities e2 = identities e1 \<union> wA ` set (concat batches)" "cfg e2 = cfg e1" "cWal e2 = cWal e1"
    "cClosed e2 = cClosed e1" "cPoisoned e2 = cPoisoned e1"
    using replayRecords_refines [OF e1(1-4) l a] by blast
  have "identities e2 = identitiesAfter c base batches" "bankOf e2 = bankAfter c base batches"
    using 3(3,4) e1(5-7) by (simp_all add: identitiesAfter_def bankAfter_def)
  moreover have "card (identities e2) = length (accounts e2)" using 3(2) by (intro card_identities) (simp add: engine_ok_def)
  ultimately have "\<not> MaxAccounts c < int (length (accounts e2))" using assms(7) by simp
  then have "OpenCore c w = (Inr e2, w')"
    using 1 2(1) 3(1) d assms(2) by (simp add: OpenCore_def storedBase_def Let_def e1_def)
  then show ?thesis
    using 2 3 e1 \<open>identities e2 = identitiesAfter c base batches\<close> \<open>bankOf e2 = bankAfter c base batches\<close> by auto
qed

section \<open>Commits and power loss\<close>

text \<open>The engine and its directory: the log holds the batches that led from the snapshot to the bank.\<close>

definition core_tracks :: "CoreConfig \<Rightarrow> Core option \<Rightarrow> walRecord list list \<Rightarrow> Core \<Rightarrow> world \<Rightarrow> bool" where
  "core_tracks c base batches e w \<longleftrightarrow>
     storedBase c base \<and> storedBatches c base batches \<and> engine_ok e \<and> bankOf e = bankAfter c base batches
     \<and> identities e = identitiesAfter c base batches \<and> cfg e = c \<and> \<not> cClosed e \<and> cPoisoned e = None
     \<and> wfFile (cWal e) = OpenedFile \<and> wfMode (cWal e) = BatchSync \<and> wfOffset (cWal e) = length (coreLog batches)
     \<and> untouched w {SNAPSHOT_oct, WAL_oct}
     \<and> fmlookup (files w) SNAPSHOT_oct = map_option encodeSnapshot base \<and> fmlookup (durable w) SNAPSHOT_oct = map_option encodeSnapshot base
     \<and> fmlookup (files w) WAL_oct = Some (coreLog batches)
     \<and> (\<exists>t. tornBatch t \<and> fmlookup (durable w) WAL_oct = Some (coreLog batches @ t))"

text \<open>What appending a batch leaves of the file system, whichever call fails.\<close>

lemma appendBatch_effect:
  assumes "wfFile wal = OpenedFile" "wfMode wal = BatchSync" "wfOffset wal = length l" "fmlookup (files w) WAL_oct = Some l"
    and "appendBatch rs wal w = (err, wal', w')"
  shows "\<exists>x. prefix x (frame (batchPayload rs)) \<and> fmlookup (files w') WAL_oct = Some (l @ x)
      \<and> (\<forall>m. m \<noteq> WAL_oct \<longrightarrow> fmlookup (files w') m = fmlookup (files w) m \<and> fmlookup (durable w') m = fmlookup (durable w) m)
      \<and> set (pend w') \<subseteq> set (pend w) \<and> windows w' = windows w
      \<and> (fmlookup (durable w') WAL_oct = fmlookup (durable w) WAL_oct \<or> fmlookup (durable w') WAL_oct = Some (l @ x))
      \<and> (err = None \<longrightarrow> length (batchPayload rs) \<le> maxFrameBytes \<and> x = frame (batchPayload rs)
            \<and> fmlookup (durable w') WAL_oct = Some (l @ x)
            \<and> wfFile wal' = OpenedFile \<and> wfMode wal' = BatchSync \<and> wfOffset wal' = length (l @ x))
      \<and> (x \<noteq> [] \<longrightarrow> length (batchPayload rs) \<le> maxFrameBytes)"
proof (cases "maxFrameBytes < length (batchPayload rs)")
  case True
  then show ?thesis using assms by (intro exI [of _ "[]"]) (auto simp: appendBatch_def)
next
  case False
  let ?d = "frame (batchPayload rs)"
  have c: "contents WAL_oct w = l" using assms(4) by (simp add: contents_def)
  show ?thesis
  proof (cases "next_outcome w")
    case OpOk
    define w1 where "w1 = (ticked w)\<lparr>files := fmupd WAL_oct (l @ ?d) (files w)\<rparr>"
    have w1: "walWrite ?d wal w = (None, wal\<lparr>wfOffset := length l + length ?d\<rparr>, w1)" "contents WAL_oct w1 = l @ ?d"
      using assms(1,3) OpOk c by (simp_all add: walWrite_def file_Write_def write_at_end w1_def)
    show ?thesis
      using assms(1,2,5) False w1
      by (intro exI [of _ ?d]) (auto simp: appendBatch_def Let_def onFile_def file_Sync_def countBytes_def w1_def split: if_splits)
  next
    case (OpFail k)
    then have "walWrite ?d wal w = (Some (PathError ''write''), wal\<lparr>wfOffset := length l + length (take k ?d)\<rparr>,
        (ticked w)\<lparr>files := fmupd WAL_oct (l @ take k ?d) (files w)\<rparr>)"
      using assms(1,3) c by (simp add: walWrite_def file_Write_def write_at_end)
    then show ?thesis
      using assms(2,5) False by (intro exI [of _ "take k ?d"]) (auto simp: appendBatch_def Let_def take_is_prefix)
  qed
qed

end
