(* ===== verification/Core_Durable.thy ===== *)
theory Core_Durable
  imports Core_Recovery
begin

text \<open>
  Durability of the account engine: whatever fails while a batch is committed, a directory that a power
  loss leaves opens to the bank before the batch or to the bank after it, and to the latter when the
  batch was acknowledged.
\<close>

section \<open>What the records of a batch name\<close>

lemma runBatch_names:
  "wCommandID ` set (bRecords (fold batchStep cs st)) \<subseteq> wCommandID ` set (bRecords st) \<union> cID ` set cs
   \<and> identities (bCore (fold batchStep cs st)) \<union> wA ` set (bRecords (fold batchStep cs st))
     = identities (bCore st) \<union> wA ` set (bRecords (fold batchStep cs st))
   \<and> set (bRecords st) \<subseteq> set (bRecords (fold batchStep cs st))"
proof (induction cs arbitrary: st)
  case (Cons c cs)
  have "wCommandID ` set (bRecords (batchStep c st)) \<subseteq> insert (cID c) (wCommandID ` set (bRecords st))
      \<and> identities (bCore (batchStep c st)) \<union> wA ` set (bRecords (batchStep c st)) = identities (bCore st) \<union> wA ` set (bRecords (batchStep c st))
      \<and> set (bRecords st) \<subseteq> set (bRecords (batchStep c st))"
  proof (cases "fmlookup (results (bCore st)) (cID c) = None \<and> fmlookup (bIDs st) (cID c) = None")
    case True
    obtain aSlot aok e where 1: "slot (cAccount c) (isKind (cKind c) kCreate) (bCore st) = ((aSlot, aok), e)" by (metis surj_pair)
    obtain bSlot bok where 2: "(if cOther c \<noteq> 0 then fst (slot (cOther c) False e) else (0, False)) = (bSlot, bok)" by (metis surj_pair)
    let ?r = "makeRecord c (cSequence e + of_nat (length (bRecords st)) + 1) (accountFor aSlot aok e)
      (aok \<and> (at (present e) aSlot \<or> staged aSlot e)) (accountFor bSlot bok e)
      (bok \<and> (at (present e) bSlot \<or> staged bSlot e)) (if aok then at (agents e) aSlot else zeroAgent)"
    have "batchStep c st = decideCommand c st" using True by (simp add: batchStep_def)
    then have "bRecords (batchStep c st) = bRecords st @ [?r]" "ids (bCore (batchStep c st)) = ids e"
      by (simp_all only: decideCommand_unfold [OF 1 2 refl] Let_def) (simp_all)
    then show ?thesis using slot_identities [OF 1] by (auto simp: identities_def)
  qed (auto simp: batchStep_def split: option.split)
  then have 1: "wCommandID ` set (bRecords (batchStep c st)) \<subseteq> insert (cID c) (wCommandID ` set (bRecords st))"
    "identities (bCore (batchStep c st)) \<union> wA ` set (bRecords (batchStep c st)) = identities (bCore st) \<union> wA ` set (bRecords (batchStep c st))"
    "set (bRecords st) \<subseteq> set (bRecords (batchStep c st))" by simp_all
  note IH = Cons.IH [of "batchStep c st"]
  let ?R = "set (bRecords (fold batchStep cs (batchStep c st)))"
  have m: "wA ` set (bRecords (batchStep c st)) \<subseteq> wA ` ?R" using IH by (intro image_mono) blast
  have "identities (bCore (fold batchStep cs (batchStep c st))) \<union> wA ` ?R = identities (bCore (batchStep c st)) \<union> wA ` ?R" using IH by blast
  also have "\<dots> = identities (bCore st) \<union> wA ` ?R" using 1(2) m by blast
  finally have 2: "identities (bCore (fold batchStep cs (batchStep c st))) \<union> wA ` ?R = identities (bCore st) \<union> wA ` ?R" .
  have "wCommandID ` ?R \<subseteq> wCommandID ` set (bRecords st) \<union> insert (cID c) (cID ` set cs)" using IH 1(1) by blast
  moreover have "set (bRecords st) \<subseteq> ?R" using IH 1(3) by blast
  ultimately show ?case using 2 by simp
qed simp

lemma runBatch_identities:
  "identities (fold applyDurable (bRecords (runBatch cs e)) ((bCore (runBatch cs e))\<lparr>cWal := x\<rparr>))
    = identities e \<union> wA ` set (bRecords (runBatch cs e))"
proof -
  have "identities (fold applyDurable rs e') = identities e' \<union> wA ` set rs" for rs e'
    by (induction rs arbitrary: e') (auto simp: applyDurable_identities)
  then show ?thesis
    using runBatch_names [of cs "\<lparr>bCore = nextEpoch e, bRecords = [], bResults = [], bIDs = fmempty\<rparr>"]
    by (simp add: runBatch_def [symmetric] identities_def)
qed

lemma finite_identities: "finite (identities e)"
proof -
  have "identities e = fset (fmdom (ids e))" by (auto simp: identities_def fmlookup_dom_iff)
  then show ?thesis by simp
qed

section \<open>One batch\<close>

text \<open>The bounds under which a batch can be stored and found again.\<close>

definition room :: "CoreConfig \<Rightarrow> Core option \<Rightarrow> walRecord list list \<Rightarrow> Core \<Rightarrow> Command list \<Rightarrow> bool" where
  "room c base batches e cs \<longleftrightarrow>
     unat (cSequence (baseCore c base)) + length (concat batches) + length cs < 2 ^ 64
     \<and> length (accounts (baseCore c base)) + 2 * length (concat batches) + 2 * length cs < 2 ^ 32
     \<and> length (accounts e) + 2 * length cs < 2 ^ 32
     \<and> int (length (accounts e)) + int (length cs) \<le> MaxAccounts c
     \<and> list_all (\<lambda>x. length (cID x) < 2 ^ 32) cs"

definition orderly :: "Core \<Rightarrow> Command list \<Rightarrow> bool" where
  "orderly e cs \<longleftrightarrow>
     addressed (active e) (map aID (accounts e)) cs \<and> remembered (horizonOf e) (retainedBy e) cs"

text \<open>How a batch ends: without touching the log, or with its records appended to it.\<close>

lemma SubmitBatch_outcome:
  assumes "SubmitBatch cs e w = (res, e', w')"
  shows "w' = w \<and> (\<exists>x. res = Inl x \<and> e' = e)
    \<or> w' = w \<and> cs = [] \<and> res = Inr [] \<and> e' = e
    \<or> list_all (\<lambda>c. ValidateCommand c = None) cs \<and>
      (w' = w \<and> bRecords (runBatch cs e) = [] \<and> res = Inr (bResults (runBatch cs e)) \<and> e' = bCore (runBatch cs e)
       \<or> bRecords (runBatch cs e) \<noteq> [] \<and> (\<exists>err wal. appendBatch (bRecords (runBatch cs e)) (cWal (bCore (runBatch cs e))) w = (err, wal, w')
          \<and> (if err = None then res = Inr (bResults (runBatch cs e))
                \<and> e' = fold applyDurable (bRecords (runBatch cs e)) ((bCore (runBatch cs e))\<lparr>cWal := wal\<rparr>)
             else \<exists>x. res = Inl x)))"
  using assms
  by (auto simp: SubmitBatch_def Let_def validateBatch_None [symmetric] split: if_splits option.splits prod.splits)

lemma records_batch_ok:
  assumes "list_all (\<lambda>c. ValidateCommand c = None) cs" "list_all (\<lambda>x. length (cID x) < 2 ^ 32) cs"
    and "length (bRecords (runBatch cs e)) < 2 ^ 32" "length (batchPayload (bRecords (runBatch cs e))) \<le> maxFrameBytes"
  shows "batch_ok (bRecords (runBatch cs e))"
proof -
  have n: "wCommandID ` set (bRecords (runBatch cs e)) \<subseteq> cID ` set cs"
    using runBatch_names [of cs "\<lparr>bCore = nextEpoch e, bRecords = [], bResults = [], bIDs = fmempty\<rparr>"]
    by (simp add: runBatch_def)
  have i: "cID x \<noteq> [] \<and> length (cID x) < 2 ^ 32" if "x \<in> set cs" for x
  proof -
    have "ValidateCommand x = None" "length (cID x) < 2 ^ 32" using assms(1,2) that unfolding list_all_iff by blast+
    then show ?thesis by (simp add: ValidateCommand_def split: if_splits)
  qed
  have "encodable r" if r: "r \<in> set (bRecords (runBatch cs e))" for r
  proof -
    have "wCommandID r \<in> cID ` set cs" using n r by blast
    then obtain x where "x \<in> set cs" "wCommandID r = cID x" by blast
    then show ?thesis using i [of x] by (simp add: encodable_def)
  qed
  then show ?thesis using assms(3,4) by (simp add: batch_ok_def list_all_iff)
qed

text \<open>What is left of the log after a power loss.\<close>

lemma crash_log:
  assumes "crash w m" "untouched w {WAL_oct}" "fmlookup (files w) WAL_oct = Some (l @ x)"
    and "fmlookup (durable w) WAL_oct = Some (l @ t) \<or> fmlookup (durable w) WAL_oct = Some (l @ x)"
  shows "\<exists>y. fmlookup m WAL_oct = Some (l @ y) \<and> (y = t \<or> prefix y x)
    \<and> (fmlookup (durable w) WAL_oct = Some (l @ x) \<longrightarrow> y = x)"
proof -
  have c: "contents WAL_oct w = l @ x" using assms(3) by (simp add: contents_def)
  obtain d z where d: "fmlookup (durable w) WAL_oct = Some (l @ d)" "d = t \<or> d = x" "fmlookup m WAL_oct = Some z" "survives (l @ d) (l @ x) z"
    using crash_untouched [OF assms(1), of WAL_oct] assms(2,4) c by (auto simp: untouched_def)
  have "\<exists>y. z = l @ y \<and> prefix y x \<and> prefix d y" if a: "prefix (l @ d) z" "prefix z (l @ x)"
  proof -
    obtain u where "z = (l @ d) @ u" using a(1) by (auto elim: prefixE)
    then show ?thesis using a(2) by (intro exI [of _ "d @ u"]) simp
  qed
  then consider "z = l @ d" | "z = l @ x" | y where "z = l @ y" "prefix y x" "prefix d y"
    using d(4) unfolding survives_def by blast
  then show ?thesis
  proof cases
    case (3 y)
    then show ?thesis using d prefix_order.antisym [of y x] by auto
  qed (use d in auto)
qed

lemma untouched_mono: "untouched w N \<Longrightarrow> set (pend w') \<subseteq> set (pend w) \<Longrightarrow> M \<subseteq> N \<Longrightarrow> untouched w' M"
  unfolding untouched_def by blast

lemma core_tracksD:
  assumes "core_tracks c base batches e w"
  shows "storedBase c base" "storedBatches c base batches" "engine_ok e" "bankOf e = bankAfter c base batches"
    "identities e = identitiesAfter c base batches" "cfg e = c" "horizonOf e = nat (DedupeWindow c)" "\<not> cClosed e" "cPoisoned e = None"
    "wfFile (cWal e) = OpenedFile" "wfMode (cWal e) = BatchSync" "wfOffset (cWal e) = length (coreLog batches)"
    "untouched w {SNAPSHOT_oct, WAL_oct}" "fmlookup (files w) SNAPSHOT_oct = map_option encodeSnapshot base"
    "fmlookup (durable w) SNAPSHOT_oct = map_option encodeSnapshot base" "fmlookup (files w) WAL_oct = Some (coreLog batches)"
    "\<exists>t. tornBatch t \<and> fmlookup (durable w) WAL_oct = Some (coreLog batches @ t)"
  using assms by (simp_all add: core_tracks_def horizonOf_def)

lemma storedBatches_snoc:
  assumes "storedBatches c base batches" "batch_ok rs" "admitted (nat (DedupeWindow c)) (bankAfter c base batches) rs"
    and "unat (cSequence (baseCore c base)) + length (concat batches) + length rs < 2 ^ 64"
    and "length (accounts (baseCore c base)) + 2 * length (concat batches) + 2 * length rs < 2 ^ 32"
  shows "storedBatches c base (batches @ [rs])"
  using assms by (simp add: storedBatches_def bankAfter_def admitted_append)

lemma afterwards_snoc:
  "bankAfter c base (batches @ [rs]) = fold (bankApply (nat (DedupeWindow c))) rs (bankAfter c base batches)"
  "identitiesAfter c base (batches @ [rs]) = identitiesAfter c base batches \<union> wA ` set rs"
  "coreLog (batches @ [rs]) = coreLog batches @ frame (batchPayload rs)"
  by (auto simp: bankAfter_def identitiesAfter_def coreLog_def)

text \<open>A batch whose records reach the log: what is stored afterwards.\<close>

lemma committed_tracks:
  assumes T: "core_tracks c base batches e w" and "list_all (\<lambda>c. ValidateCommand c = None) cs" "orderly e cs" "room c base batches e cs"
    and A: "appendBatch (bRecords (runBatch cs e)) (cWal (bCore (runBatch cs e))) w = (None, wal, w')"
  shows "core_tracks c base (batches @ [bRecords (runBatch cs e)])
    (fold applyDurable (bRecords (runBatch cs e)) ((bCore (runBatch cs e))\<lparr>cWal := wal\<rparr>)) w'"
proof -
  let ?rs = "bRecords (runBatch cs e)"
  note D = core_tracksD [OF T]
  have o: "addressed (active e) (map aID (accounts e)) cs" "remembered (horizonOf e) (retainedBy e) cs"
    "length (accounts e) + 2 * length cs < 2 ^ 32" using assms(3,4) by (simp_all add: orderly_def room_def)
  note R = runBatch_refines [OF D(3) assms(2) o]
  have b: "sameBase e (bCore (runBatch cs e))" by (rule R(1))
  have wal: "cWal (bCore (runBatch cs e)) = cWal e" using b by (simp add: sameBase_def)
  obtain x where x: "fmlookup (files w') WAL_oct = Some (coreLog batches @ x)"
    "\<forall>m. m \<noteq> WAL_oct \<longrightarrow> fmlookup (files w') m = fmlookup (files w) m \<and> fmlookup (durable w') m = fmlookup (durable w) m"
    "set (pend w') \<subseteq> set (pend w)" "length (batchPayload ?rs) \<le> maxFrameBytes" "x = frame (batchPayload ?rs)"
    "fmlookup (durable w') WAL_oct = Some (coreLog batches @ x)"
    "wfFile wal = OpenedFile" "wfMode wal = BatchSync" "wfOffset wal = length (coreLog batches @ x)"
    using appendBatch_effect [OF D(10,11,12,16), of ?rs None wal w'] A wal by auto
  have l: "length ?rs \<le> length cs" by (rule R(4))
  have ok: "batch_ok ?rs"
    using records_batch_ok [OF assms(2) _ _ x(4)] assms(4) l by (auto simp: room_def)
  have st: "storedBatches c base (batches @ [?rs])"
    using storedBatches_snoc [OF D(2) ok] R(2) D(4,7) assms(4) l by (simp add: room_def)
  have un: "untouched w' {SNAPSHOT_oct, WAL_oct}" by (rule untouched_mono [OF D(13) x(3)]) simp
  show ?thesis
    unfolding core_tracks_def
    using D(1,4-9,14,15) st un R(5,6) [of wal] x b
    by (auto simp: afterwards_snoc runBatch_identities sameBase_def intro!: exI [of _ "[]"])
qed

text \<open>A directory that holds a log of the engine, with a torn tail or without, opens.\<close>

lemma reopens:
  assumes "storedBase c base" "storedBatches c base batches" "int (card (identitiesAfter c base batches)) \<le> MaxAccounts c"
    and "fmlookup m SNAPSHOT_oct = map_option encodeSnapshot base" "fmlookup m WAL_oct = Some (coreLog batches @ y)" "tornBatch y"
    and "calm v" "files v = m"
  shows "\<exists>r v'. OpenCore c v = (Inr r, v') \<and> bankOf r = bankAfter c base batches"
  using OpenCore_recovers [OF assms(7,1,2) _ _ assms(6,3)] assms(4,5,8) by (auto simp: contents_def)

lemma idle_crash:
  assumes T: "core_tracks c base batches e w" and "crash w m" "calm v" "files v = m" "int (length (accounts e)) \<le> MaxAccounts c"
  shows "\<exists>r v'. OpenCore c v = (Inr r, v') \<and> bankOf r = bankOf e"
proof -
  note D = core_tracksD [OF T]
  have u: "untouched w {WAL_oct}" "untouched w {SNAPSHOT_oct}" using D(13) by (simp_all add: untouched_def)
  obtain t where t: "tornBatch t" "fmlookup (durable w) WAL_oct = Some (coreLog batches @ t)" using D(17) by blast
  obtain y where y: "fmlookup m WAL_oct = Some (coreLog batches @ y)" "tornBatch y"
    using crash_log [OF assms(2) u(1), of "coreLog batches" "[]" t] D(16) t by auto
  have "fmlookup m SNAPSHOT_oct = map_option encodeSnapshot base" using crash_settled [OF assms(2) u(2)] D(14,15) by simp
  moreover have "card (identitiesAfter c base batches) = length (accounts e)"
    using card_identities [of e] D(3,5) by (simp add: engine_ok_def)
  ultimately show ?thesis using reopens [OF D(1,2) _ _ y assms(3,4)] assms(5) D(4) by simp
qed

text \<open>The log that a power loss leaves when a batch was being appended: the batch is in it as a whole, or it
  is torn; and it is there when it was acknowledged.\<close>

lemma appended_crash:
  assumes T: "core_tracks c base batches e w" and V: "list_all (\<lambda>c. ValidateCommand c = None) cs" and O: "room c base batches e cs"
    and A: "appendBatch (bRecords (runBatch cs e)) (cWal e) w = (err, wal, w')" and "crash w' m" "length (bRecords (runBatch cs e)) \<le> length cs"
  shows "\<exists>y. fmlookup m WAL_oct = Some (coreLog batches @ y) \<and> fmlookup m SNAPSHOT_oct = map_option encodeSnapshot base
    \<and> (tornBatch y \<and> err \<noteq> None \<or> batch_ok (bRecords (runBatch cs e)) \<and> y = frame (batchPayload (bRecords (runBatch cs e))))"
proof -
  let ?rs = "bRecords (runBatch cs e)" and ?l = "coreLog batches"
  note D = core_tracksD [OF T]
  obtain t where t: "tornBatch t" "fmlookup (durable w) WAL_oct = Some (?l @ t)" using D(17) by blast
  obtain x where x: "prefix x (frame (batchPayload ?rs))" "fmlookup (files w') WAL_oct = Some (?l @ x)"
    "\<forall>m. m \<noteq> WAL_oct \<longrightarrow> fmlookup (files w') m = fmlookup (files w) m \<and> fmlookup (durable w') m = fmlookup (durable w) m"
    "set (pend w') \<subseteq> set (pend w)"
    "fmlookup (durable w') WAL_oct = fmlookup (durable w) WAL_oct \<or> fmlookup (durable w') WAL_oct = Some (?l @ x)"
    "err = None \<Longrightarrow> x = frame (batchPayload ?rs) \<and> fmlookup (durable w') WAL_oct = Some (?l @ x)"
    "x \<noteq> [] \<Longrightarrow> length (batchPayload ?rs) \<le> maxFrameBytes"
    using appendBatch_effect [OF D(10,11,12,16) A] by blast
  have u: "untouched w' {WAL_oct}" "untouched w' {SNAPSHOT_oct}" by (rule untouched_mono [OF D(13) x(4)], simp)+
  obtain y where y: "fmlookup m WAL_oct = Some (?l @ y)" "y = t \<or> prefix y x" "fmlookup (durable w') WAL_oct = Some (?l @ x) \<Longrightarrow> y = x"
    using crash_log [OF assms(5) u(1) x(2), of t] x(5) t(2) by auto
  have ok: "batch_ok ?rs" if "x \<noteq> []"
    using records_batch_ok [OF V _ _ x(7) [OF that]] O assms(6) by (auto simp: room_def)
  have f: "frame (batchPayload ?rs) \<noteq> []" by (simp add: frame_def le32_def numeral_eq_Suc)
  have "tornBatch y \<and> err \<noteq> None \<or> batch_ok ?rs \<and> y = frame (batchPayload ?rs)"
  proof (cases "err = None")
    case True
    then show ?thesis using x(6) y(3) ok f by auto
  next
    case False
    have "tornBatch y" if "y \<noteq> frame (batchPayload ?rs)" "y \<noteq> t" "y \<noteq> []"
    proof -
      have "prefix y x" "x \<noteq> []" using y(2) that by auto
      then have "strict_prefix y (frame (batchPayload ?rs))" using x(1) that(1) by (auto simp: strict_prefix_def)
      then show ?thesis using ok [OF \<open>x \<noteq> []\<close>] unfolding tornBatch_def by blast
    qed
    moreover have "batch_ok ?rs" if "y = frame (batchPayload ?rs)" "y \<noteq> t"
      using y(2) that ok f by (cases "x = []") auto
    ultimately show ?thesis using False t(1) by (cases "y = t"; cases "y = []") auto
  qed
  moreover have "fmlookup m SNAPSHOT_oct = map_option encodeSnapshot base"
    using crash_settled [OF assms(5) u(2)] x(3) D(14,15) by simp
  ultimately show ?thesis using y(1) by blast
qed

end
