(* ===== verification/Bank_Funds.thy ===== *)
theory Bank_Funds
  imports Core_Batch
begin

text \<open>
  The money of the bank: the sum of the balances, read as the signed integers that they are, and what a
  command may do to it. The balances are 64-bit integers whose additions wrap around; the theorems bound
  the money that enters so that none of them does.
\<close>

definition balanceOf :: "(AccountID \<Rightarrow> Account option) \<Rightarrow> AccountID \<Rightarrow> int" where
  "balanceOf m i = (case m i of None \<Rightarrow> 0 | Some a \<Rightarrow> sint (aBalance a))"

definition funds :: "bank \<Rightarrow> int" where
  "funds s = (\<Sum>i \<in> dom (bkAccounts s). balanceOf (bkAccounts s) i)"

definition solvent :: "bank \<Rightarrow> bool" where
  "solvent s \<longleftrightarrow> finite (dom (bkAccounts s)) \<and> (\<forall>i. 0 \<le> balanceOf (bkAccounts s) i)"

text \<open>What an answered command moved into the bank; nothing when it was rejected or a repetition.\<close>

definition netOf :: "Command \<Rightarrow> Result \<Rightarrow> int" where
  "netOf c r =
     (if resDuplicate r \<or> \<not> resAccepted r then 0
      else if isKind (cKind c) kCreate \<or> isKind (cKind c) kDeposit then sint (cAmount c)
      else if isKind (cKind c) kWithdraw then - sint (cAmount c)
      else 0)"

definition inflow :: "Command list \<Rightarrow> int" where
  "inflow cs = sum_list (map (\<lambda>c. max 0 (sint (cAmount c))) cs)"

lemma balanceOf_upd: "balanceOf (m(i \<mapsto> a)) j = (if j = i then sint (aBalance a) else balanceOf m j)"
  by (simp add: balanceOf_def)

lemma sum_upd:
  assumes "finite (dom m)"
  shows "(\<Sum>j \<in> dom (m(i \<mapsto> a)). balanceOf (m(i \<mapsto> a)) j) = (\<Sum>j \<in> dom m. balanceOf m j) - balanceOf m i + sint (aBalance a)"
proof -
  have "(\<Sum>j \<in> dom m. balanceOf m j) = balanceOf m i + (\<Sum>j \<in> dom m - {i}. balanceOf m j)"
  proof (cases "i \<in> dom m")
    case True
    then show ?thesis using assms by (simp add: sum.remove)
  next
    case False
    then show ?thesis by (auto simp: balanceOf_def domIff)
  qed
  moreover have "(\<Sum>j \<in> dom m - {i}. balanceOf (m(i \<mapsto> a)) j) = (\<Sum>j \<in> dom m - {i}. balanceOf m j)"
    by (rule sum.cong) (simp_all add: balanceOf_upd)
  ultimately show ?thesis using assms by (simp add: sum.insert_remove balanceOf_upd)
qed

lemma balance_bound: "solvent s \<Longrightarrow> balanceOf (bkAccounts s) i \<le> funds s"
proof (cases "i \<in> dom (bkAccounts s)")
  case True
  moreover assume "solvent s"
  ultimately show ?thesis unfolding funds_def solvent_def by (intro member_le_sum) auto
next
  case False
  moreover assume "solvent s"
  ultimately show ?thesis unfolding funds_def solvent_def by (auto simp: balanceOf_def domIff intro: sum_nonneg)
qed

lemma sint_plus64: "- (2 ^ 63) \<le> sint a + sint b \<Longrightarrow> sint a + sint b < 2 ^ 63 \<Longrightarrow> sint (a + b) = sint a + sint (b :: i64)"
  by (simp add: signed_take_bit_int_eq_self sint_word_ariths)

lemma sint_minus64: "- (2 ^ 63) \<le> sint a - sint b \<Longrightarrow> sint a - sint b < 2 ^ 63 \<Longrightarrow> sint (a - b) = sint a - sint (b :: i64)"
  by (simp add: signed_take_bit_int_eq_self sint_word_ariths)

lemma sint_bounds64: "- (2 ^ 63) \<le> sint (a :: i64)" "sint (a :: i64) < 2 ^ 63"
  using sint_ge [of a] sint_lt [of a] by simp_all

section \<open>One command\<close>

text \<open>The money and the sign of the balances of a map of accounts.\<close>

definition holds :: "(AccountID \<Rightarrow> Account option) \<Rightarrow> int \<Rightarrow> bool" where
  "holds m n \<longleftrightarrow> finite (dom m) \<and> (\<forall>i. 0 \<le> balanceOf m i) \<and> (\<Sum>i \<in> dom m. balanceOf m i) = n"

lemma holds_solvent: "holds (bkAccounts s) n \<longleftrightarrow> solvent s \<and> funds s = n"
  by (auto simp: holds_def solvent_def funds_def)

lemma holds_upd: "holds m n \<Longrightarrow> 0 \<le> sint (aBalance a) \<Longrightarrow> holds (m(i \<mapsto> a)) (n - balanceOf m i + sint (aBalance a))"
  using sum_upd [of m i a] by (simp add: holds_def balanceOf_upd)

lemma balance_le: "holds m n \<Longrightarrow> balanceOf m i \<le> n"
  using balance_bound [of "\<lparr>bkAccounts = m, bkAgents = undefined, bkLedger = [], bkRetained = [], bkSequence = 0\<rparr>"]
  by (simp add: holds_def solvent_def funds_def)

lemma holds_transfer:
  assumes "holds m n" "i \<noteq> j" "0 \<le> k" "k \<le> balanceOf m i" "sint (aBalance a) = balanceOf m i - k" "sint (aBalance b) = balanceOf m j + k"
  shows "holds (m(i \<mapsto> a, j \<mapsto> b)) n"
proof -
  have "0 \<le> balanceOf m j" using assms(1) by (simp add: holds_def)
  then show ?thesis
    using holds_upd [OF holds_upd [OF assms(1), of a i], of b j] assms(2-) by (simp add: balanceOf_upd)
qed

text \<open>The additions that do not wrap around.\<close>

lemma credited:
  assumes "holds m n" "sint x = balanceOf m i" "slt 0 v" "n + max 0 (sint v) < 2 ^ 63"
  shows "sint (x + v) = balanceOf m i + sint v" "0 \<le> balanceOf m i + sint v"
proof -
  have "0 \<le> balanceOf m i" using assms(1) by (simp add: holds_def)
  then show "sint (x + v) = balanceOf m i + sint v" "0 \<le> balanceOf m i + sint v"
    using assms(2-) balance_le [OF assms(1), of i] sint_plus64 [of x v] by (simp_all add: slt_def)
qed

lemma debited:
  assumes "holds m n" "sint x = balanceOf m i" "slt 0 v" "\<not> slt x v"
  shows "sint (x - v) = balanceOf m i - sint v" "sint v \<le> balanceOf m i"
  using assms sint_minus64 [of x v] sint_bounds64 [of x] by (simp_all add: slt_def)

lemma decideGo_idle:
  "d = decideGo c a x b y p \<Longrightarrow> dAccepted d \<Longrightarrow> dEffect d = 0 \<Longrightarrow> isKind (cKind c) kBeginTransfer \<or> isKind (cKind c) kCancel"
  by (auto simp: decideGo_def noneDecision_def Let_def split: if_splits)

lemma moved_holds:
  assumes s: "holds (bkAccounts s) n" and c: "ValidateCommand c = None" "n + max 0 (sint (cAmount c)) < 2 ^ 63"
  shows "holds (moved (bankRecord c s) s) (n + netOf c (resultOf (bankRecord c s)))"
proof -
  let ?m = "bkAccounts s" and ?A = "cAccount c" and ?B = "cOther c"
  let ?a = "existing s ?A" and ?b = "case otherAccount c s of None \<Rightarrow> zeroAccount | Some b \<Rightarrow> b"
  let ?x = "?m ?A \<noteq> None" and ?y = "otherAccount c s \<noteq> None"
  define d where "d = decideGo c ?a ?x ?b ?y (Pending (bkAgents s ?A))"
  have f: "wA (bankRecord c s) = ?A" "wB (bankRecord c s) = ?B" "wAccepted (bankRecord c s) = dAccepted d"
    "wEffect (bankRecord c s) = dEffect d" "wNewBalanceA (bankRecord c s) = dBalanceA d" "wNewBalanceB (bankRecord c s) = dBalanceB d"
    "wNewStatus (bankRecord c s) = dStatus d" by (simp_all add: d_def bankRecord_def)
  have a: "sint (aBalance ?a) = balanceOf ?m ?A" "0 \<le> balanceOf ?m ?A"
    using s by (simp_all add: existing_def balanceOf_def zeroAccount_def holds_def split: option.split)
  have b: "sint (aBalance ?b) = balanceOf ?m ?B" if ?y
    using that by (auto simp: balanceOf_def otherAccount_def split: if_splits)
  note D = moved_def f Let_def netOf_def resultOf_def isKind_def kind_defs
  have transfer: ?thesis if k: "isKind (cKind c) kTransfer \<or> isKind (cKind c) kConfirm"
    and e: "dAccepted d" "dEffect d = 3" ?y "slt 0 (cAmount c)" "\<not> slt (aBalance ?a) (cAmount c)"
      "dBalanceA d = aBalance ?a - cAmount c" "dBalanceB d = aBalance ?b + cAmount c"
  proof -
    have "?A \<noteq> ?B" using c(1) k by (auto simp: ValidateCommand_def split: if_splits)
    then have "holds (moved (bankRecord c s) s) n"
      using e debited [OF s a(1) e(4,5)] credited [OF s b [OF e(3)] e(4) c(2)]
      by (auto simp: D slt_def intro!: holds_transfer [OF s, where k = "sint (cAmount c)"])
    then show ?thesis using k e f by (auto simp: netOf_def resultOf_def isKind_def kind_defs)
  qed
  from decideGo_cases [OF d_def] show ?thesis
  proof (elim disjE conjE)
    assume "dAccepted d" "dEffect d = 1" "isKind (cKind c) kCreate" "\<not> ?x" "dBalanceA d = cAmount c" "\<not> slt (cAmount c) 0"
    then show ?thesis
      using holds_upd [OF s, of "\<lparr>aID = ?A, aBalance = cAmount c, aStatus = StatusOpen, aVersion = 1\<rparr>" ?A]
      by (simp add: D slt_def) (simp add: balanceOf_def)
  next
    assume "dAccepted d" "dEffect d = 2" "slt 0 (cAmount c)" "isKind (cKind c) kDeposit" "dBalanceA d = aBalance ?a + cAmount c"
    then show ?thesis
      using holds_upd [OF s, of "?a\<lparr>aBalance := aBalance ?a + cAmount c, aVersion := aVersion ?a + 1\<rparr>" ?A]
        credited [OF s a(1) _ c(2)] by (simp add: D)
  next
    assume "dAccepted d" "dEffect d = 2" "slt 0 (cAmount c)" "isKind (cKind c) kWithdraw" "dBalanceA d = aBalance ?a - cAmount c"
      "\<not> slt (aBalance ?a) (cAmount c)"
    then show ?thesis
      using holds_upd [OF s, of "?a\<lparr>aBalance := aBalance ?a - cAmount c, aVersion := aVersion ?a + 1\<rparr>" ?A]
        debited [OF s a(1)] by (simp add: D)
  next
    assume "isKind (cKind c) kTransfer" "dAccepted d" "dEffect d = 3" ?y "slt 0 (cAmount c)" "\<not> slt (aBalance ?a) (cAmount c)"
      "dBalanceA d = aBalance ?a - cAmount c" "dBalanceB d = aBalance ?b + cAmount c"
    then show ?thesis using transfer by blast
  next
    assume "isKind (cKind c) kConfirm" "dAccepted d" "dEffect d = 3" ?y "slt 0 (cAmount c)" "\<not> slt (aBalance ?a) (cAmount c)"
      "dBalanceA d = aBalance ?a - cAmount c" "dBalanceB d = aBalance ?b + cAmount c"
    then show ?thesis using transfer by blast
  next
    assume "dAccepted d" "dEffect d = 0"
    then show ?thesis using s decideGo_idle [OF d_def] by (auto simp: D)
  qed (use s holds_upd [OF s, of "?a\<lparr>aStatus := dStatus d, aVersion := aVersion ?a + 1\<rparr>" ?A] a in \<open>auto simp: D\<close>)
qed

section \<open>Sequences of commands\<close>

lemma netOf_le: "netOf c (resultOf (bankRecord c s)) \<le> max 0 (sint (cAmount c))"
proof -
  have "0 < sint (cAmount c)" if "wAccepted (bankRecord c s)" "isKind (cKind c) kWithdraw"
    using that by (auto simp: bankRecord_def decideGo_def noneDecision_def Let_def slt_def isKind_def kind_defs split: if_splits)
  then show ?thesis by (auto simp: netOf_def resultOf_def)
qed

lemma bankRun_holds:
  assumes "holds (bkAccounts s) n" "list_all (\<lambda>c. ValidateCommand c = None) cs" "n + inflow cs < 2 ^ 63" "bankRun h cs s = (rs, s')"
  shows "holds (bkAccounts s') (n + sum_list (map2 netOf cs rs))"
  using assms
proof (induction cs arbitrary: s n rs)
  case (Cons c cs)
  obtain r s1 where 1: "bankSubmit h c s = (r, s1)" by fastforce
  obtain rs1 where 2: "bankRun h cs s1 = (rs1, s')" "rs = r # rs1" using Cons.prems(4) 1 by (auto split: prod.splits)
  have "0 \<le> inflow cs" unfolding inflow_def by (intro sum_list_nonneg) auto
  then have b: "n + max 0 (sint (cAmount c)) < 2 ^ 63" using Cons.prems(3) by (simp add: inflow_def)
  have "holds (bkAccounts s1) (n + netOf c r) \<and> netOf c r \<le> max 0 (sint (cAmount c))"
  proof (cases "map_of (bkRetained s) (cID c)")
    case None
    then show ?thesis using moved_holds [OF Cons.prems(1) _ b] netOf_le [of c s] Cons.prems(2) 1 by (auto simp: bankSubmit_def bankApply_def Let_def)
  next
    case (Some prior)
    then show ?thesis using Cons.prems(1) 1 by (auto simp: bankSubmit_def netOf_def)
  qed
  then have "holds (bkAccounts s1) (n + netOf c r)" "netOf c r \<le> max 0 (sint (cAmount c))" by blast+
  from Cons.IH [OF this(1) _ _ 2(1)] this(2) Cons.prems(2,3) 2(2) show ?case by (simp add: inflow_def add.assoc)
qed simp

end
