(* ===== verification/Account_DB.thy ===== *)
theory Account_DB
  imports Core_Engine Go_Text
begin

text \<open>
  The public account database, \<^verbatim>\<open>octetdb.go\<close> and \<^verbatim>\<open>errors.go\<close>: options, the format marker, the
  conversions between the public values and those of the engine, and the operations of a handle. The
  admission channel holds one token, which an operation takes and gives back: an operation is a function
  of the handle and the file system. A nil handle is \<open>None\<close>.
\<close>

section \<open>Errors\<close>

text \<open>\<open>errors.As\<close> looks for the engine error through the chain of wrapped ones.\<close>

fun asRuntimeError :: "go_error \<Rightarrow> CoreErrorKind option" where
  "asRuntimeError (RuntimeError kind _) = Some kind"
| "asRuntimeError (Wrapped _ e) = asRuntimeError e"
| "asRuntimeError _ = None"

fun publicKind :: "CoreErrorKind \<Rightarrow> ErrorKind" where
  "publicKind InvalidCommand = ErrorInvalidInput"
| "publicKind CapacityExceeded = ErrorCapacity"
| "publicKind EngineClosed = ErrorClosed"
| "publicKind EnginePoisoned = ErrorPoisoned"
| "publicKind RecoveryCorrupt = ErrorCorruption"
| "publicKind RecoveryIncompatible = ErrorIncompatible"
| "publicKind DurabilityWriteFailed = ErrorStorage"

text \<open>A panic is no error value and reaches no handler.\<close>

definition wrapError :: "string \<Rightarrow> go_error \<Rightarrow> go_error" where
  "wrapError op err =
     (case err of
        Panic p \<Rightarrow> Panic p
      | _ \<Rightarrow> (case asRuntimeError err of
               Some kind \<Rightarrow> Error (publicKind kind) op ''engine''
             | None \<Rightarrow> Error ErrorStorage op ''engine''))"

section \<open>Values\<close>

definition formatContents :: bytes where
  "formatContents =
     str ''OCTETDB'' @ [0x0A] @ str ''format=1'' @ [0x0A] @ str ''model=accounts-v1'' @ [0x0A]
     @ str ''engine=safe-go'' @ [0x0A]
     @ str ''oct-revision=309da01b60ec0f7917d4fd5efd1707bd71d2d40f'' @ [0x0A]"

type_synonym CommandKind_pub = byte

definition Create :: CommandKind_pub where "Create = 1"
definition Deposit :: CommandKind_pub where "Deposit = 2"
definition Withdraw :: CommandKind_pub where "Withdraw = 3"
definition Transfer :: CommandKind_pub where "Transfer = 4"
definition Freeze :: CommandKind_pub where "Freeze = 5"
definition Unfreeze :: CommandKind_pub where "Unfreeze = 6"
definition BeginTransfer :: CommandKind_pub where "BeginTransfer = 7"
definition Confirm :: CommandKind_pub where "Confirm = 8"
definition Cancel :: CommandKind_pub where "Cancel = 9"

lemmas public_kind_defs = Create_def Deposit_def Withdraw_def Transfer_def Freeze_def Unfreeze_def
  BeginTransfer_def Confirm_def Cancel_def

record Command_pub =
  pcID :: bytes
  pcKind :: CommandKind_pub
  pcAccountID :: u64
  pcOtherAccountID :: u64
  pcAmount :: i64

datatype Reason =
    ReasonApplied
  | ReasonAwaitingConfirmation
  | ReasonCancelled
  | ReasonInvalidAmount
  | ReasonAccountMissing
  | ReasonAccountExists
  | ReasonAccountFrozen
  | ReasonInsufficientFunds
  | ReasonInvalidWorkflow

record Result_pub =
  prSequence :: u64
  prCommandID :: bytes
  prAccepted :: bool
  prReason :: Reason
  prDuplicate :: bool

record Account_pub =
  paID :: u64
  paBalance :: i64
  paFrozen :: bool
  paVersion :: u64

record Options =
  optPath :: bytes
  optMaxAccounts :: int
  optDedupeHorizon :: int
  optBatchMax :: int

record Stats_pub =
  stCommittedSequence :: u64
  stWALBytesWritten :: u64
  stSnapshotSequence :: u64
  stDedupeEntries :: nat
  stAccountCount :: nat

definition zeroStats_pub :: Stats_pub where
  "zeroStats_pub = \<lparr>stCommittedSequence = 0, stWALBytesWritten = 0, stSnapshotSequence = 0, stDedupeEntries = 0, stAccountCount = 0\<rparr>"

record DB =
  dbCore :: Core
  dbClosed :: bool

section \<open>Conversions\<close>

definition kinds :: "(CommandKind_pub \<times> CommandKind) list" where
  "kinds = [(Create, kCreate), (Deposit, kDeposit), (Withdraw, kWithdraw), (Transfer, kTransfer), (Freeze, kFreeze),
            (Unfreeze, kUnfreeze), (BeginTransfer, kBeginTransfer), (Confirm, kConfirm), (Cancel, kCancel)]"

definition invalidSubmit :: "string \<Rightarrow> go_error" where
  "invalidSubmit msg = Error ErrorInvalidInput ''submit'' msg"

definition convertCommand :: "Command_pub \<Rightarrow> Command res" where
  "convertCommand command =
     (if pcID command = [] \<or> pcAccountID command = 0
      then Inl (invalidSubmit ''command ID and AccountID are required'')
      else if sint (pcAmount command) > 2 ^ 63 - 1 \<or> sint (pcAmount command) < - (2 ^ 63 - 1) - 1
      then Inl (invalidSubmit ''amount is outside the platform integer range'')
      else case map_of kinds (pcKind command) of
        None \<Rightarrow> Inl (invalidSubmit ''unknown command kind'')
      | Some kind \<Rightarrow>
          Inr \<lparr>cID = pcID command, cKind = kind, cAccount = pcAccountID command, cOther = pcOtherAccountID command,
               cAmount = pcAmount command\<rparr>)"

fun convertCommands :: "Command_pub list \<Rightarrow> Command list res" where
  "convertCommands [] = Inr []"
| "convertCommands (c # cs) =
     (case convertCommand c of
        Inl e \<Rightarrow> Inl e
      | Inr i \<Rightarrow> (case convertCommands cs of Inl e \<Rightarrow> Inl e | Inr is \<Rightarrow> Inr (i # is)))"

definition reasons :: "Reason list" where
  "reasons = [ReasonApplied, ReasonAwaitingConfirmation, ReasonCancelled, ReasonInvalidAmount, ReasonAccountMissing,
              ReasonAccountExists, ReasonAccountFrozen, ReasonInsufficientFunds, ReasonInvalidWorkflow]"

definition convertResult :: "Result \<Rightarrow> Result_pub" where
  "convertResult result =
     (let reason = (if 0 \<le> sint (resReasonTag result) \<and> sint (resReasonTag result) < int (length reasons)
                    then reasons ! nat (sint (resReasonTag result)) else ReasonInvalidWorkflow)
      in \<lparr>prSequence = resSequence result, prCommandID = resCommandID result, prAccepted = resAccepted result,
          prReason = reason, prDuplicate = resDuplicate result\<rparr>)"

section \<open>Opening\<close>

definition normalizeOptions :: "Options \<Rightarrow> Options res" where
  "normalizeOptions opts =
     (if TrimSpace (optPath opts) = [] then Inl (Error ErrorInvalidInput ''open'' ''Path is required'')
      else if optMaxAccounts opts < 0 \<or> optDedupeHorizon opts < 0 \<or> optBatchMax opts < 0
      then Inl (Error ErrorInvalidInput ''open'' ''bounds cannot be negative'')
      else
        let o1 = (if optMaxAccounts opts = 0 then opts\<lparr>optMaxAccounts := 100000\<rparr> else opts);
            o2 = (if optDedupeHorizon o1 = 0 then o1\<lparr>optDedupeHorizon := 100000\<rparr> else o1);
            o3 = (if optBatchMax o2 = 0 then o2\<lparr>optBatchMax := 512\<rparr> else o2)
        in Inr o3)"

definition ensureFormat :: "world \<Rightarrow> go_error option \<times> world" where
  "ensureFormat w =
     (let storage = (\<lambda>w. (Some (Error ErrorStorage ''open'' ''io''), w)) in
      case os_MkdirAll w of
        (Some e, w1) \<Rightarrow> storage w1
      | (None, w1) \<Rightarrow>
          (case os_ReadFile FORMAT w1 of
             (Inr data, w2) \<Rightarrow>
               if data \<noteq> formatContents then (Some (Error ErrorIncompatible ''open'' ''unsupported FORMAT contents''), w2)
               else (None, w2)
           | (Inl err, w2) \<Rightarrow>
               if err \<noteq> ErrNotExist then storage w2
               else case os_ReadDir w2 of
                   (Inl e, w3) \<Rightarrow> storage w3
                 | (Inr names, w3) \<Rightarrow>
                     (case (if names = {|FORMAT_tmp|} then os_Remove FORMAT_tmp w3 else (None, w3)) of
                        (Some e, w4) \<Rightarrow> storage w4
                      | (None, w4) \<Rightarrow>
                          if names \<noteq> {||} \<and> names \<noteq> {|FORMAT_tmp|}
                          then (Some (Error ErrorIncompatible ''open'' ''non-empty directory has no OctetDB FORMAT marker''), w4)
                          else case os_OpenExcl FORMAT_tmp w4 of
                              (Some e, w5) \<Rightarrow> storage w5
                            | (None, w5) \<Rightarrow>
                                (case and_then (and_then (close_after (and_then
                                        (file_WriteAt FORMAT_tmp 0 formatContents w5)
                                        (file_Sync FORMAT_tmp)))
                                        (os_Rename FORMAT_tmp FORMAT))
                                        syncDirectory of
                                   (None, w6) \<Rightarrow> (None, w6)
                                 | (Some e, w6) \<Rightarrow> storage (snd (os_Remove FORMAT_tmp w6))))))"

definition coreConfig :: "Options \<Rightarrow> CoreConfig" where
  "coreConfig opts =
     \<lparr>StorageDir = optPath opts, Durability = BatchSync, DedupeWindow = optDedupeHorizon opts,
      MaxAccounts = optMaxAccounts opts, BatchMax = optBatchMax opts,
      AccountHint = min (optMaxAccounts opts) 1024, RecordHint = 0\<rparr>"

definition Open :: "ctx \<Rightarrow> Options \<Rightarrow> world \<Rightarrow> DB res \<times> world" where
  "Open c opts0 w =
     (case c of
        CtxNil \<Rightarrow> (Inl (Error ErrorInvalidInput ''open'' ''nil context''), w)
      | CtxDone e \<Rightarrow> (Inl e, w)
      | CtxLive \<Rightarrow>
          (case normalizeOptions opts0 of
             Inl e \<Rightarrow> (Inl e, w)
           | Inr opts \<Rightarrow>
               (case ensureFormat w of
                  (Some e, w1) \<Rightarrow> (Inl e, w1)
                | (None, w1) \<Rightarrow>
                    (case OpenCore (coreConfig opts) w1 of
                       (Inl e, w2) \<Rightarrow> (Inl (wrapError ''open'' e), w2)
                     | (Inr engine, w2) \<Rightarrow> (Inr \<lparr>dbCore = engine, dbClosed = False\<rparr>, w2)))))"

section \<open>Operations\<close>

definition db_enter :: "DB option \<Rightarrow> ctx \<Rightarrow> string \<Rightarrow> go_error option" where
  "db_enter db c op =
     (case db of
        None \<Rightarrow> Some (Error ErrorClosed op ''database is closed'')
      | Some h \<Rightarrow>
          if dbClosed h then Some (Error ErrorClosed op ''database is closed'')
          else case c of
            CtxNil \<Rightarrow> Some (Error ErrorInvalidInput op ''nil context'')
          | CtxDone e \<Rightarrow> Some e
          | CtxLive \<Rightarrow> None)"

definition DB_SubmitBatch :: "DB option \<Rightarrow> ctx \<Rightarrow> Command_pub list \<Rightarrow> world \<Rightarrow> Result_pub list res \<times> DB option \<times> world" where
  "DB_SubmitBatch db c commands w =
     (case db_enter db c ''submit'' of
        Some e \<Rightarrow> (Inl e, db, w)
      | None \<Rightarrow>
          if commands = [] then (Inr [], db, w)
          else case convertCommands commands of
            Inl e \<Rightarrow> (Inl e, db, w)
          | Inr internal \<Rightarrow>
              (case SubmitBatch internal (dbCore (the db)) w of
                 (Inl e, engine, w1) \<Rightarrow> (Inl (wrapError ''submit'' e), Some ((the db)\<lparr>dbCore := engine\<rparr>), w1)
               | (Inr rs, engine, w1) \<Rightarrow> (Inr (map convertResult rs), Some ((the db)\<lparr>dbCore := engine\<rparr>), w1)))"

definition DB_Submit :: "DB option \<Rightarrow> ctx \<Rightarrow> Command_pub \<Rightarrow> world \<Rightarrow> Result_pub res \<times> DB option \<times> world" where
  "DB_Submit db c command w =
     (case DB_SubmitBatch db c [command] w of
        (Inl e, db1, w1) \<Rightarrow> (Inl e, db1, w1)
      | (Inr rs, db1, w1) \<Rightarrow> (Inr (rs ! 0), db1, w1))"

definition DB_Get :: "DB option \<Rightarrow> u64 \<Rightarrow> Account_pub option" where
  "DB_Get db i =
     (case db of
        None \<Rightarrow> None
      | Some h \<Rightarrow>
          if dbClosed h then None
          else case Core_Account i (dbCore h) of
            (a, ok) \<Rightarrow>
              if ok then Some \<lparr>paID = aID a, paBalance = aBalance a, paFrozen = (aStatus a = StatusFrozen), paVersion = aVersion a\<rparr>
              else None)"

definition DB_Snapshot :: "DB option \<Rightarrow> ctx \<Rightarrow> world \<Rightarrow> go_error option \<times> DB option \<times> world" where
  "DB_Snapshot db c w =
     (case db_enter db c ''snapshot'' of
        Some e \<Rightarrow> (Some e, db, w)
      | None \<Rightarrow>
          (case Core_Snapshot (dbCore (the db)) w of
             ((_, _, e), engine, w1) \<Rightarrow>
               (map_option (wrapError ''snapshot'') e, Some ((the db)\<lparr>dbCore := engine\<rparr>), w1)))"

definition DB_Stats :: "DB option \<Rightarrow> Stats_pub" where
  "DB_Stats db =
     (case db of
        None \<Rightarrow> zeroStats_pub
      | Some h \<Rightarrow>
          let stats = Core_Stats (dbCore h) in
          \<lparr>stCommittedSequence = csCommittedSequence stats, stWALBytesWritten = csWALBytes stats,
           stSnapshotSequence = csSnapshotSequence stats, stDedupeEntries = csDedupeEntries stats,
           stAccountCount = csAccountCount stats\<rparr>)"

definition DB_Close :: "DB option \<Rightarrow> world \<Rightarrow> go_error option \<times> DB option \<times> world" where
  "DB_Close db w =
     (case db of
        None \<Rightarrow> (None, None, w)
      | Some h \<Rightarrow>
          if dbClosed h then (None, db, w)
          else case Core_Close (dbCore h) w of
            (e, engine, w1) \<Rightarrow>
              (map_option (wrapError ''close'') e, Some (h\<lparr>dbCore := engine, dbClosed := True\<rparr>), w1))"

end
