(* ===== verification/Core_Theorems.thy ===== *)
theory Core_Theorems
  imports Core_Durable Bank_Funds Account_DB
begin

text \<open>
  The correctness of the account engine. Each theorem is instantiated on a concrete engine, opened on a
  directory that holds the header of an empty log.
\<close>

section \<open>A concrete engine\<close>

definition coreCfg :: CoreConfig where
  "coreCfg = \<lparr>StorageDir = str ''db'', Durability = BatchSync, DedupeWindow = 8, MaxAccounts = 8, BatchMax = 8,
              AccountHint = 0, RecordHint = 0\<rparr>"

definition exCore :: Core where
  "exCore = (freshCore coreCfg)\<lparr>cWal := \<lparr>wfFile = OpenedFile, wfOffset = 24, wfMode = BatchSync, wfStats = zeroStats\<rparr>\<rparr>"

definition exStore :: world where
  "exStore = \<lparr>files = fmap_of_list [(WAL_oct, walHeader)], durable = fmap_of_list [(WAL_oct, walHeader)], pend = [],
              tick = 0, faults = (\<lambda>_. OpOk), windows = False\<rparr>"

definition exCreate :: Command where
  "exCreate = \<lparr>cID = str ''c'', cKind = kCreate, cAccount = 1, cOther = 0, cAmount = 5\<rparr>"

lemma coreCfg_ok: "normalizeConfig coreCfg = Inr coreCfg" "DedupeWindow coreCfg = 8" "MaxAccounts coreCfg = 8"
  "Durability coreCfg = BatchSync" "StorageDir coreCfg \<noteq> []"
  by (simp_all add: normalizeConfig_def coreCfg_def str_def)

lemma ex_calm: "calm exStore" "calm (exStore\<lparr>files := m\<rparr>)"
  by (simp_all add: calm_def exStore_def)

lemma exCore_fields:
  "cfg exCore = coreCfg" "accounts exCore = []" "active exCore = []" "retainedBy exCore = []" "horizonOf exCore = 8"
  "cSequence exCore = 0" "wfFile (cWal exCore) = OpenedFile" "wfMode (cWal exCore) = BatchSync"
  "\<not> cClosed exCore" "cPoisoned exCore = None" "identities exCore = {}"
  by (simp_all add: exCore_def freshCore_def active_def retainedBy_def horizonOf_def coreCfg_ok identities_def)

lemma exCore_ok: "engine_ok exCore"
  using fresh_engine(1) [of coreCfg] by (simp add: coreCfg_ok exCore_def engine_ok_def slots_ok_def dedupe_ok_def marks_ok_def
      freshCore_def active_def horizonOf_def)

lemma ex_tracks: "core_tracks coreCfg None [] exCore exStore"
proof -
  have "bankOf exCore = bankOf (freshCore coreCfg)"
    by (simp add: bankOf_def exCore_def visible_def agentOf_def retainedBy_def active_def resultFor_def freshCore_def fun_eq_iff)
  moreover have "identities (freshCore coreCfg) = {}" by (simp add: identities_def freshCore_def)
  ultimately show ?thesis
    using exCore_ok exCore_fields
    by (auto simp: core_tracks_def storedBase_def storedBatches_def coreCfg_ok bankAfter_def identitiesAfter_def
        baseCore_def untouched_def exStore_def coreLog_def exCore_def freshCore_def intro!: exI [of _ "[]"])
qed

lemma ex_orderly: "orderly exCore [exCreate]" "room coreCfg None [] exCore [exCreate]"
  by (simp_all add: orderly_def room_def exCore_fields remembered_def exCreate_def isKind_def baseCore_def freshCore_def
      coreCfg_ok str_def)

lemma ex_hyps: "addressed (active exCore) (map aID (accounts exCore)) [exCreate]" "remembered (horizonOf exCore) (retainedBy exCore) [exCreate]"
  "length (accounts exCore) + 2 * length [exCreate] < 2 ^ 32"
  by (simp_all add: exCore_fields remembered_def exCreate_def isKind_def)

lemma appendBatch_calm:
  assumes "calm w" "wfFile wal = OpenedFile" "wfMode wal = BatchSync" "length (batchPayload rs) \<le> maxFrameBytes"
  shows "\<exists>wal' w'. appendBatch rs wal w = (None, wal', w') \<and> (durable w = files w \<longrightarrow> durable w' = files w') \<and> (pend w = [] \<longrightarrow> pend w' = [])"
  using assms by (auto simp: appendBatch_def walWrite_def file_Write_def onFile_def file_Sync_def Let_def split: prod.splits)

lemma ex_batch: "bResults (runBatch [exCreate] exCore) = [\<lparr>resSequence = 1, resCommandID = str ''c'', resAccepted = True,
     resReasonTag = 0, resEffectTag = 1, resTransitionCount = 1, resDuplicate = False\<rparr>]"
  "length (batchPayload (bRecords (runBatch [exCreate] exCore))) = 130" "bRecords (runBatch [exCreate] exCore) \<noteq> []"
  by code_simp+

lemma ex_submit: "\<exists>rs e' w'. SubmitBatch [exCreate] exCore exStore = (Inr rs, e', w') \<and> durable w' = files w' \<and> pend w' = []
    \<and> length rs = 1 \<and> resAccepted (hd rs) \<and> \<not> resDuplicate (hd rs)"
proof -
  let ?rs = "bRecords (runBatch [exCreate] exCore)"
  have v: "ValidateCommand exCreate = None" "newAccounts [exCreate] exCore = [1]" by code_simp+
  have "cWal (bCore (runBatch [exCreate] exCore)) = cWal exCore"
    using runBatch_refines(1) [OF exCore_ok _ ex_hyps] v by (simp add: sameBase_def)
  then obtain wal w' where "appendBatch ?rs (cWal (bCore (runBatch [exCreate] exCore))) exStore = (None, wal, w')"
    "durable w' = files w'" "pend w' = []"
    using appendBatch_calm [OF ex_calm(1), of "cWal exCore" ?rs] ex_batch(2) exCore_fields
    by (auto simp: maxFrameBytes_def exStore_def)
  then show ?thesis
    using v ex_batch exCore_fields by (simp add: SubmitBatch_def coreCfg_def validateBatch_def Let_def)
qed

section \<open>Batches\<close>





section \<open>Durability\<close>





text \<open>C31. Snapshots round trip: decoding the snapshot of an engine gives an engine with the same bank, the
  same slots and a fresh staging area, under any configuration with the same retention.\<close>

theorem core_snapshot_roundtrip:
  assumes "encodableCore e" "DedupeWindow c = DedupeWindow (cfg e)"
  shows "\<exists>r. decodeSnapshot (encodeSnapshot e) (freshCore c) = Inr r \<and> engine_ok r \<and> bankOf r = bankOf e \<and> accounts r = accounts e
    \<and> cfg r = c \<and> epoch r = 0"
proof -
  obtain stats where d: "decodeSnapshot (encodeSnapshot e) (freshCore c) = Inr ((loadedCore e c)\<lparr>recoveryStats := stats\<rparr>)"
    using decode_encode [OF assms] by blast
  let ?r = "(loadedCore e c)\<lparr>recoveryStats := stats\<rparr>"
  have "engine_ok ?r = engine_ok (loadedCore e c)" "bankOf ?r = bankOf (loadedCore e c)"
    using slots_ok_cong [of ?r "loadedCore e c"] dedupe_cong [of ?r "loadedCore e c"]
    by (simp_all add: engine_ok_def marks_ok_def bankOf_def)
  then show ?thesis using d loadedCore_represents [OF assms] by (intro exI [of _ ?r]) simp
qed

lemma ex_encodable: "encodableCore exCore"
proof -
  have "length (snapshotBody exCore) = 28" by code_simp
  moreover have "ledger exCore = []" by (simp add: exCore_def freshCore_def)
  ultimately show ?thesis using exCore_ok exCore_fields coreCfg_ok(2)
    by (simp add: encodableCore_def ledger_ok_def results_ok_def)
qed

theorem core_snapshot_roundtrip_witness:
  "\<exists>r. decodeSnapshot (encodeSnapshot exCore) (freshCore coreCfg) = Inr r \<and> bankOf r = bankOf exCore"
  using core_snapshot_roundtrip [OF ex_encodable, of coreCfg] exCore_fields(1) by auto

section \<open>Failures\<close>

lemma Core_Account_visible: "Core_Account i e = (case visible e i of None \<Rightarrow> (zeroAccount, False) | Some a \<Rightarrow> (a, True))"
  by (simp add: Core_Account_def visible_def split: option.split)

lemma SubmitBatch_errors:
  assumes "SubmitBatch cs e w = (Inl err, e', w')" "wrapError op err = Error ErrorStorage op m"
  shows "list_all (\<lambda>c. ValidateCommand c = None) cs \<and> (\<exists>x wal. e' = (bCore (runBatch cs e))\<lparr>cWal := wal, cPoisoned := Some x\<rparr>)"
proof -
  have "asRuntimeError x = Some InvalidCommand" if "validateBatch cs = Some x" for x
  proof -
    have "x \<in> the ` {y. y \<noteq> None \<and> y \<in> ValidateCommand ` set cs}"
      using that by (force simp: validateBatch_def filter_eq_Cons_iff map_eq_append_conv split: list.splits)
    then show ?thesis by (auto simp: ValidateCommand_def split: if_splits)
  qed
  then show ?thesis
    using assms validateBatch_None [of cs]
    by (auto simp: SubmitBatch_def Let_def wrapError_def split: if_splits option.splits prod.splits go_error.splits)
qed


definition exHandle :: DB where
  "exHandle = \<lparr>dbCore = exCore, dbClosed = False\<rparr>"

definition exPublic :: Command_pub where
  "exPublic = \<lparr>pcID = str ''c'', pcKind = Create, pcAccountID = 1, pcOtherAccountID = 0, pcAmount = 5\<rparr>"

lemma ex_convert: "convertCommand exPublic = Inr exCreate" "convertCommands [exPublic] = Inr [exCreate]"
  by code_simp+

lemma ex_valid: "ValidateCommand exCreate = None" "newAccounts [exCreate] exCore = [1]"
  by code_simp+

lemma ex_cWal: "cWal (bCore (runBatch [exCreate] exCore)) = cWal exCore"
  using runBatch_refines(1) [OF exCore_ok _ ex_hyps] ex_valid by (simp add: sameBase_def)


end
