(* ===== verification/Core_Findings.thy ===== *)
theory Core_Findings
  imports Core_Theorems
begin

text \<open>
  Inputs on which the account engine does not do what its comments say: a snapshot that fails half-way, a
  batch that is not serial, rejected commands that use up the capacity, and a log that makes recovery
  panic.
\<close>

section \<open>A snapshot that fails half-way\<close>

definition exSeekFails :: world where
  "exSeekFails = exStore\<lparr>faults := (\<lambda>n. if n = 12 then OpFail 0 else OpOk)\<rparr>"

definition exBroken :: Core where
  "exBroken = exCore\<lparr>cWal := countBytes 24 ((cWal exCore)\<lparr>wfOffset := 0\<rparr>)\<rparr>"

lemma ex_snapshot:
  "\<exists>w'. Core_Snapshot exCore exSeekFails = ((Some SNAPSHOT_oct, length (encodeSnapshot exCore), Some (PathError ''seek'')), exBroken, w')
    \<and> fmlookup (files w') WAL_oct = Some walHeader \<and> fmlookup (files w') SNAPSHOT_oct = Some (encodeSnapshot exCore)
    \<and> tick w' = 13 \<and> faults w' = faults exSeekFails"
  using exCore_fields coreCfg_ok
  by (simp add: Core_Snapshot_def installSnapshotFile_def resetWAL_def Let_def exSeekFails_def exStore_def next_outcome_def ticked_def
      os_OpenTrunc_def file_WriteAt_def file_Write_def file_Sync_def close_after_def file_Close_def io_check_def os_Rename_def
      apply_rename_def contents_def write_at_def syncDirectory_def directory_Sync_def onFile_def file_Truncate_def file_Seek_def writeHeader_def
      countBytes_def exBroken_def)

lemma ex_broken_batch: "length (batchPayload (bRecords (runBatch [exCreate] exBroken))) = 130"
  "bRecords (runBatch [exCreate] exBroken) \<noteq> []" "newAccounts [exCreate] exBroken = [1]" "accounts exBroken = []" "cClosed exBroken = False"
  "cPoisoned exBroken = None"
  by code_simp+

lemma OpenCore_refuses:
  assumes "calm w" "storedBase c base" "fmlookup (files w) SNAPSHOT_oct = map_option encodeSnapshot base"
    and "contents WAL_oct w = d" "d \<noteq> []" "scanWAL (cSequence (baseCore c base)) d = Inl err" "fmlookup (files w) WAL_oct \<noteq> None"
  shows "\<exists>w'. OpenCore c w = (Inl (classifyRecoveryError err), w')"
proof -
  obtain stats where 1: "openStore (freshCore c) w = (Inr ((baseCore c base)\<lparr>recoveryStats := stats\<rparr>), ticked (ticked w))"
    using loadSnapshot_base [OF assms(1-3)] by blast
  have "\<exists>w'. openWAL (StorageDir c) BatchSync (cSequence (baseCore c base)) (ticked (ticked w)) = (Inl err, w')"
    using assms by (auto simp: openWAL_def storedBase_def os_OpenRdwr_def io_check_def file_ReadAll_def failOpen_def Let_def fmdom_notI fmdomI)
  then show ?thesis using 1 assms(2) by (auto simp: OpenCore_def storedBase_def)
qed

text \<open>C37. A finding: a snapshot that fails after it has emptied the log leaves an engine that is not poisoned
  and whose log file is positioned at its start. The next batch overwrites the header of the log; it is
  acknowledged, and the directory cannot be opened any more.\<close>

theorem failed_snapshot_breaks_the_log:
  "\<exists>x n err e1 w1 rs e2 w2 w3. Core_Snapshot exCore exSeekFails = ((x, n, Some err), e1, w1) \<and> cPoisoned e1 = None
     \<and> SubmitBatch [exCreate] e1 w1 = (Inr rs, e2, w2) \<and> list_all resAccepted rs
     \<and> OpenCore coreCfg (exStore\<lparr>files := files w2\<rparr>) = (Inl (RuntimeError RecoveryCorrupt ''corrupt''), w3)"
proof -
  let ?p = "batchPayload (bRecords (runBatch [exCreate] exBroken))"
  obtain w1 where w1: "Core_Snapshot exCore exSeekFails = ((Some SNAPSHOT_oct, length (encodeSnapshot exCore), Some (PathError ''seek'')), exBroken, w1)"
    "fmlookup (files w1) WAL_oct = Some walHeader" "fmlookup (files w1) SNAPSHOT_oct = Some (encodeSnapshot exCore)" "tick w1 = 13"
    "faults w1 = faults exSeekFails" using ex_snapshot by blast
  have ok: "engine_ok exBroken" "cfg exBroken = coreCfg" "addressed (active exBroken) (map aID (accounts exBroken)) [exCreate]"
    "remembered (horizonOf exBroken) (retainedBy exBroken) [exCreate]" "length (accounts exBroken) + 2 * length [exCreate] < 2 ^ 32"
    using exCore_ok exCore_fields ex_hyps dedupe_cong [of exBroken exCore]
    by (simp_all add: exBroken_def engine_ok_def active_def)
  have "cWal (bCore (runBatch [exCreate] exBroken)) = cWal exBroken"
    using runBatch_refines(1) [OF ok(1) _ ok(3-5)] ex_valid by (simp add: sameBase_def)
  then obtain wal w2 where a: "appendBatch (bRecords (runBatch [exCreate] exBroken)) (cWal (bCore (runBatch [exCreate] exBroken))) w1 = (None, wal, w2)"
    "fmlookup (files w2) WAL_oct = Some (frame ?p)" "fmlookup (files w2) SNAPSHOT_oct = Some (encodeSnapshot exCore)"
    using w1 ex_broken_batch(1) exCore_fields
    by (auto simp: appendBatch_def walWrite_def file_Write_def onFile_def file_Sync_def next_outcome_def ticked_def exSeekFails_def maxFrameBytes_def
        exBroken_def countBytes_def contents_def write_at_def Let_def)
  have s: "\<exists>e2. SubmitBatch [exCreate] exBroken w1 = (Inr (bResults (runBatch [exCreate] exBroken)), e2, w2)"
    using a(1) ex_valid ex_broken_batch ok(2) by (simp add: SubmitBatch_def coreCfg_def validateBatch_def Let_def)
  have ne: "frame ?p \<noteq> []" by (simp add: frame_def le32_def numeral_eq_Suc)
  have "le32 130 = [130, 0, 0, 0]" "hd walFileMagic = 79" by code_simp+
  then have "hd (frame ?p) = 130" "hd walFileMagic = 79" using ex_broken_batch(1) by (simp_all add: frame_def)
  then have "take 8 (frame ?p) \<noteq> walFileMagic" using hd_take [of 8 "frame ?p"] by force
  then have "scanWAL x (frame ?p) = Inl (OtherError ''invalid WAL header or format version'')" for x by (simp add: scanWAL_def)
  then have "\<exists>w3. OpenCore coreCfg (exStore\<lparr>files := files w2\<rparr>) = (Inl (classifyRecoveryError (OtherError ''invalid WAL header or format version'')), w3)"
    using a(2,3) ex_encodable exCore_fields(1) coreCfg_ok ne
    by (intro OpenCore_refuses [OF ex_calm(2), where base = "Some exCore" and d = "frame ?p"]) (simp_all add: storedBase_def contents_def)
  moreover have "list_all resAccepted (bResults (runBatch [exCreate] exBroken))" by code_simp
  ultimately show ?thesis using w1(1) s ex_broken_batch(6) by (auto simp: classifyRecoveryError_def)
qed

section \<open>Slots of missing accounts\<close>

definition memCfg :: "int \<Rightarrow> CoreConfig" where
  "memCfg n = \<lparr>StorageDir = [], Durability = MemoryOnly, DedupeWindow = 8, MaxAccounts = n, BatchMax = 8, AccountHint = 0, RecordHint = 0\<rparr>"

lemma OpenCore_memory: "0 < n \<Longrightarrow> OpenCore (memCfg n) w = (Inr (freshCore (memCfg n)), w)"
  by (simp add: OpenCore_def normalizeConfig_def memCfg_def openStore_def openWAL_def freshCore_def Let_def)

definition exBoot :: world where
  "exBoot = \<lparr>files = fmempty, durable = fmempty, pend = [], tick = 0, faults = (\<lambda>_. OpOk), windows = False\<rparr>"

definition exMissing :: Command where
  "exMissing = \<lparr>cID = str ''d'', cKind = kDeposit, cAccount = 7, cOther = 0, cAmount = 5\<rparr>"

definition exRejected :: "Result list res \<times> Core \<times> world" where
  "exRejected = SubmitBatch [exMissing] (freshCore (memCfg 1)) exBoot"

text \<open>C39. A finding: a command that is rejected because its account does not exist still allocates a slot for
  the account, and the slots are what the bound on the number of accounts counts. After one rejected
  deposit a database for one account holds no account, and refuses to create one.\<close>

theorem rejections_use_up_the_capacity:
  "\<exists>e r e1 w1. OpenCore (memCfg 1) exBoot = (Inr e, exBoot) \<and> SubmitBatch [exMissing] e exBoot = (Inr [r], e1, w1)
     \<and> \<not> resAccepted r \<and> SortedAccounts e1 = []
     \<and> fst (SubmitBatch [exCreate] e1 w1) = Inl (RuntimeError CapacityExceeded ''account capacity exceeded'')"
proof -
  have "\<exists>r. fst exRejected = Inr [r] \<and> \<not> resAccepted r"
  proof -
    have "(case fst exRejected of Inr rs \<Rightarrow> map resAccepted rs = [False] | Inl _ \<Rightarrow> False)" by code_simp
    then show ?thesis by (auto split: sum.splits)
  qed
  moreover have "SortedAccounts (fst (snd exRejected)) = []" by code_simp
  moreover have "fst (SubmitBatch [exCreate] (fst (snd exRejected)) (snd (snd exRejected)))
      = Inl (RuntimeError CapacityExceeded ''account capacity exceeded'')" by code_simp
  ultimately show ?thesis
    using OpenCore_memory [of 1 exBoot] unfolding exRejected_def by (metis prod.collapse zero_less_one)
qed

section \<open>A batch that is not serial\<close>

primrec submitEach :: "Command list \<Rightarrow> Core \<Rightarrow> world \<Rightarrow> Result res list" where
  "submitEach [] e w = []"
| "submitEach (c # cs) e w = (case Submit c e w of (r, e1, w1) \<Rightarrow> r # submitEach cs e1 w1)"

definition exWorkflow :: "Command list" where
  "exWorkflow =
     [\<lparr>cID = str ''a'', cKind = kBeginTransfer, cAccount = 1, cOther = 2, cAmount = 5\<rparr>,
      \<lparr>cID = str ''b'', cKind = kCreate, cAccount = 1, cOther = 0, cAmount = 9\<rparr>,
      \<lparr>cID = str ''c'', cKind = kCreate, cAccount = 2, cOther = 0, cAmount = 0\<rparr>,
      \<lparr>cID = str ''d'', cKind = kConfirm, cAccount = 1, cOther = 2, cAmount = 5\<rparr>]"

text \<open>C38. A finding: a transfer that is begun before its account exists is remembered when the commands are
  submitted one by one, and forgotten when they are one batch. The same four commands move the money in
  the first case and reject the confirmation in the second.\<close>

theorem batch_is_not_serial:
  "\<exists>e rs. OpenCore (memCfg 8) exBoot = (Inr e, exBoot) \<and> fst (SubmitBatch exWorkflow e exBoot) = Inr rs
     \<and> map resAccepted rs = [True, True, True, False]
     \<and> list_all (\<lambda>r. case r of Inr x \<Rightarrow> resAccepted x | Inl _ \<Rightarrow> False) (submitEach exWorkflow e exBoot)"
proof -
  have "(case fst (SubmitBatch exWorkflow (freshCore (memCfg 8)) exBoot) of
      Inr rs \<Rightarrow> map resAccepted rs = [True, True, True, False] | Inl _ \<Rightarrow> False)" by code_simp
  then obtain rs where "fst (SubmitBatch exWorkflow (freshCore (memCfg 8)) exBoot) = Inr rs" "map resAccepted rs = [True, True, True, False]"
    by (auto split: sum.splits)
  moreover have "list_all (\<lambda>r. case r of Inr x \<Rightarrow> resAccepted x | Inl _ \<Rightarrow> False) (submitEach exWorkflow (freshCore (memCfg 8)) exBoot)"
    by code_simp
  ultimately show ?thesis using OpenCore_memory [of 8 exBoot] by auto
qed

section \<open>A log that makes recovery panic\<close>

text \<open>A batch of one record of which the last byte is missing.\<close>

definition exShort :: bytes where
  "exShort = le32 1 @ le64 0 @ le32 1 @ [0] @ le64 0 @ le64 0 @ le64 0 @ le64 0 @ [0]
     @ le64 0 @ le64 0 @ le64 0 @ le64 0 @ le64 0 @ le64 0 @ le64 0 @ le64 0 @ le64 0 @ replicate 7 0"

lemma ex_short: "scanPayload 0 [] exShort = Inl (Panic ''slice bounds out of range'')" "length exShort = 129"
proof -
  have "rbind takeI64 f (replicate 7 0) = Inl sliceBounds" for f :: "u64 \<Rightarrow> walRecord reader"
    by (simp add: rbind_def takeI64_def takeU64_def)
  moreover have "takeBytes (Suc 0) (b # rest) = Inr ([b], rest)" for b rest by (simp add: takeBytes_def)
  ultimately show "scanPayload 0 [] exShort = Inl (Panic ''slice bounds out of range'')"
    by (simp add: exShort_def scanPayload_def parseWALRecord_def reader_simps fixed_def sliceBounds_def)
  show "length exShort = 129" by (simp add: exShort_def)
qed


end
