(* ===== verification/Spec2Isabelle.thy ===== *)
theory Spec2Isabelle
  imports Keyed_Theorems Catalog_Theorems Coordinator_Theorems Core_Findings
begin

text \<open>
  \<^bold>\<open>OctetDB: the keyed database, the catalog, and the account database with its engine.\<close>

  OctetDB is an embedded database in Go, owned by one process. Three public interfaces share one storage
  technique: a log of checksummed frames beside a snapshot that is replaced atomically.

  \<^item> The \<^emph>\<open>keyed database\<close> (\<^verbatim>\<open>src/keyed.go\<close>, \<^verbatim>\<open>src/keyed_storage.go\<close>) runs callbacks that mutate JSON records
    atomically. Commands are deduplicated by identity, and a coordinator goroutine commits them in groups.
  \<^item> The \<^emph>\<open>catalog\<close> (\<^verbatim>\<open>src/catalog.go\<close>, \<^verbatim>\<open>src/catalog_storage.go\<close>, \<^verbatim>\<open>src/query.go\<close>) puts buckets and datasets
    on top of it, with bounds of their own and ordered scans.
  \<^item> The \<^emph>\<open>account database\<close> (\<^verbatim>\<open>src/octetdb.go\<close>, \<^verbatim>\<open>src/errors.go\<close>) is a handle on the \<^emph>\<open>account engine\<close>
    (\<^verbatim>\<open>src/internal/core/core.go\<close>, \<^verbatim>\<open>types.go\<close>), which decides batches of account commands against staged
    accounts, logs a batch in one binary frame and applies it afterwards.

  \<^bold>\<open>Theories and sources.\<close>

  \<^item> Prelude. \<open>Octet_Base\<close>: bytes, results, errors, maps. \<open>Go_IO\<close>: the files of a directory, what of them is
    persistent, an oracle that lets any call fail, and power loss (\<open>crash\<close>). \<open>Go_Binary\<close>: endian encodings,
    CRC-32, SHA-256, hexadecimal, base 64. \<open>Go_Text\<close>, \<open>Go_Json\<close>, \<open>Go_Json_Laws\<close>: UTF-8 and \<open>encoding/json\<close>
    for the types in use. These model the Go standard library as far as the sources call it.
  \<^item> Interfaces, as locales. \<open>Framing\<close>: \<open>log_replayer\<close>, the loop that reads frames until the end or a torn
    frame. \<open>Dedupe_Window\<close>: \<open>dedupe_window\<close>, a bounded memory of the last decisions. \<open>Atomic_Replace\<close>:
    \<open>replaced_file\<close>, write, synchronise, rename, synchronise the directory. \<open>Catalog_Laws\<close>:
    \<open>ordered_cursor\<close>. The first two are interpreted on the keyed database and on the account engine, the
    third on the catalog file, the last on the catalog database.
  \<^item> Keyed database. \<open>Keyed_Store\<close>: \<^verbatim>\<open>keyed_storage.go\<close>. \<open>Keyed_Engine\<close>: transactions, execution of a command,
    \<open>commitGroup\<close>, snapshots, reads and closing of \<^verbatim>\<open>keyed.go\<close>. \<open>Keyed_Coordinator\<close>: its goroutines. A handle is
    the record \<open>KeyedDB\<close> with the fields of the Go struct. A callback is a program over the transaction, an
    argument of the model.
  \<^item> Catalog. \<open>Catalog_State\<close>: the catalog and its file. \<open>Catalog\<close>: databases, buckets, datasets, catalog
    transactions and scans. \<open>Database\<close> extends the record \<open>KeyedDB\<close>, as the Go struct embeds the engine.
  \<^item> Account database. \<open>Core_Types\<close>: commands, options, \<open>decideGo\<close>. \<open>Core_State\<close>: slots, staging, retained
    results. \<open>Core_Codec\<close>: binary records and snapshots. \<open>Core_Engine\<close>: batches, opening, recovery,
    snapshots. \<open>Account_DB\<close>: \<^verbatim>\<open>octetdb.go\<close> and \<^verbatim>\<open>errors.go\<close>.

  \<^bold>\<open>What is shown.\<close>

  \<^item> Durability. \<open>Keyed_Recovery\<close>, \<open>Keyed_Reopen\<close>, \<open>Keyed_Snapshot\<close>, \<open>Keyed_Life\<close>: through any interleaving of
    commit groups, snapshots, closing, power losses and reopening, with any file-system call failing, no
    acknowledged result is lost and the state is that of the committed history. \<open>Core_Recovery\<close>,
    \<open>Core_Durable\<close>: the same of a batch of the account engine. \<open>Atomic_Replace\<close>, \<open>Catalog_Codec\<close>: the catalog
    file is the old one or the new one.
  \<^item> Refinement and equivalence. \<open>Bank_Spec\<close> is the account engine without slots, staging, log and batches;
    \<open>Core_Slots\<close> and \<open>Core_Batch\<close> show that a batch answers and changes what the bank does, command by
    command. \<open>Keyed_Serial\<close>: a commit group equals the serial submission of its requests. \<open>Catalog_Laws\<close>: the
    cursors that commits maintain are the ones that opening derives.
  \<^item> Invariants. \<open>Keyed_Laws\<close>, \<open>Keyed_Invariant\<close>, \<open>Catalog_Inv\<close>, \<open>Catalog_Keep\<close>: the validation that recovery
    performs holds of every state that operations reach. \<open>Bank_Funds\<close>: the money of the bank changes by
    the accepted deposits and withdrawals only.
  \<^item> Liveness and termination. \<open>Keyed_Coordinator\<close> models submissions, reads, snapshots, the coordinator, the
    admission token and \<open>Close\<close> as steps that interleave in any order. No wake-up is lost: from every
    reachable state all calls that have begun can return, and no infinite sequence of steps avoids it.
  \<^item> Round trips of all persistent formats: \<open>Keyed_Codec_Laws\<close>, \<open>Catalog_Codec\<close>, \<open>Core_Codec_Laws\<close>,
    \<open>Core_Snapshot_Laws\<close>.
  \<^item> The properties, each with an instance on concrete data where it has hypotheses: \<open>Keyed_Theorems\<close>,
    \<open>Catalog_Theorems\<close>, \<open>Coordinator_Theorems\<close>, \<open>Core_Theorems\<close>. Inputs on which the code does not do what it is
    meant to do: the last properties of \<open>Keyed_Theorems\<close> and \<open>Catalog_Theorems\<close>, and \<open>Core_Findings\<close>.

  \<^bold>\<open>Bounds.\<close>

  No definition takes fuel. Loops over the log consume a frame in each iteration, loops over text consume
  a byte, the binary search halves its interval; their termination is proved. Sequence numbers, amounts,
  balances, lengths and checksums are words of the width the code uses. Slice lengths and record counts
  are natural numbers: a length of \<open>2^63\<close> cannot occur in Go. Where a counter must not wrap around or the
  money must fit 64 bits, the theorem says so in a hypothesis (\<open>room\<close>, \<open>holds\<close>).

  \<^bold>\<open>Not modelled.\<close>

  \<^item> Clocks, durations and the statistics read from them; \<open>PopulationBytes\<close>, which reads slice capacities.
  \<^item> Cancellation of a context at points other than those where the code looks at it, and the scheduler of
    the Go runtime, except that every interleaving of the coordinator's steps is considered.
  \<^item> Reflection: \<open>json.Marshal\<close> and \<open>json.Unmarshal\<close> of a value of the caller appear as the JSON text.
  \<^item> \<^verbatim>\<open>src/internal/model\<close>, \<^verbatim>\<open>m5compiled\<close> and the generated part of \<^verbatim>\<open>scheduled\<close> are output of a compiler for
    another language, of which the repository holds no semantics. \<^verbatim>\<open>src/internal/researchengine\<close>, \<^verbatim>\<open>m5\<close>, \<^verbatim>\<open>db\<close> and
    \<^verbatim>\<open>baseline\<close> are earlier engines and adapters that call them or PostgreSQL; the public packages do not
    import them.
  \<^item> \<^verbatim>\<open>src/internal/bench\<close>, \<^verbatim>\<open>metrics\<close>, \<^verbatim>\<open>workload\<close>, \<^verbatim>\<open>src/cmd\<close>, \<^verbatim>\<open>src/integration\<close>, \<^verbatim>\<open>src/examples\<close>, \<^verbatim>\<open>src/docs\<close>,
    \<^verbatim>\<open>src/postgres\<close> and \<^verbatim>\<open>src/experiments\<close> measure, demonstrate or document the database.
\<close>

end
